(* ===== verification/Prelude.thy ===== *)
theory Prelude
  imports Main "HOL-Library.Word" "HOL-Library.Char_ord" "HOL-Library.List_Lexorder"
begin

text \<open>
  Shared vocabulary of the development: executions of C++ code as values, little-endian
  integers, the \<^verbatim>\<open>memcpy\<close> into an automatic array, and the parts of
  \<^verbatim>\<open>std::string\<close> and of the integer conversions that the sources call.

  An execution (\<open>'a exec\<close>) either stops (\<open>Abort\<close>: an exception that no caller catches, or a
  step with no meaningful continuation such as a vector index out of range) or delivers a value
  together with the list of the undefined-behaviour events it went through (\<open>Done\<close>): a write or
  a read past the end of an array on the stack, a signed overflow. After such an event the model
  goes on as the compiled program does when the neighbouring stack bytes are not in use: the
  value is the one of the bytes inside the array, and a signed result wraps around.
\<close>

section \<open>Executions\<close>

named_theorems exec_simps \<open>how the operations of the execution type evaluate\<close>

datatype err =
    InvalidArgument      \<comment> \<open>\<^verbatim>\<open>std::invalid_argument\<close>\<close>
  | OutOfRange           \<comment> \<open>\<^verbatim>\<open>std::out_of_range\<close>\<close>
  | BadIndex             \<comment> \<open>vector, string or array index out of range\<close>
  | BadSize              \<comment> \<open>negative array size or copy length\<close>
  | Uninitialised        \<comment> \<open>read of an object that was never written\<close>
  | EmptyStack           \<comment> \<open>\<^verbatim>\<open>top\<close> or \<^verbatim>\<open>pop\<close> of an empty \<^verbatim>\<open>std::stack\<close>\<close>
  | DivideByZero         \<comment> \<open>integer division by zero\<close>
  | NoReturn             \<comment> \<open>unbounded recursion or an endless loop\<close>
  | JsonAssert           \<comment> \<open>a failed \<^verbatim>\<open>RAPIDJSON_ASSERT\<close>\<close>
  | NullPointer          \<comment> \<open>a null pointer is dereferenced\<close>
  | AssertFailed         \<comment> \<open>a failed \<^verbatim>\<open>assert\<close>\<close>
  | BufferOverrun        \<comment> \<open>a write past the end of an array that other members follow\<close>
  | NotModelled          \<comment> \<open>an input form outside the model\<close>

datatype fault =
    Overrun nat          \<comment> \<open>that many bytes written past the end of an array\<close>
  | Overread nat         \<comment> \<open>that many bytes read past the end of an array\<close>
  | SignedOverflow       \<comment> \<open>signed arithmetic or conversion out of range\<close>

datatype 'a exec = Abort err | Done 'a "fault list"

abbreviation ret :: "'a \<Rightarrow> 'a exec" where
  "ret x \<equiv> Done x []"

definition bind_exec :: "'a exec \<Rightarrow> ('a \<Rightarrow> 'b exec) \<Rightarrow> 'b exec" where
  "bind_exec m f =
     (case m of Abort e \<Rightarrow> Abort e
      | Done a l \<Rightarrow> (case f a of Abort e \<Rightarrow> Abort e | Done b l' \<Rightarrow> Done b (l @ l')))"

definition flag :: "fault list \<Rightarrow> unit exec" where
  "flag l = Done () l"

definition returns :: "'a exec \<Rightarrow> bool" where
  "returns m = (case m of Abort _ \<Rightarrow> False | Done _ _ \<Rightarrow> True)"

definition value_of :: "'a exec \<Rightarrow> 'a option" where
  "value_of m = (case m of Abort _ \<Rightarrow> None | Done a _ \<Rightarrow> Some a)"

definition faults_of :: "'a exec \<Rightarrow> fault list" where
  "faults_of m = (case m of Abort _ \<Rightarrow> [] | Done _ l \<Rightarrow> l)"

lemma bind_Abort [simp, exec_simps]: "bind_exec (Abort e) f = Abort e"
  by (simp add: bind_exec_def)

lemma bind_Done [exec_simps]:
  "bind_exec (Done a l) f = (case f a of Abort e \<Rightarrow> Abort e | Done b l' \<Rightarrow> Done b (l @ l'))"
  by (simp add: bind_exec_def)

lemma bind_ret [simp, exec_simps]: "bind_exec (ret a) f = f a"
  by (simp add: bind_exec_def split: exec.splits)

lemma bind_ret_right [simp]: "bind_exec m ret = m"
  by (simp add: bind_exec_def split: exec.splits)

lemma bind_assoc: "bind_exec (bind_exec m f) g = bind_exec m (\<lambda>x. bind_exec (f x) g)"
  by (simp add: bind_exec_def split: exec.splits)

lemma bind_eq_Done:
  "bind_exec m f = Done b l \<longleftrightarrow>
     (\<exists>a l1 l2. m = Done a l1 \<and> f a = Done b l2 \<and> l = l1 @ l2)"
  by (auto simp: bind_exec_def split: exec.splits)

lemma value_of_simps [simp]: "value_of (Abort e) = None" "value_of (Done a l) = Some a"
  by (simp_all add: value_of_def)

lemma faults_of_simps [simp]: "faults_of (Abort e) = []" "faults_of (Done a l) = l"
  by (simp_all add: faults_of_def)

lemma returns_simps [simp]: "returns (Abort e) \<longleftrightarrow> False" "returns (Done a l) \<longleftrightarrow> True"
  by (simp_all add: returns_def)

lemma bind_exec_cong: "m = m' \<Longrightarrow> (\<And>a. f a = f' a) \<Longrightarrow> bind_exec m f = bind_exec m' f'"
  by (simp add: bind_exec_def split: exec.splits)

lemma value_of_bind: "value_of (bind_exec m f) = Option.bind (value_of m) (\<lambda>a. value_of (f a))"
  by (simp add: bind_exec_def split: exec.splits)

text \<open>A loop body run over a list, the state threaded through.\<close>

fun fold_exec :: "('a \<Rightarrow> 's \<Rightarrow> 's exec) \<Rightarrow> 'a list \<Rightarrow> 's \<Rightarrow> 's exec" where
  "fold_exec f [] s = ret s"
| "fold_exec f (x # xs) s = bind_exec (f x s) (fold_exec f xs)"

lemma fold_exec_Nil [simp]: "fold_exec f [] = ret"
  by (rule ext) simp

lemma fold_exec_append:
  "fold_exec f (xs @ ys) s = bind_exec (fold_exec f xs s) (fold_exec f ys)"
  by (induction xs arbitrary: s) (simp_all add: bind_assoc cong: bind_exec_cong)

lemma fold_exec_ret: "(\<And>x s. x \<in> set xs \<Longrightarrow> f x s = ret (g x s)) \<Longrightarrow> fold_exec f xs s = ret (fold g xs s)"
  by (induction xs arbitrary: s) simp_all

text \<open>Loops with an index: an invariant of the state.\<close>

lemma fold_exec_upt_inv:
  assumes "P 0 s" and "\<And>i s. i < n \<Longrightarrow> P i s \<Longrightarrow> \<exists>s'. value_of (f i s) = Some s' \<and> P (Suc i) s'"
  shows "\<exists>s'. value_of (fold_exec f [0..<n] s) = Some s' \<and> P n s'"
  using assms(2)
proof (induction n)
  case 0
  then show ?case using assms(1) by simp
next
  case (Suc n)
  have "\<exists>s'. value_of (fold_exec f [0..<n] s) = Some s' \<and> P n s'"
    by (rule Suc.IH) (use Suc.prems in simp)
  then obtain s1 where s1: "value_of (fold_exec f [0..<n] s) = Some s1" "P n s1" by blast
  obtain s2 where s2: "value_of (f n s1) = Some s2" "P (Suc n) s2"
    using Suc.prems [OF _ s1(2)] by blast
  show ?case using s1 s2 by (simp add: fold_exec_append value_of_bind)
qed

lemma fold_exec_upt_ret:
  assumes "P 0 s" and "\<And>i s. i < n \<Longrightarrow> P i s \<Longrightarrow> \<exists>s'. f i s = ret s' \<and> P (Suc i) s'"
  shows "\<exists>s'. fold_exec f [0..<n] s = ret s' \<and> P n s'"
  using assms(2)
proof (induction n)
  case 0
  then show ?case using assms(1) by simp
next
  case (Suc n)
  have "\<exists>s'. fold_exec f [0..<n] s = ret s' \<and> P n s'"
    by (rule Suc.IH) (use Suc.prems in simp)
  then obtain s1 where s1: "fold_exec f [0..<n] s = ret s1" "P n s1" by blast
  then show ?case using Suc.prems [of n s1] by (auto simp: fold_exec_append)
qed

text \<open>Checked reads: \<^verbatim>\<open>operator[]\<close> and fields that may never have been written.\<close>

definition nth_exec :: "'a list \<Rightarrow> int \<Rightarrow> 'a exec" where
  "nth_exec xs i = (if 0 \<le> i \<and> i < int (length xs) then ret (xs ! nat i) else Abort BadIndex)"

definition get_exec :: "'a option \<Rightarrow> 'a exec" where
  "get_exec v = (case v of None \<Rightarrow> Abort Uninitialised | Some a \<Rightarrow> ret a)"

lemma nth_exec_ok [simp]: "0 \<le> i \<Longrightarrow> i < int (length xs) \<Longrightarrow> nth_exec xs i = ret (xs ! nat i)"
  by (simp add: nth_exec_def)

lemma nth_exec_bad: "\<not> (0 \<le> i \<and> i < int (length xs)) \<Longrightarrow> nth_exec xs i = Abort BadIndex"
  by (auto simp: nth_exec_def)

lemma get_exec_simps [simp]: "get_exec (Some a) = ret a" "get_exec None = Abort Uninitialised"
  by (simp_all add: get_exec_def)

section \<open>Fixed-width integers\<close>

type_synonym byte = "8 word"
type_synonym bytes = "byte list"

definition int32_ok :: "int \<Rightarrow> bool" where
  "int32_ok z \<longleftrightarrow> - (2 ^ 31) \<le> z \<and> z < 2 ^ 31"

definition int64_ok :: "int \<Rightarrow> bool" where
  "int64_ok z \<longleftrightarrow> - (2 ^ 63) \<le> z \<and> z < 2 ^ 63"

definition wrap32 :: "int \<Rightarrow> int" where
  "wrap32 z = (z + 2 ^ 31) mod 2 ^ 32 - 2 ^ 31"

definition wrap64 :: "int \<Rightarrow> int" where
  "wrap64 z = (z + 2 ^ 63) mod 2 ^ 64 - 2 ^ 63"

definition arith32 :: "int \<Rightarrow> int exec" where
  "arith32 z = Done (wrap32 z) (if int32_ok z then [] else [SignedOverflow])"

definition arith64 :: "int \<Rightarrow> int exec" where
  "arith64 z = Done (wrap64 z) (if int64_ok z then [] else [SignedOverflow])"

lemma wrap32_id [simp]: "int32_ok z \<Longrightarrow> wrap32 z = z"
  by (simp add: wrap32_def int32_ok_def)

lemma wrap64_id [simp]: "int64_ok z \<Longrightarrow> wrap64 z = z"
  by (simp add: wrap64_def int64_ok_def)

lemma wrap32_0 [simp]: "wrap32 0 = 0"
  by (simp add: wrap32_def)

lemma wrap32_add [simp]:
  "wrap32 (wrap32 a + b) = wrap32 (a + b)" "wrap32 (b + wrap32 a) = wrap32 (b + a)"
  by (simp_all add: wrap32_def mod_add_right_eq mod_add_left_eq add_ac)

lemma wrap32_ok [simp]: "int32_ok (wrap32 z)"
proof -
  have "0 \<le> (z + 2 ^ 31) mod 2 ^ 32" and "(z + 2 ^ 31) mod 2 ^ 32 < (2 ^ 32 :: int)"
    by simp_all
  then show ?thesis by (simp add: wrap32_def int32_ok_def)
qed

lemma wrap64_ok [simp]: "int64_ok (wrap64 z)"
proof -
  have "0 \<le> (z + 2 ^ 63) mod 2 ^ 64" and "(z + 2 ^ 63) mod 2 ^ 64 < (2 ^ 64 :: int)"
    by simp_all
  then show ?thesis by (simp add: wrap64_def int64_ok_def)
qed

lemma arith32_ok [simp]: "int32_ok z \<Longrightarrow> arith32 z = ret z"
  by (simp add: arith32_def)

lemma arith64_ok [simp]: "int64_ok z \<Longrightarrow> arith64 z = ret z"
  by (simp add: arith64_def)

lemma int32_int64: "int32_ok z \<Longrightarrow> int64_ok z"
  by (simp add: int32_ok_def int64_ok_def)

text \<open>Division of C++ integers truncates towards zero.\<close>

definition tdiv :: "int \<Rightarrow> int \<Rightarrow> int" where
  "tdiv a b = sgn a * sgn b * (\<bar>a\<bar> div \<bar>b\<bar>)"

definition tmod :: "int \<Rightarrow> int \<Rightarrow> int" where
  "tmod a b = a - b * tdiv a b"

lemma tdiv_nonneg: "0 \<le> a \<Longrightarrow> 0 < b \<Longrightarrow> tdiv a b = a div b"
  by (cases "a = 0") (simp_all add: tdiv_def)

lemma tmod_nonneg: "0 \<le> a \<Longrightarrow> 0 < b \<Longrightarrow> tmod a b = a mod b"
  by (simp add: tmod_def tdiv_nonneg minus_mult_div_eq_mod)

text \<open>Little-endian byte sequences (the target is aarch64, little-endian).\<close>

fun le_uint :: "bytes \<Rightarrow> int" where
  "le_uint [] = 0"
| "le_uint (b # bs) = uint b + 256 * le_uint bs"

fun le_bytes :: "nat \<Rightarrow> int \<Rightarrow> bytes" where
  "le_bytes 0 z = []"
| "le_bytes (Suc n) z = word_of_int z # le_bytes n (z div 256)"

lemma length_le_bytes [simp]: "length (le_bytes n z) = n"
  by (induction n arbitrary: z) simp_all

lemma uint_byte_bounds: "0 \<le> uint (b :: byte)" "uint (b :: byte) < 256"
  using uint_bounded [of b] by simp_all

lemma uint_word_of_int_byte: "uint (word_of_int z :: byte) = z mod 256"
  by (simp add: uint_word_of_int)

lemma le_uint_nonneg [simp]: "0 \<le> le_uint bs"
  by (induction bs) (simp_all add: uint_byte_bounds(1))

lemma le_uint_bound: "le_uint bs < 256 ^ length bs"
proof (induction bs)
  case Nil
  then show ?case by simp
next
  case (Cons b bs)
  have "uint b < 256" by (rule uint_byte_bounds)
  moreover have "le_uint bs + 1 \<le> 256 ^ length bs" using Cons.IH by simp
  ultimately have "uint b + 256 * le_uint bs < 256 * 256 ^ length bs" by linarith
  then show ?case by simp
qed

lemma le_uint_le_bytes: "le_uint (le_bytes n z) = z mod 256 ^ n"
proof (induction n arbitrary: z)
  case 0
  then show ?case by simp
next
  case (Suc n)
  have "z mod (256 * 256 ^ n) = 256 * (z div 256 mod 256 ^ n) + z mod 256"
    by (rule zmod_zmult2_eq) simp
  with Suc show ?case by (simp add: uint_word_of_int_byte)
qed

lemma le_bytes_le_uint: "le_bytes (length bs) (le_uint bs) = bs"
proof (induction bs)
  case Nil
  then show ?case by simp
next
  case (Cons b bs)
  have d: "(uint b + 256 * le_uint bs) div 256 = le_uint bs"
    using uint_byte_bounds [of b] by (simp add: div_add1_eq)
  have "uint (word_of_int (uint b + 256 * le_uint bs) :: byte) = uint b"
    using uint_byte_bounds [of b] by (simp only: uint_word_of_int_byte) simp
  then have "(word_of_int (uint b + 256 * le_uint bs) :: byte) = b"
    by (simp only: word_uint_eq_iff)
  with d Cons show ?case by simp
qed

lemma le_uint_append: "le_uint (xs @ ys) = le_uint xs + 256 ^ length xs * le_uint ys"
  by (induction xs) (simp_all add: algebra_simps)

lemma le_uint_zeros [simp]: "le_uint (replicate n 0) = 0"
  by (induction n) simp_all

definition le_int32 :: "bytes \<Rightarrow> int" where
  "le_int32 bs = wrap32 (le_uint bs)"

definition le_int64 :: "bytes \<Rightarrow> int" where
  "le_int64 bs = wrap64 (le_uint bs)"

lemma mod_wrap32: "int32_ok z \<Longrightarrow> wrap32 (z mod 2 ^ 32) = z"
  by (simp add: wrap32_def int32_ok_def mod_add_left_eq)

lemma mod_wrap64: "int64_ok z \<Longrightarrow> wrap64 (z mod 2 ^ 64) = z"
  by (simp add: wrap64_def int64_ok_def mod_add_left_eq)

lemma le_int32_bytes [simp]: "int32_ok z \<Longrightarrow> le_int32 (le_bytes 4 z) = z"
  using mod_wrap32 [of z] by (simp add: le_int32_def le_uint_le_bytes)

lemma le_int64_bytes [simp]: "int64_ok z \<Longrightarrow> le_int64 (le_bytes 8 z) = z"
  using mod_wrap64 [of z] by (simp add: le_int64_def le_uint_le_bytes)

end
