(* ===== verification/Cstd.thy ===== *)
theory Cstd
  imports Prelude
begin

text \<open>
  The C and C++ standard library as far as the sources use it: \<^verbatim>\<open>memcpy\<close> into an array on
  the stack, \<^verbatim>\<open>std::string\<close> search and erase, \<^verbatim>\<open>getline\<close>, \<^verbatim>\<open>isspace\<close> and
  \<^verbatim>\<open>tolower\<close> of the C locale, \<^verbatim>\<open>stoi\<close>, \<^verbatim>\<open>stoll\<close>, \<^verbatim>\<open>stoull\<close> and
  \<^verbatim>\<open>to_string\<close>, with the laws the components rely on.
\<close>

section \<open>Copies between arrays\<close>

text \<open>
  \<^verbatim>\<open>memcpy(dst, src + off, n)\<close> where \<open>dst\<close> is an automatic array of \<open>d\<close> bytes: the bytes
  that land inside \<open>dst\<close>, with the events of the copy.
\<close>

definition memcpy_local :: "int \<Rightarrow> bytes \<Rightarrow> int \<Rightarrow> int \<Rightarrow> bytes exec" where
  "memcpy_local d src off n =
     (if d < 0 \<or> n < 0 \<or> off < 0 then Abort BadSize
      else if int (length src) < off + min n d then Abort BadIndex
      else Done (take (nat (min n d)) (drop (nat off) src))
             ((if d < n then [Overrun (nat (n - d))] else [])
              @ (if int (length src) < off + n
                 then [Overread (nat (off + n - int (length src)))] else [])))"

lemma memcpy_local_exact:
  "0 \<le> off \<Longrightarrow> 0 \<le> n \<Longrightarrow> n \<le> d \<Longrightarrow> off + n \<le> int (length src) \<Longrightarrow>
   memcpy_local d src off n = ret (take (nat n) (drop (nat off) src))"
  by (simp add: memcpy_local_def)

text \<open>\<^verbatim>\<open>memcpy(dst + off, src, n)\<close> into a larger buffer: the buffer afterwards.\<close>

definition store_bytes :: "bytes \<Rightarrow> nat \<Rightarrow> bytes \<Rightarrow> bytes" where
  "store_bytes dst off src = take off dst @ src @ drop (off + length src) dst"

definition memcpy_into :: "bytes \<Rightarrow> int \<Rightarrow> bytes \<Rightarrow> bytes exec" where
  "memcpy_into dst off src =
     (if off < 0 then Abort BadIndex
      else let room = length dst - nat off
           in Done (if room = 0 then dst else store_bytes dst (nat off) (take room src))
                (if room < length src then [Overrun (length src - room)] else []))"

lemma length_store_bytes [simp]:
  "off + length src \<le> length dst \<Longrightarrow> length (store_bytes dst off src) = length dst"
  by (simp add: store_bytes_def)

lemma take_store_bytes:
  "off + length src \<le> length dst \<Longrightarrow>
   take (off + length src) (store_bytes dst off src) = take off dst @ src"
  by (simp add: store_bytes_def)

lemma memcpy_into_exact:
  "0 \<le> off \<Longrightarrow> off + int (length src) \<le> int (length dst) \<Longrightarrow>
   memcpy_into dst off src = ret (store_bytes dst (nat off) src)"
proof -
  assume off: "0 \<le> off" and len: "off + int (length src) \<le> int (length dst)"
  then have "length src \<le> length dst - nat off" by linarith
  moreover have "nat off \<le> length dst" using off len by linarith
  ultimately show ?thesis using off by (auto simp: memcpy_into_def Let_def store_bytes_def)
qed

section \<open>Characters and strings\<close>

definition chr :: "byte \<Rightarrow> char" where
  "chr b = char_of (unat b)"

definition ord :: "char \<Rightarrow> byte" where
  "ord c = of_char c"

lemma ord_chr [simp]: "ord (chr b) = b"
proof -
  have "unat b < 2 ^ LENGTH(8)" by (rule unsigned_less)
  then have "(of_char (char_of (unat b)) :: nat) = unat b"
    by (simp add: of_char_of)
  then have "(of_nat (of_char (char_of (unat b))) :: byte) = b" by simp
  then show ?thesis by (simp only: ord_def chr_def of_nat_of_char)
qed

lemma chr_ord [simp]: "chr (ord c) = c"
proof -
  have "unat (of_char c :: byte) = of_char c"
  proof -
    have "(of_char c :: byte) = of_nat (of_char c)" by (simp add: of_nat_of_char)
    moreover have "(of_char c :: nat) < 256" by simp
    ultimately show ?thesis by (simp add: unsigned_of_nat take_bit_nat_eq_self)
  qed
  then show ?thesis by (simp add: chr_def ord_def)
qed

definition text_of :: "bytes \<Rightarrow> string" where
  "text_of = map chr"

definition bytes_of :: "string \<Rightarrow> bytes" where
  "bytes_of = map ord"

lemma text_of_bytes_of [simp]: "text_of (bytes_of s) = s"
  by (simp add: text_of_def bytes_of_def comp_def)

lemma bytes_of_text_of [simp]: "bytes_of (text_of b) = b"
  by (simp add: text_of_def bytes_of_def comp_def)

lemma length_text_of [simp]: "length (text_of b) = length b"
  by (simp add: text_of_def)

lemma length_bytes_of [simp]: "length (bytes_of s) = length s"
  by (simp add: bytes_of_def)

text \<open>\<^verbatim>\<open>s.find(t, pos)\<close>; \<open>None\<close> stands for \<^verbatim>\<open>npos\<close>.\<close>

fun find_str :: "string \<Rightarrow> string \<Rightarrow> nat option" where
  "find_str t [] = (if t = [] then Some 0 else None)"
| "find_str t (c # s) =
     (if take (length t) (c # s) = t then Some 0 else map_option Suc (find_str t s))"

definition str_find :: "string \<Rightarrow> string \<Rightarrow> nat \<Rightarrow> nat option" where
  "str_find s t pos =
     (if pos \<le> length s then map_option (\<lambda>i. pos + i) (find_str t (drop pos s)) else None)"

lemma find_str_Some_iff:
  "find_str t s = Some i \<longleftrightarrow>
     i \<le> length s \<and> take (length t) (drop i s) = t \<and>
     (\<forall>j < i. take (length t) (drop j s) \<noteq> t)"
proof (induction s arbitrary: i)
  case Nil
  then show ?case by auto
next
  case (Cons c s)
  show ?case
  proof (cases "take (length t) (c # s) = t")
    case True
    then show ?thesis by (cases i) auto
  next
    case False
    show ?thesis
    proof (cases i)
      case 0
      with False show ?thesis by auto
    next
      case (Suc k)
      with False show ?thesis by (auto simp: Cons.IH All_less_Suc2)
    qed
  qed
qed

lemma find_str_None_iff:
  "find_str t s = None \<longleftrightarrow> (\<forall>j \<le> length s. take (length t) (drop j s) \<noteq> t)"
proof (induction s)
  case Nil
  then show ?case by auto
next
  case (Cons c s)
  show ?case
  proof (cases "take (length t) (c # s) = t")
    case True
    then show ?thesis by (auto intro!: exI [of _ 0])
  next
    case False
    have "(\<forall>j \<le> length (c # s). take (length t) (drop j (c # s)) \<noteq> t) \<longleftrightarrow>
          (\<forall>j \<le> length s. take (length t) (drop j s) \<noteq> t)"
    proof safe
      fix j
      assume "\<forall>j \<le> length (c # s). take (length t) (drop j (c # s)) \<noteq> t" "j \<le> length s"
        "take (length t) (drop j s) = t"
      then show False by (auto dest: spec [of _ "Suc j"])
    next
      fix j
      assume "\<forall>j \<le> length s. take (length t) (drop j s) \<noteq> t" "j \<le> length (c # s)"
        "take (length t) (drop j (c # s)) = t"
      with False show False by (cases j) auto
    qed
    with False Cons.IH show ?thesis by simp
  qed
qed

text \<open>\<^verbatim>\<open>getline(ss, temp, delimiter)\<close> called until it fails: the lines it delivers.\<close>

function getlines :: "char \<Rightarrow> string \<Rightarrow> string list" where
  "getlines d s =
     (if s = [] then []
      else takeWhile (\<lambda>c. c \<noteq> d) s # getlines d (drop 1 (dropWhile (\<lambda>c. c \<noteq> d) s)))"
  by pat_completeness auto
termination
proof (relation "measure (\<lambda>(d, s). length s)")
  fix d :: char and s :: string
  assume "s \<noteq> []"
  then have "0 < length s" by simp
  moreover have "length (dropWhile (\<lambda>c. c \<noteq> d) s) \<le> length s" by (rule length_dropWhile_le)
  ultimately have "length (drop 1 (dropWhile (\<lambda>c. c \<noteq> d) s)) < length s"
    by (simp only: length_drop)
  then show "((d, drop 1 (dropWhile (\<lambda>c. c \<noteq> d) s)), d, s) \<in> measure (\<lambda>(d, s). length s)"
    by simp
qed simp

declare getlines.simps [simp del]

lemma getlines_Nil [simp]: "getlines d [] = []"
  by (simp add: getlines.simps)

lemma getlines_no_delim: "d \<notin> set s \<Longrightarrow> s \<noteq> [] \<Longrightarrow> getlines d s = [s]"
proof -
  assume "d \<notin> set s" and ne: "s \<noteq> []"
  then have all: "\<forall>c \<in> set s. c \<noteq> d" by blast
  then have "takeWhile (\<lambda>c. c \<noteq> d) s = s" "dropWhile (\<lambda>c. c \<noteq> d) s = []"
    by (simp_all add: takeWhile_eq_all_conv dropWhile_eq_Nil_conv)
  with ne show ?thesis by (subst getlines.simps) (simp only: if_False drop_Nil getlines_Nil)
qed

lemma getlines_delim: "d \<notin> set s \<Longrightarrow> getlines d (s @ d # r) = s # getlines d r"
proof -
  assume "d \<notin> set s"
  then have all: "\<And>c. c \<in> set s \<Longrightarrow> c \<noteq> d" by blast
  then have "takeWhile (\<lambda>c. c \<noteq> d) (s @ d # r) = s" "dropWhile (\<lambda>c. c \<noteq> d) (s @ d # r) = d # r"
    by (simp_all add: takeWhile_append2 dropWhile_append2)
  then show ?thesis by (simp add: getlines.simps [of d "s @ d # r"])
qed

definition is_space :: "char \<Rightarrow> bool" where
  "is_space c \<longleftrightarrow> ord c = 32 \<or> (9 \<le> ord c \<and> ord c \<le> 13)"

definition is_digit :: "char \<Rightarrow> bool" where
  "is_digit c \<longleftrightarrow> 48 \<le> ord c \<and> ord c \<le> 57"

definition to_lower :: "char \<Rightarrow> char" where
  "to_lower c = (if 65 \<le> ord c \<and> ord c \<le> 90 then chr (ord c + 32) else c)"


section \<open>Decimal numbers as text\<close>

fun dec_val :: "string \<Rightarrow> nat \<Rightarrow> nat" where
  "dec_val [] acc = acc"
| "dec_val (c # s) acc = dec_val s (10 * acc + (unat (ord c) - 48))"

text \<open>The number at the start of the text, as \<^verbatim>\<open>strtol\<close> reads it in base 10.\<close>

definition strto_int :: "string \<Rightarrow> int option" where
  "strto_int s =
     (let s1 = dropWhile is_space s;
          neg = (s1 \<noteq> [] \<and> hd s1 = CHR ''-'');
          s2 = (if s1 \<noteq> [] \<and> (hd s1 = CHR ''-'' \<or> hd s1 = CHR ''+'') then tl s1 else s1);
          ds = takeWhile is_digit s2
      in if ds = [] then None
         else Some (if neg then - int (dec_val ds 0) else int (dec_val ds 0)))"

definition stoi :: "string \<Rightarrow> int exec" where
  "stoi s = (case strto_int s of None \<Rightarrow> Abort InvalidArgument
             | Some z \<Rightarrow> if int32_ok z then ret z else Abort OutOfRange)"

definition stoll :: "string \<Rightarrow> int exec" where
  "stoll s = (case strto_int s of None \<Rightarrow> Abort InvalidArgument
              | Some z \<Rightarrow> if int64_ok z then ret z else Abort OutOfRange)"

text \<open>\<^verbatim>\<open>strtoull\<close> negates a number with a minus sign modulo \<open>2^64\<close>.\<close>

definition stoull :: "string \<Rightarrow> int exec" where
  "stoull s = (case strto_int s of None \<Rightarrow> Abort InvalidArgument
               | Some z \<Rightarrow> if \<bar>z\<bar> < 2 ^ 64 then ret (z mod 2 ^ 64) else Abort OutOfRange)"

definition digit_char :: "nat \<Rightarrow> char" where
  "digit_char d = chr (of_nat (48 + d))"

fun dec_str :: "nat \<Rightarrow> string" where
  "dec_str n = (if n < 10 then [digit_char n] else dec_str (n div 10) @ [digit_char (n mod 10)])"

declare dec_str.simps [simp del]

definition to_string :: "int \<Rightarrow> string" where
  "to_string z = (if z < 0 then CHR ''-'' # dec_str (nat (- z)) else dec_str (nat z))"

lemma unat_ord_digit_char: "d < 10 \<Longrightarrow> unat (ord (digit_char d)) = 48 + d"
  by (simp only: digit_char_def ord_chr unat_of_nat) simp

lemma is_digit_iff: "is_digit c \<longleftrightarrow> 48 \<le> unat (ord c) \<and> unat (ord c) \<le> 57"
  by (simp add: is_digit_def word_le_nat_alt)

lemma is_digit_digit_char: "d < 10 \<Longrightarrow> is_digit (digit_char d)"
  by (simp add: is_digit_iff unat_ord_digit_char)

lemma dec_str_digits: "c \<in> set (dec_str n) \<Longrightarrow> is_digit c"
proof (induction n rule: dec_str.induct)
  case (1 n)
  show ?case
  proof (cases "n < 10")
    case True
    with 1(2) show ?thesis by (simp add: dec_str.simps [of n] is_digit_digit_char)
  next
    case False
    with 1 show ?thesis by (auto simp: dec_str.simps [of n] is_digit_digit_char)
  qed
qed

lemma dec_str_not_Nil [simp]: "dec_str n \<noteq> []"
  by (simp add: dec_str.simps [of n])

lemma dec_val_append: "dec_val (s @ t) acc = dec_val t (dec_val s acc)"
  by (induction s arbitrary: acc) simp_all

lemma dec_val_dec_str: "dec_val (dec_str n) 0 = n"
proof (induction n rule: dec_str.induct)
  case (1 n)
  show ?case
  proof (cases "n < 10")
    case True
    then show ?thesis by (simp add: dec_str.simps [of n] unat_ord_digit_char)
  next
    case False
    with 1 show ?thesis
      by (simp add: dec_str.simps [of n] dec_val_append unat_ord_digit_char)
  qed
qed

lemma takeWhile_digits_dec_str [simp]: "takeWhile is_digit (dec_str n) = dec_str n"
  by (simp add: takeWhile_eq_all_conv dec_str_digits)

lemma digit_not_special:
  "is_digit c \<Longrightarrow> \<not> is_space c \<and> c \<noteq> CHR ''-'' \<and> c \<noteq> CHR ''+'' \<and> c \<noteq> CHR ''|''"
  by (auto simp: is_digit_iff is_space_def ord_def word_le_nat_alt)

lemma hd_dec_str: "is_digit (hd (dec_str n))"
  by (rule dec_str_digits [OF hd_in_set]) simp

lemma dropWhile_space_dec_str [simp]: "dropWhile is_space (dec_str n) = dec_str n"
  using hd_dec_str [of n] digit_not_special [of "hd (dec_str n)"]
  by (cases "dec_str n") simp_all

lemma strto_int_to_string: "strto_int (to_string z) = Some z"
proof (cases "z < 0")
  case True
  have "dropWhile is_space (CHR ''-'' # dec_str (nat (- z))) = CHR ''-'' # dec_str (nat (- z))"
    by (simp add: is_space_def ord_def)
  with True show ?thesis
    by (simp add: strto_int_def to_string_def Let_def dec_val_dec_str)
next
  case False
  have "hd (dec_str (nat z)) \<noteq> CHR ''-''" "hd (dec_str (nat z)) \<noteq> CHR ''+''"
    using hd_dec_str digit_not_special by blast+
  with False show ?thesis
    by (simp add: strto_int_def to_string_def Let_def dec_val_dec_str)
qed

lemma stoi_to_string: "int32_ok z \<Longrightarrow> stoi (to_string z) = ret z"
  by (simp add: stoi_def strto_int_to_string)

lemma to_string_inject [simp]: "to_string a = to_string b \<longleftrightarrow> a = b"
  by (metis option.inject strto_int_to_string)

lemma bar_notin_to_string: "CHR ''|'' \<notin> set (to_string z)"
proof
  assume "CHR ''|'' \<in> set (to_string z)"
  then have "\<exists>n. CHR ''|'' \<in> set (dec_str n)"
    by (auto simp: to_string_def split: if_splits)
  then show False using dec_str_digits digit_not_special by blast
qed

end
