(* ===== verification/Json.thy ===== *)
theory Json
  imports Cstd
begin

text \<open>
  The JSON values the worker exchanges with the storage engine, as far as the sources use
  \<^verbatim>\<open>rapidjson\<close>: reading a \<^verbatim>\<open>Document\<close> by member, element and typed getters, and writing
  one by the events of a \<^verbatim>\<open>PrettyWriter\<close>. The library itself is not part of the repository: how
  a text becomes a value and how events become a text are parameters of the definitions that
  need them. A getter applied to a value of another kind, a missing member and an index past the
  end run into \<^verbatim>\<open>RAPIDJSON_ASSERT\<close> and stop the program.
\<close>

section \<open>Values\<close>

datatype json =
    JNull
  | JBool bool
  | JInt int
  | JReal string
  | JString string
  | JArray "json list"
  | JObject "(string \<times> json) list"

text \<open>\<^verbatim>\<open>v["key"]\<close>, \<^verbatim>\<open>v.HasMember\<close>, \<^verbatim>\<open>v[i]\<close> and \<^verbatim>\<open>v.Size()\<close>.\<close>

definition jmember :: "json \<Rightarrow> string \<Rightarrow> json exec" where
  "jmember v key =
     (case v of JObject ms \<Rightarrow> (case map_of ms key of None \<Rightarrow> Abort JsonAssert | Some w \<Rightarrow> ret w)
      | _ \<Rightarrow> Abort JsonAssert)"

definition has_member :: "json \<Rightarrow> string \<Rightarrow> bool exec" where
  "has_member v key =
     (case v of JObject ms \<Rightarrow> ret (map_of ms key \<noteq> None) | _ \<Rightarrow> Abort JsonAssert)"

definition jelement :: "json \<Rightarrow> nat \<Rightarrow> json exec" where
  "jelement v i =
     (case v of JArray vs \<Rightarrow> (if i < length vs then ret (vs ! i) else Abort JsonAssert)
      | _ \<Rightarrow> Abort JsonAssert)"

definition jsize :: "json \<Rightarrow> nat exec" where
  "jsize v = (case v of JArray vs \<Rightarrow> ret (length vs) | _ \<Rightarrow> Abort JsonAssert)"

text \<open>
  The getters. A string leaves the document as a \<^verbatim>\<open>const char*\<close> and becomes a
  \<^verbatim>\<open>std::string\<close> up to its first zero character.
\<close>

definition GetInt :: "json \<Rightarrow> int exec" where
  "GetInt v = (case v of JInt n \<Rightarrow> (if int32_ok n then ret n else Abort JsonAssert)
               | _ \<Rightarrow> Abort JsonAssert)"

definition GetInt64 :: "json \<Rightarrow> int exec" where
  "GetInt64 v = (case v of JInt n \<Rightarrow> (if int64_ok n then ret n else Abort JsonAssert)
                 | _ \<Rightarrow> Abort JsonAssert)"

definition GetBool :: "json \<Rightarrow> bool exec" where
  "GetBool v = (case v of JBool b \<Rightarrow> ret b | _ \<Rightarrow> Abort JsonAssert)"

definition c_string :: "string \<Rightarrow> string" where
  "c_string s = takeWhile (\<lambda>c. c \<noteq> CHR 0x00) s"

definition GetString :: "json \<Rightarrow> string exec" where
  "GetString v = (case v of JString s \<Rightarrow> ret (c_string s) | _ \<Rightarrow> Abort JsonAssert)"

definition get_member :: "(json \<Rightarrow> 'a exec) \<Rightarrow> json \<Rightarrow> string \<Rightarrow> 'a exec" where
  "get_member getter v key = bind_exec (jmember v key) getter"

definition get_element :: "(json \<Rightarrow> 'a exec) \<Rightarrow> json \<Rightarrow> nat \<Rightarrow> 'a exec" where
  "get_element getter v i = bind_exec (jelement v i) getter"

text \<open>A loop \<^verbatim>\<open>for(int i = 0; i < n; i++) list.push_back(f(i))\<close>.\<close>

definition collect :: "nat \<Rightarrow> (nat \<Rightarrow> 'a exec) \<Rightarrow> 'a list exec" where
  "collect n f = fold_exec (\<lambda>i acc. bind_exec (f i) (\<lambda>x. ret (acc @ [x]))) [0..<n] []"

text \<open>The same loop over all elements of an array.\<close>

definition collect_elements :: "(json \<Rightarrow> 'a exec) \<Rightarrow> json \<Rightarrow> 'a list exec" where
  "collect_elements f v = bind_exec (jsize v) (\<lambda>n. collect n (get_element f v))"

lemma jmember_simps [simp]:
  "jmember (JObject ((k, v) # ms)) k' = (if k' = k then ret v else jmember (JObject ms) k')"
  "jmember (JObject []) k' = Abort JsonAssert"
  by (simp_all add: jmember_def)

lemma has_member_simps [simp]:
  "has_member (JObject ((k, v) # ms)) k' = (if k' = k then ret True else has_member (JObject ms) k')"
  "has_member (JObject []) k' = ret False"
  by (simp_all add: has_member_def)

lemma jelement_simps [simp]: "i < length vs \<Longrightarrow> jelement (JArray vs) i = ret (vs ! i)"
  by (simp add: jelement_def)

lemma jsize_simps [simp]: "jsize (JArray vs) = ret (length vs)"
  by (simp add: jsize_def)

lemma getter_simps [simp]:
  "int32_ok n \<Longrightarrow> GetInt (JInt n) = ret n"
  "int64_ok n \<Longrightarrow> GetInt64 (JInt n) = ret n"
  "GetBool (JBool b) = ret b"
  "GetString (JString s) = ret (c_string s)"
  by (simp_all add: GetInt_def GetInt64_def GetBool_def GetString_def)

lemma get_member_simp [simp]: "jmember v key = ret w \<Longrightarrow> get_member f v key = f w"
  by (simp add: get_member_def)

lemma get_element_simp [simp]: "i < length vs \<Longrightarrow> get_element f (JArray vs) i = f (vs ! i)"
  by (simp add: get_element_def)

definition c_string_ok :: "string \<Rightarrow> bool" where
  "c_string_ok s \<longleftrightarrow> CHR 0x00 \<notin> set s"

lemma c_string_id [simp]: "c_string_ok s \<Longrightarrow> c_string s = s"
  by (simp add: c_string_def c_string_ok_def takeWhile_eq_all_conv) metis

lemma c_string_ok_c_string [simp]: "c_string_ok (c_string s)"
  by (auto simp: c_string_def c_string_ok_def dest: set_takeWhileD)

lemma collect_ret:
  assumes "\<And>i. i < n \<Longrightarrow> f i = ret (g i)"
  shows "collect n f = ret (map g [0..<n])"
proof -
  have "fold_exec (\<lambda>i acc. bind_exec (f i) (\<lambda>x. ret (acc @ [x]))) is acc = ret (acc @ map g is)"
    if "\<forall>i \<in> set is. i < n" for "is" acc
    using that by (induction "is" arbitrary: acc) (simp_all add: assms)
  then show ?thesis by (simp add: collect_def)
qed

lemma collect_elements_ret:
  assumes "\<And>v. v \<in> set vs \<Longrightarrow> f v = ret (g v)"
  shows "collect_elements f (JArray vs) = ret (map g vs)"
proof -
  have "collect (length vs) (get_element f (JArray vs)) = ret (map (\<lambda>i. g (vs ! i)) [0..<length vs])"
    by (rule collect_ret) (simp add: assms)
  also have "map (\<lambda>i. g (vs ! i)) [0..<length vs] = map g vs"
    by (rule nth_equalityI) simp_all
  finally show ?thesis by (simp add: collect_elements_def)
qed

section \<open>Writer events\<close>

text \<open>The calls on a \<^verbatim>\<open>PrettyWriter\<close>.\<close>

datatype json_event =
    StartObject | EndObject | StartArray | EndArray | Key string | EvInt int | EvString string

text \<open>The events that write a value; a writer has no call for the other kinds in the sources.\<close>

fun events_of :: "json \<Rightarrow> json_event list" where
  "events_of (JInt n) = [EvInt n]"
| "events_of (JString s) = [EvString s]"
| "events_of (JArray vs) = StartArray # concat (map events_of vs) @ [EndArray]"
| "events_of (JObject ms) =
     StartObject # concat (map (\<lambda>m. Key (fst m) # events_of (snd m)) ms) @ [EndObject]"
| "events_of _ = []"

lemma events_of_ints [simp]: "concat (map (events_of \<circ> JInt) ns) = map EvInt ns"
  by (induction ns) simp_all

lemma events_of_strings [simp]: "concat (map (events_of \<circ> JString) ss) = map EvString ss"
  by (induction ss) simp_all

end
