(* ===== verification/Softfloat.thy ===== *)
theory Softfloat
  imports Complex_Main Cstd
begin

text \<open>
  IEEE 754 binary arithmetic, executable over the rationals: the \<^verbatim>\<open>float\<close> and
  \<^verbatim>\<open>double\<close> of the sources. A number is a sign and a rational magnitude; every operation is
  exact arithmetic followed by one rounding to nearest, ties to even, into the format. The
  conversions \<^verbatim>\<open>stof\<close> and \<^verbatim>\<open>stod\<close> read decimal text; hexadecimal floats and the words
  for infinity and NaN are refused as \<open>NotModelled\<close>.
\<close>

section \<open>Numbers, formats, rounding\<close>

datatype fp = FNaN | FInf bool | FNum bool rat   \<comment> \<open>sign (true: negative) and magnitude\<close>

record fp_format =
  prec :: nat           \<comment> \<open>bits of the significand\<close>
  emin :: int           \<comment> \<open>exponent of the smallest subnormal\<close>
  elim :: int           \<comment> \<open>magnitudes from \<open>2 ^ elim\<close> on overflow\<close>

definition binary32 :: fp_format where
  "binary32 = \<lparr>prec = 24, emin = - 149, elim = 128\<rparr>"

definition binary64 :: fp_format where
  "binary64 = \<lparr>prec = 53, emin = - 1074, elim = 1024\<rparr>"

definition pow2 :: "int \<Rightarrow> rat" where
  "pow2 k = (if 0 \<le> k then of_int (2 ^ nat k) else 1 / of_int (2 ^ nat (- k)))"

function bitlen :: "int \<Rightarrow> int" where
  "bitlen n = (if n \<le> 0 then 0 else 1 + bitlen (n div 2))"
  by pat_completeness auto
termination by (relation "measure nat") auto

declare bitlen.simps [simp del]

text \<open>The exponent of the leading bit of a positive rational.\<close>

definition flog2 :: "rat \<Rightarrow> int" where
  "flog2 x = (let (n, d) = quotient_of x;
                  e = bitlen n - bitlen d
              in if pow2 e \<le> x then e else e - 1)"

definition rne :: "rat \<Rightarrow> int" where
  "rne x = (let f = \<lfloor>x\<rfloor>; r = x - of_int f
            in if r < 1 / 2 then f else if 1 / 2 < r then f + 1
               else if even f then f else f + 1)"

definition round_mag :: "fp_format \<Rightarrow> rat \<Rightarrow> rat" where
  "round_mag F x =
     (if x = 0 then 0
      else let e = max (flog2 x - (int (prec F) - 1)) (emin F)
           in of_int (rne (x / pow2 e)) * pow2 e)"

definition fround :: "fp_format \<Rightarrow> bool \<Rightarrow> rat \<Rightarrow> fp" where
  "fround F neg x = (let r = round_mag F x
                     in if r \<noteq> 0 \<and> elim F \<le> flog2 r then FInf neg else FNum neg r)"

definition rat_of :: "bool \<Rightarrow> rat \<Rightarrow> rat" where
  "rat_of neg m = (if neg then - m else m)"

section \<open>Operations\<close>

fun fneg :: "fp \<Rightarrow> fp" where
  "fneg FNaN = FNaN"
| "fneg (FInf s) = FInf (\<not> s)"
| "fneg (FNum s m) = FNum (\<not> s) m"

fun fadd :: "fp_format \<Rightarrow> fp \<Rightarrow> fp \<Rightarrow> fp" where
  "fadd F FNaN y = FNaN"
| "fadd F x FNaN = FNaN"
| "fadd F (FInf s) (FInf t) = (if s = t then FInf s else FNaN)"
| "fadd F (FInf s) (FNum t m) = FInf s"
| "fadd F (FNum s m) (FInf t) = FInf t"
| "fadd F (FNum s m) (FNum t n) =
     (let z = rat_of s m + rat_of t n
      in if z = 0 then FNum (s \<and> t) 0 else fround F (z < 0) \<bar>z\<bar>)"

definition fsub :: "fp_format \<Rightarrow> fp \<Rightarrow> fp \<Rightarrow> fp" where
  "fsub F x y = fadd F x (fneg y)"

fun fmul :: "fp_format \<Rightarrow> fp \<Rightarrow> fp \<Rightarrow> fp" where
  "fmul F FNaN y = FNaN"
| "fmul F x FNaN = FNaN"
| "fmul F (FInf s) (FInf t) = FInf (s \<noteq> t)"
| "fmul F (FInf s) (FNum t m) = (if m = 0 then FNaN else FInf (s \<noteq> t))"
| "fmul F (FNum s m) (FInf t) = (if m = 0 then FNaN else FInf (s \<noteq> t))"
| "fmul F (FNum s m) (FNum t n) = fround F (s \<noteq> t) (m * n)"

fun fdiv :: "fp_format \<Rightarrow> fp \<Rightarrow> fp \<Rightarrow> fp" where
  "fdiv F FNaN y = FNaN"
| "fdiv F x FNaN = FNaN"
| "fdiv F (FInf s) (FInf t) = FNaN"
| "fdiv F (FInf s) (FNum t m) = FInf (s \<noteq> t)"
| "fdiv F (FNum s m) (FInf t) = FNum (s \<noteq> t) 0"
| "fdiv F (FNum s m) (FNum t n) =
     (if n = 0 then (if m = 0 then FNaN else FInf (s \<noteq> t)) else fround F (s \<noteq> t) (m / n))"

text \<open>Comparisons are false as soon as a NaN takes part.\<close>

fun fless :: "fp \<Rightarrow> fp \<Rightarrow> bool" where
  "fless FNaN y \<longleftrightarrow> False"
| "fless x FNaN \<longleftrightarrow> False"
| "fless (FInf s) (FInf t) \<longleftrightarrow> s \<and> \<not> t"
| "fless (FInf s) (FNum t m) \<longleftrightarrow> s"
| "fless (FNum s m) (FInf t) \<longleftrightarrow> \<not> t"
| "fless (FNum s m) (FNum t n) \<longleftrightarrow> rat_of s m < rat_of t n"

fun feq :: "fp \<Rightarrow> fp \<Rightarrow> bool" where
  "feq FNaN y \<longleftrightarrow> False"
| "feq x FNaN \<longleftrightarrow> False"
| "feq (FInf s) (FInf t) \<longleftrightarrow> s = t"
| "feq (FInf s) (FNum t m) \<longleftrightarrow> False"
| "feq (FNum s m) (FInf t) \<longleftrightarrow> False"
| "feq (FNum s m) (FNum t n) \<longleftrightarrow> rat_of s m = rat_of t n"

definition fle :: "fp \<Rightarrow> fp \<Rightarrow> bool" where
  "fle x y \<longleftrightarrow> fless x y \<or> feq x y"

definition fp_of_int :: "fp_format \<Rightarrow> int \<Rightarrow> fp" where
  "fp_of_int F z = fround F (z < 0) (of_int \<bar>z\<bar>)"

text \<open>\<^verbatim>\<open>double\<close> to a signed integer: truncation; out of range the event, and the
  saturated value that aarch64 delivers.\<close>

definition fp_to_sint :: "int \<Rightarrow> fp \<Rightarrow> int exec" where
  "fp_to_sint w x =
     (case x of FNaN \<Rightarrow> Done 0 [SignedOverflow]
      | FInf s \<Rightarrow> Done (if s then - (2 ^ nat (w - 1)) else 2 ^ nat (w - 1) - 1) [SignedOverflow]
      | FNum s m \<Rightarrow>
          (let z = (if s then - \<lfloor>m\<rfloor> else \<lfloor>m\<rfloor>)
           in if - (2 ^ nat (w - 1)) \<le> z \<and> z < 2 ^ nat (w - 1) then ret z
              else Done (if s then - (2 ^ nat (w - 1)) else 2 ^ nat (w - 1) - 1) [SignedOverflow]))"

section \<open>Decimal text\<close>

record decimal =
  dec_neg :: bool
  dec_mag :: rat

fun starts_with :: "string \<Rightarrow> string \<Rightarrow> bool" where
  "starts_with [] s = True"
| "starts_with (c # p) [] = False"
| "starts_with (c # p) (d # s) = (c = d \<and> starts_with p s)"

definition strtod_exp :: "string \<Rightarrow> int" where
  "strtod_exp s =
     (case s of
        [] \<Rightarrow> 0
      | c # r \<Rightarrow>
          if c = CHR ''e'' \<or> c = CHR ''E'' then
            (let neg = (r \<noteq> [] \<and> hd r = CHR ''-'');
                 r2 = (if r \<noteq> [] \<and> (hd r = CHR ''-'' \<or> hd r = CHR ''+'') then tl r else r);
                 ds = takeWhile is_digit r2
             in if ds = [] then 0 else (if neg then - 1 else 1) * int (dec_val ds 0))
          else 0)"

definition pow10 :: "int \<Rightarrow> rat" where
  "pow10 k = (if 0 \<le> k then 10 ^ nat k else 1 / 10 ^ nat (- k))"

text \<open>The exact number that the longest decimal prefix denotes.\<close>

definition strtod_dec :: "string \<Rightarrow> decimal option" where
  "strtod_dec s =
     (let ip = takeWhile is_digit s;
          r1 = dropWhile is_digit s;
          dot = (r1 \<noteq> [] \<and> hd r1 = CHR ''.'');
          fr = (if dot then takeWhile is_digit (tl r1) else []);
          r2 = (if dot then dropWhile is_digit (tl r1) else r1)
      in if ip = [] \<and> fr = [] then None
         else Some \<lparr>dec_neg = False,
                    dec_mag = rat_of_nat (dec_val (ip @ fr) 0)
                              * pow10 (strtod_exp r2 - int (length fr))\<rparr>)"

definition sto_fp :: "fp_format \<Rightarrow> string \<Rightarrow> fp exec" where
  "sto_fp F s =
     (let s1 = dropWhile is_space s;
          neg = (s1 \<noteq> [] \<and> hd s1 = CHR ''-'');
          s2 = (if s1 \<noteq> [] \<and> (hd s1 = CHR ''-'' \<or> hd s1 = CHR ''+'') then tl s1 else s1);
          lo = map to_lower s2
      in if starts_with ''0x'' lo \<or> starts_with ''inf'' lo \<or> starts_with ''nan'' lo
         then Abort NotModelled
         else (case strtod_dec s2 of
                 None \<Rightarrow> Abort InvalidArgument
               | Some d \<Rightarrow>
                   (case fround F neg (dec_mag d) of
                      FNum n m \<Rightarrow>
                        if m \<noteq> dec_mag d \<and> (m = 0 \<or> flog2 m < emin F + int (prec F) - 1)
                        then Abort OutOfRange else ret (FNum n m)
                    | _ \<Rightarrow> Abort OutOfRange)))"

definition stod :: "string \<Rightarrow> fp exec" where
  "stod = sto_fp binary64"

definition stof :: "string \<Rightarrow> fp exec" where
  "stof = sto_fp binary32"

end
