(* ===== verification/Keti_Types.thy ===== *)
theory Keti_Types
  imports Softfloat
begin

text \<open>
  The data of the worker: the enumerations of \<^verbatim>\<open>include/keti_type.h\<close>, the constants of
  \<^verbatim>\<open>include/config.h\<close> and the structures of \<^verbatim>\<open>include/data_structure.h\<close>.

  The sources keep enumeration values in \<^verbatim>\<open>int\<close> fields filled from JSON; each enumeration
  is a datatype whose last constructor carries a number that no enumerator has, with the
  decoding from \<^verbatim>\<open>int\<close>. A \<^verbatim>\<open>kValue\<close> field that the code may leave unwritten is an
  option. The buffer \<^verbatim>\<open>raw_data\<close> is written at \<^verbatim>\<open>data_length\<close> only, so the model keeps
  the bytes written so far; its capacity is \<open>BUFFER_SIZE\<close>, and a write past it, which
  destroys the members that follow, ends the execution. The last section gives a result
  buffer its meaning: the list of rows it holds.
\<close>

section \<open>Enumerations\<close>

datatype MySQL_DataType =
    MySQL_BYTE | MySQL_INT16 | MySQL_INT32 | MySQL_INT64 | MySQL_FLOAT32 | MySQL_DOUBLE
  | MySQL_NEWDECIMAL | MySQL_DATE | MySQL_TIMESTAMP | MySQL_STRING | MySQL_VARSTRING
  | MySQL_other int

definition mysql_type_of_int :: "int \<Rightarrow> MySQL_DataType" where
  "mysql_type_of_int n =
     (if n = 1 then MySQL_BYTE else if n = 2 then MySQL_INT16 else if n = 3 then MySQL_INT32
      else if n = 8 then MySQL_INT64 else if n = 4 then MySQL_FLOAT32
      else if n = 5 then MySQL_DOUBLE else if n = 246 then MySQL_NEWDECIMAL
      else if n = 14 then MySQL_DATE else if n = 7 then MySQL_TIMESTAMP
      else if n = 254 then MySQL_STRING else if n = 15 then MySQL_VARSTRING
      else MySQL_other n)"

fun mysql_type_to_int :: "MySQL_DataType \<Rightarrow> int" where
  "mysql_type_to_int MySQL_BYTE = 1"
| "mysql_type_to_int MySQL_INT16 = 2"
| "mysql_type_to_int MySQL_INT32 = 3"
| "mysql_type_to_int MySQL_INT64 = 8"
| "mysql_type_to_int MySQL_FLOAT32 = 4"
| "mysql_type_to_int MySQL_DOUBLE = 5"
| "mysql_type_to_int MySQL_NEWDECIMAL = 246"
| "mysql_type_to_int MySQL_DATE = 14"
| "mysql_type_to_int MySQL_TIMESTAMP = 7"
| "mysql_type_to_int MySQL_STRING = 254"
| "mysql_type_to_int MySQL_VARSTRING = 15"
| "mysql_type_to_int (MySQL_other n) = n"

datatype KETI_SELECT_TYPE =
    COL_NAME | SEL_SUM | SEL_AVG | SEL_COUNT | SEL_COUNTSTAR | SEL_COUNTDISTINCT
  | SEL_TOP | SEL_MIN | SEL_MAX | SEL_other int

definition select_type_of_int :: "int \<Rightarrow> KETI_SELECT_TYPE" where
  "select_type_of_int n =
     (if n = 0 then COL_NAME else if n = 1 then SEL_SUM else if n = 2 then SEL_AVG
      else if n = 3 then SEL_COUNT else if n = 4 then SEL_COUNTSTAR
      else if n = 5 then SEL_COUNTDISTINCT else if n = 6 then SEL_TOP
      else if n = 7 then SEL_MIN else if n = 8 then SEL_MAX else SEL_other n)"

datatype KETI_VALUE_TYPE =
    V_INT8 | V_INT16 | V_INT32 | V_INT64 | V_FLOAT32 | V_DOUBLE | V_DECIMAL | V_DATE
  | V_TIMESTAMP | V_STRING | V_COLUMN | V_OPERATOR | V_BOOLEAN | V_other int

definition value_type_of_int :: "int \<Rightarrow> KETI_VALUE_TYPE" where
  "value_type_of_int n =
     (if n = 0 then V_INT8 else if n = 1 then V_INT16 else if n = 2 then V_INT32
      else if n = 3 then V_INT64 else if n = 4 then V_FLOAT32 else if n = 5 then V_DOUBLE
      else if n = 6 then V_DECIMAL else if n = 7 then V_DATE else if n = 8 then V_TIMESTAMP
      else if n = 9 then V_STRING else if n = 10 then V_COLUMN else if n = 11 then V_OPERATOR
      else if n = 12 then V_BOOLEAN else V_other n)"

datatype KETI_OPER_TYPE =
    OP_GE | OP_LE | OP_GT | OP_LT | OP_EQ | OP_NE | OP_LIKE | OP_NOTLIKE | OP_BETWEEN
  | OP_IN | OP_NOTIN | OP_IS | OP_ISNOT | OP_AND | OP_OR | OP_other int

definition oper_type_of_int :: "int \<Rightarrow> KETI_OPER_TYPE" where
  "oper_type_of_int n =
     (if n = 0 then OP_GE else if n = 1 then OP_LE else if n = 2 then OP_GT
      else if n = 3 then OP_LT else if n = 4 then OP_EQ else if n = 5 then OP_NE
      else if n = 6 then OP_LIKE else if n = 7 then OP_NOTLIKE else if n = 8 then OP_BETWEEN
      else if n = 9 then OP_IN else if n = 10 then OP_NOTIN else if n = 11 then OP_IS
      else if n = 12 then OP_ISNOT else if n = 13 then OP_AND else if n = 14 then OP_OR
      else OP_other n)"

datatype SNIPPET_TYPE =
    FULL_SCAN | INDEX_SCAN | INDEX_TABLE_SCAN | TMAX_SNIPPET | SST_FILE_SCAN
  | SNIPPET_other int

definition snippet_type_of_int :: "int \<Rightarrow> SNIPPET_TYPE" where
  "snippet_type_of_int n =
     (if n = 0 then FULL_SCAN else if n = 1 then INDEX_SCAN else if n = 2 then INDEX_TABLE_SCAN
      else if n = 15 then TMAX_SNIPPET else if n = 16 then SST_FILE_SCAN else SNIPPET_other n)"

section \<open>Constants\<close>

definition NUM_OF_BLOCKS :: int where
  "NUM_OF_BLOCKS = 100"

definition BUFFER_SIZE :: int where
  "BUFFER_SIZE = NUM_OF_BLOCKS * 4096"

section \<open>Structures\<close>

record kValue =
  kv_type :: "KETI_VALUE_TYPE option"
  kv_string :: string
  kv_int :: "int option"
  kv_int64 :: "int option"
  kv_float :: "fp option"
  kv_double :: "fp option"
  kv_bool :: "bool option"
  kv_real :: int

text \<open>\<^verbatim>\<open>kValue v;\<close> default-initialises the string and \<^verbatim>\<open>real_\<close> only.\<close>

definition kvalue_init :: kValue where
  "kvalue_init = \<lparr>kv_type = None, kv_string = [], kv_int = None, kv_int64 = None, kv_float = None,
                  kv_double = None, kv_bool = None, kv_real = 0\<rparr>"

record Operand =
  types :: "KETI_VALUE_TYPE list"
  "values" :: "string list"

record Projectioning =
  select_type :: KETI_SELECT_TYPE
  expression :: Operand

record Filtering =
  lv :: Operand
  oper :: KETI_OPER_TYPE
  rv :: Operand

record QueryInfo =
  table_name :: string
  filtering :: "Filtering list"
  projection :: "Projectioning list"
  seek_key :: "string list"

record SchemaInfo =
  column_name :: "string list"
  column_offset :: "int list"
  column_length :: "int list"
  column_type :: "MySQL_DataType list"
  column_index_map :: "(string \<times> int) list"
  pk_column :: "string list"
  index_column :: "string list"
  table_index_number :: int
  has_var_char :: bool

record Block =
  blk_offset :: "int list"
  blk_length :: "int list"

record BlockInfo =
  partition_name :: string
  sst_list :: "string list"
  block_list :: "Block list"

record WalInfo =
  deleted_key :: "string list"
  inserted_key :: "string list"
  inserted_value :: "string list"

record ResultInfo =
  table_alias :: string
  column_alias :: "string list"
  return_column_type :: "int list"
  return_column_length :: "int list"
  total_block_count :: int
  csd_block_count :: int

record Snippet =
  snippet_type :: SNIPPET_TYPE
  query_id :: int
  work_id :: int
  query_info :: QueryInfo
  schema_info :: SchemaInfo
  block_info :: BlockInfo
  wal_info :: WalInfo
  result_info :: ResultInfo

record Data =
  raw_data :: bytes
  row_offset :: "int list"
  data_length :: int
  row_count :: int
  current_block_count :: int
  scanned_row_count :: int
  filtered_row_count :: int

text \<open>The constructor \<^verbatim>\<open>Data()\<close> and \<^verbatim>\<open>Data::clear()\<close> leave the same abstract buffer.\<close>

definition Data_init :: Data where
  "Data_init = \<lparr>raw_data = [], row_offset = [], data_length = 0, row_count = 0,
                current_block_count = 0, scanned_row_count = 0, filtered_row_count = 0\<rparr>"

definition Data_clear :: "Data \<Rightarrow> Data" where
  "Data_clear d = d\<lparr>raw_data := [], row_offset := [], data_length := 0, row_count := 0,
                    current_block_count := 0, scanned_row_count := 0, filtered_row_count := 0\<rparr>"

record CsdResult =
  snippet :: Snippet
  data :: Data

definition CsdResult_init :: "Snippet \<Rightarrow> int \<Rightarrow> int \<Rightarrow> int \<Rightarrow> CsdResult" where
  "CsdResult_init s scanned filtered blocks =
     \<lparr>snippet = s,
      data = Data_init\<lparr>scanned_row_count := scanned, filtered_row_count := filtered,
                       current_block_count := blocks\<rparr>\<rparr>"

lemma Data_clear_init [simp]: "Data_clear d = Data_init"
  by (simp add: Data_clear_def Data_init_def)

section \<open>The rows of a result buffer\<close>

text \<open>
  Appending a row, as \<^verbatim>\<open>read_data_block\<close>, \<^verbatim>\<open>sst_file_full_scan\<close>, \<^verbatim>\<open>filtering\<close> and
  \<^verbatim>\<open>projectioning\<close> do it: the offset, the bytes at \<^verbatim>\<open>data_length\<close>, the new length and
  count. A row that does not fit into \<^verbatim>\<open>raw_data\<close> is written over the vector of offsets and
  the counters behind the array: nothing that follows has a meaning. The count is an \<^verbatim>\<open>int\<close>.
\<close>

definition append_row :: "bytes \<Rightarrow> Data \<Rightarrow> Data exec" where
  "append_row row d =
     (if BUFFER_SIZE < data_length d + int (length row) then Abort BufferOverrun
      else bind_exec (arith32 (row_count d + 1)) (\<lambda>count.
        ret (d\<lparr>row_offset := row_offset d @ [data_length d],
               raw_data := raw_data d @ row,
               data_length := data_length d + int (length row),
               row_count := count\<rparr>)))"

text \<open>The closing offset that every producer pushes before it hands the buffer on.\<close>

definition close_rows :: "Data \<Rightarrow> Data" where
  "close_rows d = d\<lparr>row_offset := row_offset d @ [data_length d]\<rparr>"

fun offsets_from :: "int \<Rightarrow> bytes list \<Rightarrow> int list" where
  "offsets_from k [] = []"
| "offsets_from k (r # rs) = k # offsets_from (k + int (length r)) rs"

text \<open>Rows that a buffer has room for and whose number an \<^verbatim>\<open>int\<close> can count.\<close>

definition rows_fit :: "bytes list \<Rightarrow> bool" where
  "rows_fit rs \<longleftrightarrow> int (length (concat rs)) \<le> BUFFER_SIZE \<and> length rs < 2 ^ 31"

text \<open>
  \<open>d\<close> holds exactly the rows \<open>rs\<close>: open while it is being filled, closed when it is handed on.
\<close>

definition holds_rows :: "Data \<Rightarrow> bytes list \<Rightarrow> bool" where
  "holds_rows d rs \<longleftrightarrow>
     raw_data d = concat rs \<and> data_length d = int (length (concat rs)) \<and>
     row_count d = wrap32 (int (length rs)) \<and> row_offset d = offsets_from 0 rs"

definition holds_closed :: "Data \<Rightarrow> bytes list \<Rightarrow> bool" where
  "holds_closed d rs \<longleftrightarrow>
     raw_data d = concat rs \<and> data_length d = int (length (concat rs)) \<and>
     row_count d = int (length rs) \<and>
     row_offset d = offsets_from 0 rs @ [int (length (concat rs))] \<and> rows_fit rs"

lemma rows_fit_Nil [simp]: "rows_fit []"
  by (simp add: rows_fit_def BUFFER_SIZE_def NUM_OF_BLOCKS_def)

lemma rows_fit_append: "rows_fit (rs @ ss) \<Longrightarrow> rows_fit rs"
  by (simp add: rows_fit_def)

lemma rows_fit_take: "rows_fit rs \<Longrightarrow> rows_fit (take n rs)"
  using rows_fit_append [of "take n rs" "drop n rs"] by simp

lemma rows_fit_filter:
  assumes "rows_fit rs"
  shows "rows_fit (filter P rs)"
proof -
  have "length (concat (filter P rs)) \<le> length (concat rs)" by (induction rs) simp_all
  then show ?thesis
    using assms length_filter_le [of P rs] unfolding rows_fit_def by linarith
qed

lemma rows_fit_count: "rows_fit rs \<Longrightarrow> wrap32 (int (length rs)) = int (length rs)"
  by (intro wrap32_id) (simp add: rows_fit_def int32_ok_def)

lemma length_offsets_from [simp]: "length (offsets_from k rs) = length rs"
  by (induction rs arbitrary: k) simp_all

lemma offsets_from_append:
  "offsets_from k (rs @ ss) = offsets_from k rs @ offsets_from (k + int (length (concat rs))) ss"
  by (induction rs arbitrary: k) (simp_all add: algebra_simps)

lemma offsets_from_nth:
  "i < length rs \<Longrightarrow> offsets_from k rs ! i = k + int (length (concat (take i rs)))"
proof (induction rs arbitrary: k i)
  case Nil
  then show ?case by simp
next
  case (Cons r rs)
  then show ?case by (cases i) simp_all
qed

lemma holds_rows_init [simp]: "holds_rows Data_init []"
  by (simp add: holds_rows_def Data_init_def)

lemma append_row_holds:
  assumes "holds_rows d rs" and "int (length (concat (rs @ [row]))) \<le> BUFFER_SIZE"
  shows "\<exists>d' l. append_row row d = Done d' l \<and> holds_rows d' (rs @ [row]) \<and>
    current_block_count d' = current_block_count d \<and>
    scanned_row_count d' = scanned_row_count d \<and>
    filtered_row_count d' = filtered_row_count d"
  using assms
  by (simp add: append_row_def holds_rows_def offsets_from_append arith32_def bind_Done add.commute)

lemma close_rows_holds: "holds_rows d rs \<Longrightarrow> rows_fit rs \<Longrightarrow> holds_closed (close_rows d) rs"
  by (simp add: holds_rows_def holds_closed_def close_rows_def rows_fit_count)

lemma closed_offset_nth:
  assumes "holds_closed d rs" and "i \<le> length rs"
  shows "row_offset d ! i = int (length (concat (take i rs)))"
proof (cases "i < length rs")
  case True
  with assms show ?thesis by (simp add: holds_closed_def nth_append offsets_from_nth)
next
  case False
  with assms have "i = length rs" by simp
  with assms show ?thesis by (simp add: holds_closed_def nth_append)
qed

lemma concat_take_Suc:
  "i < length rs \<Longrightarrow> concat (take (Suc i) rs) = concat (take i rs) @ rs ! i"
  by (simp add: take_Suc_conv_app_nth)

lemma concat_take_split:
  "i < length rs \<Longrightarrow> concat rs = concat (take i rs) @ rs ! i @ concat (drop (Suc i) rs)"
  by (metis append.assoc concat_append concat_take_Suc append_take_drop_id)

end
