(* ===== verification/Keti_Utils.thy ===== *)
theory Keti_Utils
  imports Keti_Types
begin

text \<open>
  The helpers of \<^verbatim>\<open>include/utils.h\<close>: splitting and trimming of strings, the key of the merge
  buffers, and the column offsets of a row whose variable-length columns are stored with their
  actual length. The last part relates the offsets to a row built column by column.
\<close>

section \<open>Strings\<close>

text \<open>\<^verbatim>\<open>split\<close>: the non-empty pieces between the delimiters.\<close>

definition keti_split :: "string \<Rightarrow> char \<Rightarrow> string list" where
  "keti_split input delimiter = filter (\<lambda>temp. temp \<noteq> []) (getlines delimiter input)"

definition make_map_key :: "int \<Rightarrow> int \<Rightarrow> string" where
  "make_map_key qid wid = to_string qid @ ''|'' @ to_string wid"

text \<open>
  The default argument is the C string \<^verbatim>\<open>" \t\n\r\f\v\0"\<close>: \<^verbatim>\<open>find_last_not_of(const char*)\<close>
  reads it up to its first zero byte, so the zero byte is not among the trimmed characters.
\<close>

definition trim_chars :: string where
  "trim_chars = map chr [32, 9, 10, 13, 12, 11]"

fun find_first_not_of :: "string \<Rightarrow> string \<Rightarrow> nat option" where
  "find_first_not_of [] t = None"
| "find_first_not_of (c # s) t =
     (if c \<in> set t then map_option Suc (find_first_not_of s t) else Some 0)"

fun find_last_not_of :: "string \<Rightarrow> string \<Rightarrow> nat option" where
  "find_last_not_of [] t = None"
| "find_last_not_of (c # s) t =
     (case find_last_not_of s t of
        Some i \<Rightarrow> Some (Suc i)
      | None \<Rightarrow> if c \<in> set t then None else Some 0)"

definition rtrim :: "string \<Rightarrow> string" where
  "rtrim s = (case find_last_not_of s trim_chars of None \<Rightarrow> [] | Some i \<Rightarrow> take (i + 1) s)"

definition ltrim :: "string \<Rightarrow> string" where
  "ltrim s = (case find_first_not_of s trim_chars of None \<Rightarrow> [] | Some i \<Rightarrow> drop i s)"

definition trim :: "string \<Rightarrow> string" where
  "trim s = ltrim (rtrim s)"

definition convert_to_lowercase :: "string \<Rightarrow> string" where
  "convert_to_lowercase target = map to_lower target"

lemma make_map_key_inject: "make_map_key q w = make_map_key q' w' \<longleftrightarrow> q = q' \<and> w = w'"
proof
  assume eq: "make_map_key q w = make_map_key q' w'"
  have tw: "takeWhile (\<lambda>c. c \<noteq> CHR ''|'') (make_map_key a b) = to_string a" for a b
  proof -
    have "\<And>c. c \<in> set (to_string a) \<Longrightarrow> c \<noteq> CHR ''|''" using bar_notin_to_string by blast
    then show ?thesis by (simp add: make_map_key_def takeWhile_append2)
  qed
  from eq tw have "to_string q = to_string q'" by metis
  with eq show "q = q' \<and> w = w'" by (simp add: make_map_key_def)
qed simp

lemma find_first_not_of_drop:
  "(case find_first_not_of s t of None \<Rightarrow> [] | Some i \<Rightarrow> drop i s) = dropWhile (\<lambda>c. c \<in> set t) s"
  by (induction s) (auto split: option.splits)

lemma ltrim_eq: "ltrim s = dropWhile (\<lambda>c. c \<in> set trim_chars) s"
  by (simp add: ltrim_def find_first_not_of_drop)

lemma find_last_not_of_take:
  "(case find_last_not_of s t of None \<Rightarrow> [] | Some i \<Rightarrow> take (i + 1) s) =
   rev (dropWhile (\<lambda>c. c \<in> set t) (rev s))"
proof (induction s)
  case Nil
  then show ?case by simp
next
  case (Cons c s)
  show ?case
  proof (cases "find_last_not_of s t")
    case None
    with Cons have "dropWhile (\<lambda>c. c \<in> set t) (rev s) = []" by simp
    then have "\<forall>x \<in> set (rev s). x \<in> set t" by (simp add: dropWhile_eq_Nil_conv)
    then have "dropWhile (\<lambda>c. c \<in> set t) (rev s @ [c]) = dropWhile (\<lambda>c. c \<in> set t) [c]"
      by (intro dropWhile_append2) blast
    with None show ?thesis by simp
  next
    case (Some i)
    then have "take (i + 1) s \<noteq> []" by (cases s) auto
    with Some Cons have "dropWhile (\<lambda>c. c \<in> set t) (rev s) \<noteq> []" by auto
    then obtain x where "x \<in> set (rev s)" "x \<notin> set t" by (auto simp: dropWhile_eq_Nil_conv)
    with Some Cons show ?thesis by (simp add: dropWhile_append1)
  qed
qed

lemma rtrim_eq: "rtrim s = rev (dropWhile (\<lambda>c. c \<in> set trim_chars) (rev s))"
  by (simp add: rtrim_def find_last_not_of_take)

text \<open>\<^verbatim>\<open>trim_\<close> removes padding on both sides and keeps what is between.\<close>

lemma trim_pad:
  assumes "set l \<subseteq> set trim_chars" and "set r \<subseteq> set trim_chars"
    and "s \<noteq> []" "hd s \<notin> set trim_chars" "last s \<notin> set trim_chars"
  shows "trim (l @ s @ r) = s"
proof -
  have "rtrim (l @ s @ r) = l @ s"
  proof -
    have "dropWhile (\<lambda>c. c \<in> set trim_chars) (rev r @ rev s @ rev l) =
          dropWhile (\<lambda>c. c \<in> set trim_chars) (rev s @ rev l)"
      using assms(2) by (intro dropWhile_append2) auto
    also have "\<dots> = rev s @ rev l"
      using assms(3,5) by (cases s rule: rev_cases) auto
    finally show ?thesis by (simp add: rtrim_eq)
  qed
  moreover have "ltrim (l @ s) = s"
  proof -
    have "dropWhile (\<lambda>c. c \<in> set trim_chars) (l @ s) = dropWhile (\<lambda>c. c \<in> set trim_chars) s"
      using assms(1) by (intro dropWhile_append2) auto
    with assms(3,4) show ?thesis by (cases s) (auto simp: ltrim_eq)
  qed
  ultimately show ?thesis by (simp add: trim_def)
qed


section \<open>Column offsets\<close>

text \<open>One turn of the loop of \<^verbatim>\<open>calcul_column_offset\<close>; the state is \<^verbatim>\<open>tune\<close> and the list.\<close>

definition column_offset_step ::
  "bytes \<Rightarrow> SchemaInfo \<Rightarrow> nat \<Rightarrow> int \<times> int list \<Rightarrow> (int \<times> int list) exec" where
  "column_offset_step row sch i st =
     (let (tune, l) = st in
      bind_exec (nth_exec (column_type sch) (int i)) (\<lambda>ty.
      bind_exec (nth_exec (column_length sch) (int i)) (\<lambda>len.
      bind_exec (nth_exec (column_offset sch) (int i)) (\<lambda>off.
      let new_offset = off + tune in
      if ty = MySQL_VARSTRING then
        if len < 256 then
          bind_exec (nth_exec row new_offset) (\<lambda>b.
          ret (tune + (uint b + 1 - len), l @ [new_offset]))
        else
          bind_exec (nth_exec row new_offset) (\<lambda>b0.
          bind_exec (nth_exec row (new_offset + 1)) (\<lambda>b1.
          ret (tune + (le_uint [b0, b1] + 2 - len), l @ [new_offset])))
      else ret (tune, l @ [new_offset])))))"

definition calcul_column_offset :: "bytes \<Rightarrow> SchemaInfo \<Rightarrow> int list exec" where
  "calcul_column_offset row sch =
     bind_exec (fold_exec (column_offset_step row sch) [0..<length (column_name sch)] (0, []))
       (\<lambda>(tune, l). ret l)"

text \<open>
  The storage format the offsets assume: a fixed-length column occupies its declared length, a
  \<^verbatim>\<open>VARSTRING\<close> its length prefix (one byte, or two little-endian bytes when the declared
  length is at least 256) and its content.
\<close>

definition cell_ok :: "MySQL_DataType \<Rightarrow> int \<Rightarrow> bytes \<Rightarrow> bool" where
  "cell_ok ty len cell \<longleftrightarrow>
     (if ty = MySQL_VARSTRING then
        if len < 256 then cell \<noteq> [] \<and> int (length cell) = uint (hd cell) + 1
        else 2 \<le> length cell \<and> int (length cell) = le_uint (take 2 cell) + 2
      else int (length cell) = len)"

fun decl_offsets :: "int \<Rightarrow> int list \<Rightarrow> int list" where
  "decl_offsets k [] = [k]"
| "decl_offsets k (len # lens) = k # decl_offsets (k + len) lens"

definition schema_wf :: "SchemaInfo \<Rightarrow> bool" where
  "schema_wf sch \<longleftrightarrow>
     length (column_type sch) = length (column_name sch) \<and>
     length (column_length sch) = length (column_name sch) \<and>
     column_offset sch = decl_offsets 0 (column_length sch)"

definition row_ok :: "SchemaInfo \<Rightarrow> bytes list \<Rightarrow> bool" where
  "row_ok sch cells \<longleftrightarrow>
     length cells = length (column_name sch) \<and>
     (\<forall>i < length cells. cell_ok (column_type sch ! i) (column_length sch ! i) (cells ! i))"

lemma length_decl_offsets [simp]: "length (decl_offsets k lens) = Suc (length lens)"
  by (induction lens arbitrary: k) simp_all

lemma decl_offsets_nth: "i \<le> length lens \<Longrightarrow> decl_offsets k lens ! i = k + sum_list (take i lens)"
proof (induction lens arbitrary: k i)
  case Nil
  then show ?case by simp
next
  case (Cons len lens)
  then show ?case by (cases i) simp_all
qed

lemma sum_list_take_Suc:
  "i < length xs \<Longrightarrow> sum_list (take (Suc i) xs) = sum_list (take i xs) + (xs ! i :: int)"
  by (simp add: take_Suc_conv_app_nth)

lemma concat_nth_in_cell:
  assumes "m < length cells" and "j < length (cells ! m)"
  shows "concat cells ! (length (concat (take m cells)) + j) = cells ! m ! j"
    and "length (concat (take m cells)) + j < length (concat cells)"
  using assms concat_take_split [OF assms(1)] by (simp_all add: nth_append)

lemma column_offset_step_cell:
  assumes wf: "schema_wf sch" and ok: "row_ok sch cells" and m: "m < length cells"
    and tune: "tune = int (length (concat (take m cells))) - sum_list (take m (column_length sch))"
  shows "column_offset_step (concat cells) sch m (tune, l) =
    ret (tune + int (length (cells ! m)) - column_length sch ! m,
         l @ [int (length (concat (take m cells)))])"
proof -
  let ?p = "length (concat (take m cells))"
  let ?ty = "column_type sch ! m" and ?len = "column_length sch ! m" and ?c = "cells ! m"
  have lens: "m < length (column_type sch)" "m < length (column_length sch)"
    and offs: "m < length (column_offset sch)"
    using wf ok m by (simp_all add: schema_wf_def row_ok_def)
  have off: "column_offset sch ! m + tune = int ?p"
    using wf lens tune by (simp add: schema_wf_def decl_offsets_nth)
  have cell: "cell_ok ?ty ?len ?c" using ok m by (simp add: row_ok_def)
  have rd: "nth_exec (concat cells) (int ?p + int j) = ret (?c ! j)" if "j < length ?c" for j
    using concat_nth_in_cell [OF m that]
    by (simp add: nth_exec_def nat_add_distrib flip: of_nat_add)
  consider (fixed) "?ty \<noteq> MySQL_VARSTRING"
    | (short) "?ty = MySQL_VARSTRING" "?len < 256"
    | (long) "?ty = MySQL_VARSTRING" "\<not> ?len < 256" by blast
  then show ?thesis
  proof cases
    case fixed
    with cell show ?thesis
      using lens offs off by (simp add: column_offset_step_def cell_ok_def)
  next
    case short
    then have c: "?c \<noteq> []" "int (length ?c) = uint (hd ?c) + 1"
      using cell by (simp_all add: cell_ok_def)
    then have "nth_exec (concat cells) (int ?p) = ret (hd ?c)"
      using rd [of 0] by (simp add: hd_conv_nth)
    with short c show ?thesis
      using lens offs off by (simp add: column_offset_step_def)
  next
    case long
    then have c: "2 \<le> length ?c" "int (length ?c) = le_uint (take 2 ?c) + 2"
      using cell by (simp_all add: cell_ok_def)
    then obtain b0 b1 r where cr: "?c = b0 # b1 # r"
      by (metis One_nat_def Suc_1 Suc_le_length_iff)
    have "nth_exec (concat cells) (int ?p) = ret b0" "nth_exec (concat cells) (int ?p + 1) = ret b1"
      using rd [of 0] rd [of 1] cr by simp_all
    with long c cr show ?thesis
      using lens offs off by (simp add: column_offset_step_def)
  qed
qed

lemma column_offset_fold:
  assumes "schema_wf sch" and "row_ok sch cells" and "m \<le> length cells"
  shows "fold_exec (column_offset_step (concat cells) sch) [0..<m] (0, []) =
    ret (int (length (concat (take m cells))) - sum_list (take m (column_length sch)),
         offsets_from 0 (take m cells))"
  using assms(3)
proof (induction m)
  case 0
  then show ?case by simp
next
  case (Suc m)
  then have m: "m < length cells" by simp
  with assms have ml: "m < length (column_length sch)"
    by (simp add: schema_wf_def row_ok_def)
  have "offsets_from 0 (take (Suc m) cells) =
    offsets_from 0 (take m cells) @ [int (length (concat (take m cells)))]"
    using m by (simp add: take_Suc_conv_app_nth offsets_from_append)
  with Suc m ml show ?case
    by (simp add: fold_exec_append column_offset_step_cell [OF assms(1,2) m]
        concat_take_Suc sum_list_take_Suc)
qed

text \<open>The offsets that the loop computes are the positions of the cells in the row.\<close>

lemma calcul_column_offset_cells:
  assumes "schema_wf sch" and "row_ok sch cells"
  shows "calcul_column_offset (concat cells) sch = ret (offsets_from 0 cells)"
proof -
  have "length cells = length (column_name sch)" using assms by (simp add: row_ok_def)
  then show ?thesis
    using column_offset_fold [OF assms order_refl] by (simp add: calcul_column_offset_def)
qed

text \<open>Without variable-length columns the offsets of the schema itself are the positions.\<close>

lemma decl_offsets_fixed:
  assumes "map (\<lambda>c. int (length c)) cells = lens"
  shows "decl_offsets k lens = offsets_from k cells @ [k + int (length (concat cells))]"
  using assms by (induction cells arbitrary: k lens) (auto simp: algebra_simps)

lemma fixed_columns_layout:
  assumes "schema_wf sch" and "row_ok sch cells"
    and "MySQL_VARSTRING \<notin> set (column_type sch)"
  shows "column_offset sch = offsets_from 0 cells @ [int (length (concat cells))]"
proof -
  have "map (\<lambda>c. int (length c)) cells = column_length sch"
  proof (rule nth_equalityI)
    show "length (map (\<lambda>c. int (length c)) cells) = length (column_length sch)"
      using assms(1,2) by (simp add: schema_wf_def row_ok_def)
    fix i
    assume i: "i < length (map (\<lambda>c. int (length c)) cells)"
    then have "column_type sch ! i \<noteq> MySQL_VARSTRING"
      using assms by (metis length_map nth_mem row_ok_def schema_wf_def)
    with assms(2) i show "map (\<lambda>c. int (length c)) cells ! i = column_length sch ! i"
      by (auto simp: row_ok_def cell_ok_def)
  qed
  then show ?thesis using assms(1) decl_offsets_fixed [of cells _ 0] by (simp add: schema_wf_def)
qed

end
