(* ===== verification/Raw_Data.thy ===== *)
theory Raw_Data
  imports Keti_Utils
begin

text \<open>
  The value layer, \<^verbatim>\<open>include/raw_data_handler.h\<close>: arithmetic on \<^verbatim>\<open>kValue\<close>, reading a column
  of a row, reading a literal, the postfix evaluator, the derived operations
  (\<^verbatim>\<open>SUBSTRING\<close>, \<^verbatim>\<open>CASE\<close>, \<^verbatim>\<open>EXTRACT\<close>) and the conversion of a value back to bytes.
  An error log leaves no trace in the model: the function goes on as the source does, with the
  fields it did not write undefined.
\<close>

section \<open>Arithmetic\<close>

text \<open>\<^verbatim>\<open>static_cast<int>(pow(100, real))\<close>; out of the range of \<^verbatim>\<open>int\<close> it saturates.\<close>

definition pow100 :: "int \<Rightarrow> int exec" where
  "pow100 k =
     (if k < 0 then ret 0
      else let z = 100 ^ nat k in
           if int32_ok z then ret z else Done (2 ^ 31 - 1) [SignedOverflow])"

definition calcul_plus_operation :: "kValue \<Rightarrow> kValue \<Rightarrow> kValue exec" where
  "calcul_plus_operation l r =
     bind_exec (get_exec (kv_type l)) (\<lambda>ty.
     case ty of
       V_INT32 \<Rightarrow>
         bind_exec (get_exec (kv_type r)) (\<lambda>rty.
         if rty = V_DECIMAL then
           bind_exec (pow100 (kv_real r)) (\<lambda>base.
           bind_exec (get_exec (kv_int l)) (\<lambda>a.
           bind_exec (get_exec (kv_int64 r)) (\<lambda>b.
           bind_exec (arith32 (a * base)) (\<lambda>m.
           bind_exec (arith64 (m + b)) (\<lambda>z.
           ret (kvalue_init\<lparr>kv_int64 := Some z, kv_real := kv_real r,
                            kv_type := Some V_DECIMAL\<rparr>))))))
         else
           bind_exec (get_exec (kv_int l)) (\<lambda>a.
           bind_exec (get_exec (kv_int r)) (\<lambda>b.
           bind_exec (arith32 (a + b)) (\<lambda>z.
           ret (kvalue_init\<lparr>kv_int := Some z, kv_type := Some ty\<rparr>)))))
     | V_FLOAT32 \<Rightarrow>
         bind_exec (get_exec (kv_float l)) (\<lambda>a.
         bind_exec (get_exec (kv_float r)) (\<lambda>b.
         ret (kvalue_init\<lparr>kv_float := Some (fadd binary32 a b), kv_type := Some ty\<rparr>)))
     | V_DOUBLE \<Rightarrow>
         bind_exec (get_exec (kv_double l)) (\<lambda>a.
         bind_exec (get_exec (kv_double r)) (\<lambda>b.
         ret (kvalue_init\<lparr>kv_double := Some (fadd binary64 a b), kv_type := Some ty\<rparr>)))
     | _ \<Rightarrow>
         if ty = V_INT64 \<or> ty = V_DECIMAL then
           bind_exec (get_exec (kv_int64 l)) (\<lambda>a.
           bind_exec (get_exec (kv_int64 r)) (\<lambda>b.
           bind_exec (arith64 (a + b)) (\<lambda>z.
           ret (kvalue_init\<lparr>kv_int64 := Some z, kv_type := Some ty\<rparr>))))
         else ret kvalue_init)"

definition calcul_minus_operation :: "kValue \<Rightarrow> kValue \<Rightarrow> kValue exec" where
  "calcul_minus_operation l r =
     bind_exec (get_exec (kv_type l)) (\<lambda>ty.
     case ty of
       V_INT32 \<Rightarrow>
         bind_exec (get_exec (kv_type r)) (\<lambda>rty.
         if rty = V_DECIMAL then
           bind_exec (pow100 (kv_real r)) (\<lambda>base.
           bind_exec (get_exec (kv_int l)) (\<lambda>a.
           bind_exec (get_exec (kv_int64 r)) (\<lambda>b.
           bind_exec (arith32 (a * base)) (\<lambda>m.
           bind_exec (arith64 (m - b)) (\<lambda>z.
           ret (kvalue_init\<lparr>kv_int64 := Some z, kv_real := kv_real r,
                            kv_type := Some V_DECIMAL\<rparr>))))))
         else
           bind_exec (get_exec (kv_int l)) (\<lambda>a.
           bind_exec (get_exec (kv_int r)) (\<lambda>b.
           bind_exec (arith32 (a - b)) (\<lambda>z.
           ret (kvalue_init\<lparr>kv_int := Some z, kv_type := Some ty\<rparr>)))))
     | V_FLOAT32 \<Rightarrow>
         bind_exec (get_exec (kv_float l)) (\<lambda>a.
         bind_exec (get_exec (kv_float r)) (\<lambda>b.
         ret (kvalue_init\<lparr>kv_float := Some (fsub binary32 a b), kv_type := Some ty\<rparr>)))
     | V_DOUBLE \<Rightarrow>
         bind_exec (get_exec (kv_double l)) (\<lambda>a.
         bind_exec (get_exec (kv_double r)) (\<lambda>b.
         ret (kvalue_init\<lparr>kv_double := Some (fsub binary64 a b), kv_type := Some ty\<rparr>)))
     | _ \<Rightarrow>
         if ty = V_INT64 \<or> ty = V_DECIMAL then
           bind_exec (get_exec (kv_int64 l)) (\<lambda>a.
           bind_exec (get_exec (kv_int64 r)) (\<lambda>b.
           bind_exec (arith64 (a - b)) (\<lambda>z.
           ret (kvalue_init\<lparr>kv_int64 := Some z, kv_type := Some ty\<rparr>))))
         else ret kvalue_init)"

definition calcul_multiple_operation :: "kValue \<Rightarrow> kValue \<Rightarrow> kValue exec" where
  "calcul_multiple_operation l r =
     bind_exec (get_exec (kv_type l)) (\<lambda>ty.
     bind_exec
       (case ty of
          V_INT32 \<Rightarrow>
            bind_exec (get_exec (kv_int l)) (\<lambda>a.
            bind_exec (get_exec (kv_int r)) (\<lambda>b.
            bind_exec (arith32 (a * b)) (\<lambda>z.
            ret (kvalue_init\<lparr>kv_int := Some z\<rparr>))))
        | V_INT64 \<Rightarrow>
            bind_exec (get_exec (kv_int64 l)) (\<lambda>a.
            bind_exec (get_exec (kv_int64 r)) (\<lambda>b.
            bind_exec (arith64 (a * b)) (\<lambda>z.
            ret (kvalue_init\<lparr>kv_int64 := Some z\<rparr>))))
        | V_DECIMAL \<Rightarrow>
            bind_exec (get_exec (kv_type r)) (\<lambda>rty.
            if rty = V_INT32 then
              bind_exec (get_exec (kv_int64 l)) (\<lambda>a.
              bind_exec (get_exec (kv_int r)) (\<lambda>b.
              bind_exec (arith64 (a * b)) (\<lambda>z.
              ret (kvalue_init\<lparr>kv_int64 := Some z, kv_real := kv_real l\<rparr>))))
            else
              bind_exec (get_exec (kv_int64 l)) (\<lambda>a.
              bind_exec (get_exec (kv_int64 r)) (\<lambda>b.
              bind_exec (arith64 (a * b)) (\<lambda>z.
              ret (kvalue_init\<lparr>kv_int64 := Some z, kv_real := kv_real l + kv_real r\<rparr>)))))
        | V_FLOAT32 \<Rightarrow>
            bind_exec (get_exec (kv_float l)) (\<lambda>a.
            bind_exec (get_exec (kv_float r)) (\<lambda>b.
            ret (kvalue_init\<lparr>kv_float := Some (fmul binary32 a b)\<rparr>)))
        | V_DOUBLE \<Rightarrow>
            bind_exec (get_exec (kv_double l)) (\<lambda>a.
            bind_exec (get_exec (kv_double r)) (\<lambda>b.
            ret (kvalue_init\<lparr>kv_double := Some (fmul binary64 a b)\<rparr>)))
        | _ \<Rightarrow> ret kvalue_init)
       (\<lambda>res. ret (res\<lparr>kv_type := Some ty\<rparr>)))"

text \<open>Integer division: a zero divisor has no meaning, the one overflow is flagged.\<close>

definition divide32 :: "int \<Rightarrow> int \<Rightarrow> int exec" where
  "divide32 a b = (if b = 0 then Abort DivideByZero else arith32 (tdiv a b))"

definition divide64 :: "int \<Rightarrow> int \<Rightarrow> int exec" where
  "divide64 a b = (if b = 0 then Abort DivideByZero else arith64 (tdiv a b))"

definition calcul_divide_operation :: "kValue \<Rightarrow> kValue \<Rightarrow> kValue exec" where
  "calcul_divide_operation l r =
     bind_exec (get_exec (kv_type l)) (\<lambda>ty.
     bind_exec
       (case ty of
          V_INT32 \<Rightarrow>
            bind_exec (get_exec (kv_int l)) (\<lambda>a.
            bind_exec (get_exec (kv_int r)) (\<lambda>b.
            bind_exec (divide32 a b) (\<lambda>z.
            ret (kvalue_init\<lparr>kv_int := Some z\<rparr>))))
        | V_FLOAT32 \<Rightarrow>
            bind_exec (get_exec (kv_float l)) (\<lambda>a.
            bind_exec (get_exec (kv_float r)) (\<lambda>b.
            ret (kvalue_init\<lparr>kv_float := Some (fdiv binary32 a b)\<rparr>)))
        | V_DOUBLE \<Rightarrow>
            bind_exec (get_exec (kv_double l)) (\<lambda>a.
            bind_exec (get_exec (kv_double r)) (\<lambda>b.
            ret (kvalue_init\<lparr>kv_double := Some (fdiv binary64 a b)\<rparr>)))
        | _ \<Rightarrow>
            if ty = V_INT64 \<or> ty = V_DECIMAL then
              bind_exec (get_exec (kv_int64 l)) (\<lambda>a.
              bind_exec (get_exec (kv_int64 r)) (\<lambda>b.
              bind_exec (divide64 a b) (\<lambda>z.
              ret (kvalue_init\<lparr>kv_int64 := Some z\<rparr>))))
            else ret kvalue_init)
       (\<lambda>res. ret (res\<lparr>kv_type := Some ty\<rparr>)))"

definition calcul_equal_operation :: "kValue \<Rightarrow> kValue \<Rightarrow> bool \<Rightarrow> kValue exec" where
  "calcul_equal_operation l r not_flag =
     bind_exec (get_exec (kv_type l)) (\<lambda>ty.
     bind_exec
       (case ty of
          V_INT32 \<Rightarrow>
            bind_exec (get_exec (kv_int l)) (\<lambda>a.
            bind_exec (get_exec (kv_int r)) (\<lambda>b. ret (Some (a = b))))
        | V_FLOAT32 \<Rightarrow>
            bind_exec (get_exec (kv_float l)) (\<lambda>a.
            bind_exec (get_exec (kv_float r)) (\<lambda>b. ret (Some (feq a b))))
        | V_DOUBLE \<Rightarrow>
            bind_exec (get_exec (kv_double l)) (\<lambda>a.
            bind_exec (get_exec (kv_double r)) (\<lambda>b. ret (Some (feq a b))))
        | V_STRING \<Rightarrow> ret (Some (kv_string l = kv_string r))
        | _ \<Rightarrow>
            if ty = V_INT64 \<or> ty = V_DECIMAL then
              bind_exec (get_exec (kv_int64 l)) (\<lambda>a.
              bind_exec (get_exec (kv_int64 r)) (\<lambda>b. ret (Some (a = b))))
            else ret None)
       (\<lambda>res.
        if not_flag then
          bind_exec (get_exec res) (\<lambda>b.
          ret (kvalue_init\<lparr>kv_type := Some V_BOOLEAN, kv_bool := Some (\<not> b)\<rparr>))
        else ret (kvalue_init\<lparr>kv_type := Some V_BOOLEAN, kv_bool := res\<rparr>)))"

definition calcul_not_equal_operation :: "kValue \<Rightarrow> kValue \<Rightarrow> kValue exec" where
  "calcul_not_equal_operation l r = calcul_equal_operation l r True"


section \<open>Columns and literals\<close>

text \<open>
  \<^verbatim>\<open>schema_info.column_index_map[name]\<close> on an \<^verbatim>\<open>unordered_map\<close>: an unknown name is inserted
  with the value 0, which every later lookup of it returns again.
\<close>

definition column_index :: "SchemaInfo \<Rightarrow> string \<Rightarrow> int" where
  "column_index sch name = (case map_of (column_index_map sch) name of None \<Rightarrow> 0 | Some i \<Rightarrow> i)"

definition int32_column :: "bytes \<Rightarrow> int \<Rightarrow> int \<Rightarrow> kValue exec" where
  "int32_column row start len =
     bind_exec (memcpy_local 4 row start len) (\<lambda>b.
     ret (kvalue_init\<lparr>kv_int := Some (le_int32 (b @ replicate (4 - length b) 0)),
                      kv_type := Some V_INT32\<rparr>))"

definition int64_column :: "bytes \<Rightarrow> int \<Rightarrow> int \<Rightarrow> kValue exec" where
  "int64_column row start len =
     bind_exec (memcpy_local 8 row start len) (\<lambda>b.
     ret (kvalue_init\<lparr>kv_int64 := Some (le_int64 (b @ replicate (8 - length b) 0)),
                      kv_type := Some V_INT64\<rparr>))"

text \<open>
  \<^verbatim>\<open>decimal(15,2)\<close> in seven bytes: six of the integer part, most significant first, and one of
  the fraction. The top bit is set for a non-negative number; a negative one has all bits flipped.
\<close>

definition decimal_of_bytes :: "bytes \<Rightarrow> int exec" where
  "decimal_of_bytes b =
     (if length b < 7 then Abort BadIndex
      else let is_negative = (\<not> bit (b ! 0) 7);
               b1 = (if is_negative then map not (take 7 b) else take 7 b);
               b2 = b1[0 := xor (b1 ! 0) 128];
               ivalue = le_uint (rev (take 6 b2));
               rvalue = sint (b2 ! 6);
               decimal_to_int = ivalue * 100 + rvalue
           in ret (if is_negative then decimal_to_int * (- 1) else decimal_to_int))"

definition decimal_column :: "bytes \<Rightarrow> int \<Rightarrow> int \<Rightarrow> kValue exec" where
  "decimal_column row start len =
     bind_exec (memcpy_local len row start len) (\<lambda>b.
     bind_exec (decimal_of_bytes b) (\<lambda>z.
     ret (kvalue_init\<lparr>kv_int64 := Some z, kv_real := 1, kv_type := Some V_DECIMAL\<rparr>)))"

text \<open>
  Character columns: the array has \<open>len - tune\<close> bytes, the copy has \<open>len\<close>; \<^verbatim>\<open>tune\<close> is the
  width of the length prefix that is skipped.
\<close>

definition string_column :: "int \<Rightarrow> bytes \<Rightarrow> int \<Rightarrow> int \<Rightarrow> kValue exec" where
  "string_column tune row start len =
     bind_exec (memcpy_local (len - tune) row (start + tune) len) (\<lambda>b.
     ret (kvalue_init\<lparr>kv_string := trim (text_of b), kv_type := Some V_STRING\<rparr>))"

definition get_column_value ::
  "bytes \<Rightarrow> SchemaInfo \<Rightarrow> Operand \<Rightarrow> int list \<Rightarrow> int \<Rightarrow> kValue exec" where
  "get_column_value row sch operand offs index =
     bind_exec (nth_exec (values operand) index) (\<lambda>name.
     let ci = column_index sch name in
     bind_exec (nth_exec (column_type sch) ci) (\<lambda>ty.
     bind_exec (nth_exec offs ci) (\<lambda>start.
     bind_exec (nth_exec offs (ci + 1)) (\<lambda>end_offset.
     let len = end_offset - start in
     case ty of
       MySQL_BYTE \<Rightarrow> int32_column row start len
     | MySQL_INT16 \<Rightarrow> int32_column row start len
     | MySQL_INT32 \<Rightarrow> int32_column row start len
     | MySQL_DATE \<Rightarrow> int32_column row start len
     | MySQL_INT64 \<Rightarrow> int64_column row start len
     | MySQL_NEWDECIMAL \<Rightarrow> decimal_column row start len
     | MySQL_STRING \<Rightarrow> string_column 0 row start len
     | MySQL_VARSTRING \<Rightarrow> string_column (if len < 255 then 1 else 2) row start len
     | _ \<Rightarrow> ret kvalue_init))))"

definition get_literal_value :: "Operand \<Rightarrow> int \<Rightarrow> kValue exec" where
  "get_literal_value operand index =
     bind_exec (nth_exec (types operand) index) (\<lambda>ty.
     bind_exec (nth_exec (values operand) index) (\<lambda>v.
     case ty of
       V_INT64 \<Rightarrow>
         bind_exec (stoll v) (\<lambda>z.
         ret (kvalue_init\<lparr>kv_int64 := Some z, kv_type := Some V_INT64\<rparr>))
     | V_FLOAT32 \<Rightarrow>
         bind_exec (stof v) (\<lambda>x.
         ret (kvalue_init\<lparr>kv_double := Some x, kv_type := Some V_FLOAT32\<rparr>))
     | V_DOUBLE \<Rightarrow>
         bind_exec (stod v) (\<lambda>x.
         ret (kvalue_init\<lparr>kv_double := Some x, kv_type := Some V_DOUBLE\<rparr>))
     | V_DECIMAL \<Rightarrow>
         bind_exec (stod v) (\<lambda>x.
         bind_exec (fp_to_sint 64 (fmul binary64 x (fp_of_int binary64 100))) (\<lambda>z.
         ret (kvalue_init\<lparr>kv_double := Some x, kv_int64 := Some z, kv_real := 1,
                          kv_type := Some V_DECIMAL\<rparr>)))
     | V_STRING \<Rightarrow> ret (kvalue_init\<lparr>kv_string := v, kv_type := Some V_STRING\<rparr>)
     | _ \<Rightarrow>
         if ty = V_INT8 \<or> ty = V_INT16 \<or> ty = V_INT32 \<or> ty = V_DATE then
           bind_exec (stoi v) (\<lambda>z.
           ret (kvalue_init\<lparr>kv_int := Some z, kv_type := Some V_INT32\<rparr>))
         else ret kvalue_init))"

section \<open>Postfix expressions\<close>

definition apply_operator :: "string \<Rightarrow> kValue \<Rightarrow> kValue \<Rightarrow> kValue exec" where
  "apply_operator value l r =
     (if value = ''+'' then calcul_plus_operation l r
      else if value = ''-'' then calcul_minus_operation l r
      else if value = ''*'' then calcul_multiple_operation l r
      else if value = ''/'' then calcul_divide_operation l r
      else if value = ''='' then calcul_equal_operation l r False
      else if value = ''<>'' then calcul_not_equal_operation l r
      else ret kvalue_init)"

text \<open>One turn of the loop of \<^verbatim>\<open>get_postfix_value\<close>; the head of the list is the top of the stack.\<close>

definition postfix_step ::
  "bytes \<Rightarrow> SchemaInfo \<Rightarrow> Operand \<Rightarrow> int list \<Rightarrow> nat \<Rightarrow> kValue list \<Rightarrow> kValue list exec" where
  "postfix_step row sch operand offs i stack =
     bind_exec (nth_exec (types operand) (int i)) (\<lambda>ty.
     bind_exec (nth_exec (values operand) (int i)) (\<lambda>value.
     if ty \<noteq> V_OPERATOR then
       bind_exec (if ty = V_COLUMN then get_column_value row sch operand offs (int i)
                  else get_literal_value operand (int i))
         (\<lambda>median. ret (median # stack))
     else
       (case stack of
          r # l # rest \<Rightarrow> bind_exec (apply_operator value l r) (\<lambda>median. ret (median # rest))
        | _ \<Rightarrow> Abort EmptyStack)))"

definition get_postfix_value :: "bytes \<Rightarrow> SchemaInfo \<Rightarrow> Operand \<Rightarrow> int list \<Rightarrow> kValue exec" where
  "get_postfix_value row sch operand offs =
     bind_exec (fold_exec (postfix_step row sch operand offs) [0..<length (types operand)] [])
       (\<lambda>stack. case stack of [] \<Rightarrow> Abort EmptyStack | median # _ \<Rightarrow> ret median)"

section \<open>Derived operations\<close>

definition calcul_substring_operation ::
  "bytes \<Rightarrow> SchemaInfo \<Rightarrow> Operand \<Rightarrow> int list \<Rightarrow> kValue exec" where
  "calcul_substring_operation row sch operand offs =
     bind_exec (nth_exec (values operand) 1) (\<lambda>name.
     bind_exec (nth_exec offs (column_index sch name)) (\<lambda>start.
     bind_exec (nth_exec (values operand) 2) (\<lambda>v2.
     bind_exec (stoi v2) (\<lambda>pos.
     bind_exec (arith32 (pos - 1)) (\<lambda>from.
     bind_exec (nth_exec (values operand) 3) (\<lambda>v3.
     bind_exec (stoi v3) (\<lambda>to.
     bind_exec (memcpy_local to row (start + from) to) (\<lambda>b.
     ret (kvalue_init\<lparr>kv_string := text_of b, kv_type := Some V_STRING\<rparr>)))))))))"

text \<open>
  \<^verbatim>\<open>calcul_case_operation\<close>. First pass: the positions of \<^verbatim>\<open>WHEN\<close>, \<^verbatim>\<open>THEN\<close> and \<^verbatim>\<open>ELSE\<close>;
  \<^verbatim>\<open>when\<close> and \<^verbatim>\<open>else_offset\<close> start uninitialised.
\<close>

definition case_scan_step ::
  "string list \<Rightarrow> nat \<Rightarrow> nat option \<times> (nat \<times> nat) list \<times> nat option
   \<Rightarrow> (nat option \<times> (nat \<times> nat) list \<times> nat option) exec" where
  "case_scan_step vs i st =
     (let (w, pairs, e) = st in
      if vs ! i = ''WHEN'' then ret (Some i, pairs, e)
      else if vs ! i = ''THEN'' then
        bind_exec (get_exec w) (\<lambda>wi. ret (w, pairs @ [(wi, i)], e))
      else if vs ! i = ''ELSE'' then ret (w, pairs, Some i)
      else ret st)"

definition operand_snoc :: "Operand \<Rightarrow> KETI_VALUE_TYPE \<Rightarrow> string \<Rightarrow> Operand" where
  "operand_snoc p ty v = p\<lparr>types := types p @ [ty], values := values p @ [v]\<rparr>"

definition operand_empty :: Operand where
  "operand_empty = \<lparr>types = [], values = []\<rparr>"

text \<open>The condition of one \<^verbatim>\<open>WHEN\<close> (positions \<open>when + 1\<close> to \<open>then\<close>): the sliced operand and
  \<^verbatim>\<open>passed\<close> as the loop leaves them.\<close>

fun case_condition ::
  "bytes \<Rightarrow> SchemaInfo \<Rightarrow> Operand \<Rightarrow> int list \<Rightarrow> nat list \<Rightarrow> Operand \<Rightarrow> bool \<Rightarrow> (Operand \<times> bool) exec"
where
  "case_condition row sch operand offs [] sliced passed = ret (sliced, passed)"
| "case_condition row sch operand offs (i # is) sliced passed =
     bind_exec (nth_exec (values operand) (int i)) (\<lambda>v.
     if v = ''AND'' then
       bind_exec (get_postfix_value row sch sliced offs) (\<lambda>k.
       bind_exec (get_exec (kv_bool k)) (\<lambda>b.
       if b then case_condition row sch operand offs is operand_empty passed
       else ret (sliced, False)))
     else if v = ''OR'' then
       bind_exec (get_postfix_value row sch sliced offs) (\<lambda>k.
       bind_exec (get_exec (kv_bool k)) (\<lambda>b.
       if b then ret (sliced, True)
       else case_condition row sch operand offs is operand_empty passed))
     else if v = ''THEN'' then
       bind_exec (get_postfix_value row sch sliced offs) (\<lambda>k.
       bind_exec (get_exec (kv_bool k)) (\<lambda>b.
       case_condition row sch operand offs is sliced b))
     else
       bind_exec (nth_exec (types operand) (int i)) (\<lambda>ty.
       case_condition row sch operand offs is (operand_snoc sliced ty v) passed))"

text \<open>The tokens of a result, up to one of the stop words.\<close>

fun case_collect ::
  "string list \<Rightarrow> KETI_VALUE_TYPE list \<Rightarrow> string list \<Rightarrow> Operand \<Rightarrow> Operand exec" where
  "case_collect stops tys [] sliced = Abort BadIndex"
| "case_collect stops tys (v # vs) sliced =
     (if v \<in> set stops then ret sliced
      else (case tys of [] \<Rightarrow> Abort BadIndex
            | ty # tys' \<Rightarrow> case_collect stops tys' vs (operand_snoc sliced ty v)))"

definition case_result ::
  "bytes \<Rightarrow> SchemaInfo \<Rightarrow> Operand \<Rightarrow> int list \<Rightarrow> string list \<Rightarrow> nat \<Rightarrow> kValue exec" where
  "case_result row sch operand offs stops i =
     bind_exec (case_collect stops (drop i (types operand)) (drop i (values operand)) operand_empty)
       (\<lambda>sliced. get_postfix_value row sch sliced offs)"

fun case_branches ::
  "bytes \<Rightarrow> SchemaInfo \<Rightarrow> Operand \<Rightarrow> int list \<Rightarrow> (nat \<times> nat) list \<Rightarrow> nat option \<Rightarrow> Operand \<Rightarrow> bool
   \<Rightarrow> kValue exec" where
  "case_branches row sch operand offs [] e sliced passed =
     bind_exec (get_exec e) (\<lambda>ei. case_result row sch operand offs [''END''] (ei + 1))"
| "case_branches row sch operand offs ((w, t) # ps) e sliced passed =
     bind_exec (case_condition row sch operand offs [w + 1..<t + 1] sliced passed)
       (\<lambda>(sliced', passed').
        if passed' then case_result row sch operand offs [''WHEN'', ''ELSE'', ''END''] (t + 1)
        else case_branches row sch operand offs ps e sliced' passed')"

definition calcul_case_operation ::
  "bytes \<Rightarrow> SchemaInfo \<Rightarrow> Operand \<Rightarrow> int list \<Rightarrow> kValue exec" where
  "calcul_case_operation row sch operand offs =
     bind_exec (fold_exec (case_scan_step (values operand)) [0..<length (values operand)]
                  (None, [], None))
       (\<lambda>(w, pairs, e). case_branches row sch operand offs pairs e operand_empty False)"

definition calcul_extract_operation ::
  "bytes \<Rightarrow> SchemaInfo \<Rightarrow> Operand \<Rightarrow> int list \<Rightarrow> kValue exec" where
  "calcul_extract_operation row sch operand offs =
     bind_exec (nth_exec (values operand) 1) (\<lambda>v1.
     let unit = convert_to_lowercase v1 in
     bind_exec (get_column_value row sch operand offs 2) (\<lambda>col.
     bind_exec (get_exec (kv_int col)) (\<lambda>date.
     let res = kvalue_init\<lparr>kv_type := Some V_INT32\<rparr> in
     ret (if unit = ''year'' then res\<lparr>kv_int := Some (tdiv date 512)\<rparr>
          else if unit = ''month'' then res\<lparr>kv_int := Some (tdiv (tmod date 512) 32)\<rparr>
          else if unit = ''day'' then res\<lparr>kv_int := Some (tmod (tmod date 512) 32)\<rparr>
          else res))))"

definition get_derived_value :: "bytes \<Rightarrow> SchemaInfo \<Rightarrow> Operand \<Rightarrow> int list \<Rightarrow> kValue exec" where
  "get_derived_value row sch operand offs =
     bind_exec (nth_exec (values operand) 0) (\<lambda>v0.
     let lower_operator = convert_to_lowercase v0 in
     if lower_operator = ''substring'' \<or> lower_operator = ''substr'' then
       calcul_substring_operation row sch operand offs
     else if lower_operator = ''case'' then calcul_case_operation row sch operand offs
     else if lower_operator = ''extract'' then calcul_extract_operation row sch operand offs
     else ret kvalue_init)"

definition calcul_operand_value ::
  "bytes \<Rightarrow> SchemaInfo \<Rightarrow> Operand \<Rightarrow> int list \<Rightarrow> int \<Rightarrow> kValue exec" where
  "calcul_operand_value row sch operand offs index =
     (if index = - 1 then
        if length (types operand) = 1 then
          if types operand ! 0 = V_COLUMN then get_column_value row sch operand offs 0
          else get_literal_value operand 0
        else
          bind_exec (nth_exec (types operand) 0) (\<lambda>ty.
          if ty = V_OPERATOR then get_derived_value row sch operand offs
          else get_postfix_value row sch operand offs)
      else
        bind_exec (nth_exec (types operand) index) (\<lambda>ty.
        if ty = V_COLUMN then get_column_value row sch operand offs index
        else get_literal_value operand index))"

section \<open>Values as bytes\<close>

text \<open>
  \<^verbatim>\<open>convert_value_to_char(dest, value, offset)\<close>: the destination afterwards and the number of
  bytes. For a negative \<^verbatim>\<open>DECIMAL\<close> the source flips \<^verbatim>\<open>dest[0..6]\<close>, the start of the row.
\<close>

definition flip_prefix :: "bytes \<Rightarrow> bytes exec" where
  "flip_prefix dest =
     Done (map not (take 7 dest) @ drop 7 dest)
          (if length dest < 7 then [Overrun (7 - length dest)] else [])"

definition decimal_to_char :: "bytes \<Rightarrow> int \<Rightarrow> int \<Rightarrow> int \<Rightarrow> (bytes \<times> int) exec" where
  "decimal_to_char dest v scale offset =
     bind_exec (if v < 0 then arith64 (v * (- 1)) else ret v) (\<lambda>a.
     bind_exec (pow100 scale) (\<lambda>base.
     bind_exec (divide64 a base) (\<lambda>integer.
     let realp = tmod a base;
         integer_char = le_bytes 8 integer;
         real_char = le_bytes 4 realp;
         rev6 = rev (take 6 integer_char);
         reversed_integer_char = rev6[0 := xor (rev6 ! 0) 128]
     in
     bind_exec (if v < 0 then flip_prefix dest else ret dest) (\<lambda>dest1.
     bind_exec (memcpy_into dest1 offset reversed_integer_char) (\<lambda>dest2.
     bind_exec (memcpy_local scale real_char 0 scale) (\<lambda>rb.
     bind_exec (memcpy_into dest2 (offset + 6) rb) (\<lambda>dest3.
     ret (dest3, 6 + scale))))))))"

definition string_to_char :: "bytes \<Rightarrow> string \<Rightarrow> int \<Rightarrow> (bytes \<times> int) exec" where
  "string_to_char dest src offset =
     (if chr 0 \<in> set src then Abort Uninitialised
      else bind_exec (flag [Overrun 1]) (\<lambda>_.
           bind_exec (memcpy_into dest offset (bytes_of src)) (\<lambda>dest1.
           ret (dest1, int (length src)))))"

definition convert_value_to_char :: "bytes \<Rightarrow> kValue \<Rightarrow> int \<Rightarrow> (bytes \<times> int) exec" where
  "convert_value_to_char dest value offset =
     bind_exec (get_exec (kv_type value)) (\<lambda>ty.
     case ty of
       V_INT32 \<Rightarrow>
         bind_exec (get_exec (kv_int value)) (\<lambda>src.
         bind_exec (memcpy_into dest offset (le_bytes 4 src)) (\<lambda>dest1. ret (dest1, 4)))
     | V_INT64 \<Rightarrow>
         bind_exec (get_exec (kv_int64 value)) (\<lambda>src.
         bind_exec (memcpy_into dest offset (le_bytes 8 src)) (\<lambda>dest1. ret (dest1, 8)))
     | V_DECIMAL \<Rightarrow>
         bind_exec (get_exec (kv_int64 value)) (\<lambda>v.
         decimal_to_char dest v (kv_real value) offset)
     | V_STRING \<Rightarrow> string_to_char dest (kv_string value) offset
     | _ \<Rightarrow> ret (dest, 0))"

definition projection_raw_data ::
  "bytes \<Rightarrow> SchemaInfo \<Rightarrow> Operand \<Rightarrow> int list \<Rightarrow> bytes \<Rightarrow> int \<Rightarrow> (bytes \<times> int) exec" where
  "projection_raw_data row sch operand offs dest current_row_length =
     (if length (types operand) = 1 then
        bind_exec (nth_exec (values operand) 0) (\<lambda>name.
        let ci = column_index sch name in
        bind_exec (nth_exec (column_type sch) ci) (\<lambda>_.
        bind_exec (nth_exec offs ci) (\<lambda>start.
        bind_exec (nth_exec offs (ci + 1)) (\<lambda>end_offset.
        let len = end_offset - start in
        bind_exec (memcpy_local len row start len) (\<lambda>b.
        bind_exec (memcpy_into dest current_row_length b) (\<lambda>dest1.
        ret (dest1, len)))))))
      else
        bind_exec (calcul_operand_value row sch operand offs (- 1)) (\<lambda>value.
        convert_value_to_char dest value current_row_length))"

end
