(* ===== verification/Column_Laws.thy ===== *)
theory Column_Laws
  imports Raw_Data
begin

text \<open>
  What reading a column delivers, for a row laid out as \<^verbatim>\<open>Keti_Utils\<close> describes it: the cells of the
  column types that \<^verbatim>\<open>get_column_value\<close> decodes, in the ranges in which it decodes them rightly, the
  conversion of values back to bytes, and the places where the two do not agree.
\<close>

section \<open>The cells of a row\<close>

definition layout :: "bytes list \<Rightarrow> int list \<Rightarrow> bool" where
  "layout cells offs \<longleftrightarrow> offs = offsets_from 0 cells @ [int (length (concat cells))]"

lemma layout_nth:
  assumes "layout cells offs" and "i \<le> length cells"
  shows "nth_exec offs (int i) = ret (int (length (concat (take i cells))))"
proof (cases "i < length cells")
  case True
  with assms show ?thesis by (simp add: layout_def nth_append offsets_from_nth)
next
  case False
  with assms have "i = length cells" by simp
  with assms show ?thesis by (simp add: layout_def nth_append)
qed

lemma layout_nth_Suc:
  assumes "layout cells offs" and "i < length cells"
  shows "nth_exec offs (int i + 1) =
    ret (int (length (concat (take i cells))) + int (length (cells ! i)))"
  using layout_nth [OF assms(1), of "Suc i"] assms(2)
  by (simp add: concat_take_Suc add.commute)

lemma memcpy_cell:
  assumes "i < length cells" and "int (length (cells ! i)) \<le> d"
  shows "memcpy_local d (concat cells) (int (length (concat (take i cells))))
    (int (length (cells ! i))) = ret (cells ! i)"
proof -
  let ?p = "length (concat (take i cells))"
  have split: "concat cells = concat (take i cells) @ cells ! i @ concat (drop (Suc i) cells)"
    using assms(1) by (rule concat_take_split)
  then have "int ?p + int (length (cells ! i)) \<le> int (length (concat cells))" by simp
  moreover have "take (length (cells ! i)) (drop ?p (concat cells)) = cells ! i"
    by (subst split) simp
  ultimately show ?thesis using assms(2) by (simp add: memcpy_local_exact)
qed

text \<open>The value of the column with the given name, independently of the operand it stands in.\<close>

definition column_named :: "bytes \<Rightarrow> SchemaInfo \<Rightarrow> int list \<Rightarrow> string \<Rightarrow> kValue exec" where
  "column_named row sch offs name =
     get_column_value row sch \<lparr>types = [V_COLUMN], values = [name]\<rparr> offs 0"

lemma get_column_value_named:
  "get_column_value row sch operand offs i =
     bind_exec (nth_exec (values operand) i) (column_named row sch offs)"
  by (simp add: get_column_value_def column_named_def cong: bind_exec_cong)

text \<open>The column \<open>name\<close> is the \<open>i\<close>-th cell of the row and has type \<open>ty\<close>.\<close>

definition is_column ::
  "SchemaInfo \<Rightarrow> bytes list \<Rightarrow> int list \<Rightarrow> string \<Rightarrow> nat \<Rightarrow> MySQL_DataType \<Rightarrow> bool" where
  "is_column sch cells offs name i ty \<longleftrightarrow>
     layout cells offs \<and> i < length cells \<and> i < length (column_type sch) \<and>
     column_type sch ! i = ty \<and> column_index sch name = int i"

named_theorems column_simps \<open>reading a cell\<close>

lemma is_column_reads:
  assumes "is_column sch cells offs name i ty"
  shows "nth_exec (column_type sch) (column_index sch name) = ret ty"
    and "nth_exec offs (column_index sch name) = ret (int (length (concat (take i cells))))"
    and "nth_exec offs (column_index sch name + 1) =
      ret (int (length (concat (take i cells))) + int (length (cells ! i)))"
  using assms layout_nth [of cells offs i] layout_nth_Suc [of cells offs i]
  by (simp_all add: is_column_def)

lemma int32_cell:
  assumes "is_column sch cells offs name i ty"
    and "ty = MySQL_BYTE \<or> ty = MySQL_INT16 \<or> ty = MySQL_INT32 \<or> ty = MySQL_DATE"
    and "length (cells ! i) \<le> 4"
  shows "column_named (concat cells) sch offs name =
    ret (kvalue_init\<lparr>kv_int := Some (le_int32 (cells ! i @ replicate (4 - length (cells ! i)) 0)),
                     kv_type := Some V_INT32\<rparr>)"
proof -
  have "i < length cells" using assms(1) by (simp add: is_column_def)
  then show ?thesis using assms(2,3) is_column_reads [OF assms(1)]
    by (auto simp: column_named_def get_column_value_def int32_column_def memcpy_cell)
qed

lemma int64_cell:
  assumes "is_column sch cells offs name i MySQL_INT64" and "length (cells ! i) \<le> 8"
  shows "column_named (concat cells) sch offs name =
    ret (kvalue_init\<lparr>kv_int64 := Some (le_int64 (cells ! i @ replicate (8 - length (cells ! i)) 0)),
                     kv_type := Some V_INT64\<rparr>)"
proof -
  have "i < length cells" using assms(1) by (simp add: is_column_def)
  then show ?thesis using assms(2) is_column_reads [OF assms(1)]
    by (simp add: column_named_def get_column_value_def int64_column_def memcpy_cell)
qed

lemma decimal_cell_read:
  assumes "is_column sch cells offs name i MySQL_NEWDECIMAL"
    and "decimal_of_bytes (cells ! i) = ret z"
  shows "column_named (concat cells) sch offs name =
    ret (kvalue_init\<lparr>kv_int64 := Some z, kv_real := 1, kv_type := Some V_DECIMAL\<rparr>)"
proof -
  have "i < length cells" using assms(1) by (simp add: is_column_def)
  then show ?thesis using assms(2) is_column_reads [OF assms(1)]
    by (simp add: column_named_def get_column_value_def decimal_column_def memcpy_cell)
qed

lemma string_cell:
  assumes "is_column sch cells offs name i MySQL_STRING"
  shows "column_named (concat cells) sch offs name =
    ret (kvalue_init\<lparr>kv_string := trim (text_of (cells ! i)), kv_type := Some V_STRING\<rparr>)"
proof -
  have "i < length cells" using assms(1) by (simp add: is_column_def)
  then show ?thesis using is_column_reads [OF assms(1)]
    by (simp add: column_named_def get_column_value_def string_column_def memcpy_cell)
qed


section \<open>Decimals\<close>

text \<open>The seven bytes that a \<^verbatim>\<open>decimal(15,2)\<close> of \<open>v\<close> hundredths occupies in this format.\<close>

definition decimal_abs :: "int \<Rightarrow> bytes" where
  "decimal_abs a =
     (let b = rev (le_bytes 6 (a div 100)) @ [word_of_int (a mod 100)]
      in b[0 := xor (b ! 0) 128])"

definition decimal_cell :: "int \<Rightarrow> bytes" where
  "decimal_cell v = (if v < 0 then map not (decimal_abs \<bar>v\<bar>) else decimal_abs v)"

lemma rev_le_bytes6:
  "rev (le_bytes 6 z) =
     word_of_int (z div 256 ^ 5) # rev (le_bytes 5 z)"
  by (simp add: numeral_eq_Suc zdiv_zmult2_eq [symmetric])

lemma decimal_abs_eq:
  "decimal_abs a = xor (word_of_int (a div 100 div 256 ^ 5)) 128
     # rev (le_bytes 5 (a div 100)) @ [word_of_int (a mod 100)]"
  by (simp only: decimal_abs_def Let_def rev_le_bytes6) simp

lemma length_decimal_abs [simp]: "length (decimal_abs a) = 7"
  by (simp add: decimal_abs_eq)

lemma length_decimal_cell [simp]: "length (decimal_cell v) = 7"
  by (simp add: decimal_cell_def decimal_abs_eq)

lemma top_byte_small:
  assumes "0 \<le> a" and "a < 100 * 2 ^ 47"
  shows "\<not> bit (word_of_int (a div 100 div 256 ^ 5) :: byte) 7"
proof -
  have "0 \<le> a div 100 div 256 ^ 5" "a div 100 div 256 ^ 5 < 128" using assms by simp_all
  then have "uint (word_of_int (a div 100 div 256 ^ 5) :: byte) < 128"
    by (simp add: uint_word_of_int_byte)
  moreover have "bit (x :: byte) 7 \<Longrightarrow> 128 \<le> uint x" for x
  proof -
    assume "bit x 7"
    then have "bit (uint x) 7" by (simp add: bit_uint_iff)
    then have "odd (uint x div 2 ^ 7)" by (simp add: bit_iff_odd)
    then have "uint x div 2 ^ 7 \<noteq> 0" by (metis even_zero)
    then have "\<not> uint x < 2 ^ 7" using uint_byte_bounds(1) [of x] by (metis div_pos_pos_trivial)
    then show "128 \<le> uint x" by simp
  qed
  ultimately show ?thesis by (metis linorder_not_less)
qed

lemma decimal_of_bytes_abs:
  assumes "0 \<le> a" and "a < 100 * 2 ^ 47" and "b = decimal_abs a \<or> b = map not (decimal_abs a)"
  shows "decimal_of_bytes b = ret (if b = decimal_abs a then a else - a)"
proof -
  let ?h = "word_of_int (a div 100 div 256 ^ 5) :: byte"
  let ?m = "rev (le_bytes 5 (a div 100))"
  let ?f = "word_of_int (a mod 100) :: byte"
  have h: "\<not> bit ?h 7" using assms(1,2) by (rule top_byte_small)
  have frac: "sint ?f = a mod 100"
  proof -
    have "0 \<le> a mod 100" "a mod 100 < 100" by simp_all
    then show ?thesis by (simp add: sint_sbintrunc' signed_take_bit_int_eq_self)
  qed
  have int: "le_uint (rev (?h # ?m)) = a div 100"
  proof -
    have "rev (?h # ?m) = le_bytes 6 (a div 100)"
      using rev_le_bytes6 [of "a div 100"] by (metis rev_rev_ident)
    moreover have "a div 100 < 256 ^ 6" "0 \<le> a div 100" using assms(1,2) by simp_all
    ultimately show ?thesis by (simp add: le_uint_le_bytes)
  qed
  have m: "length ?m = 5" by simp
  have sum: "(a div 100) * 100 + a mod 100 = a" by simp
  have b7: "bit (xor ?h 128) 7" "\<not> bit (not (xor ?h 128)) 7"
    using h by (simp_all add: bit_xor_iff bit_not_iff)
  have undo: "xor (xor ?h 128) 128 = ?h" by (simp add: xor.assoc)
  have pos: "decimal_of_bytes (xor ?h 128 # ?m @ [?f]) = ret a"
    using b7 m int frac sum undo
    by (simp add: decimal_of_bytes_def Let_def nth_append del: rev.simps)
  have neg: "decimal_of_bytes (map not (xor ?h 128 # ?m @ [?f])) = ret (- a)"
  proof -
    have fl: "map not (map not (xor ?h 128 # ?m @ [?f])) = xor ?h 128 # ?m @ [?f]"
      by (simp add: comp_def)
    show ?thesis using b7 m int frac sum undo
      by (simp add: decimal_of_bytes_def Let_def nth_append comp_def del: rev.simps)
  qed
  have ne: "map not (decimal_abs a) \<noteq> decimal_abs a"
    using b7 by (auto simp: decimal_abs_eq)
  show ?thesis using assms(3) pos neg ne by (auto simp: decimal_abs_eq)
qed

lemma decimal_of_bytes_cell:
  assumes "\<bar>v\<bar> < 100 * 2 ^ 47"
  shows "decimal_of_bytes (decimal_cell v) = ret v"
proof (cases "v < 0")
  case True
  have ne: "map not (decimal_abs \<bar>v\<bar>) \<noteq> decimal_abs \<bar>v\<bar>"
    by (auto simp: decimal_abs_eq dest: arg_cong [of _ _ "\<lambda>x. bit x 0"] simp: bit_not_iff)
  have "decimal_of_bytes (map not (decimal_abs \<bar>v\<bar>)) = ret (- \<bar>v\<bar>)"
    using decimal_of_bytes_abs [of "\<bar>v\<bar>" "map not (decimal_abs \<bar>v\<bar>)"] assms ne by simp
  with True show ?thesis by (simp add: decimal_cell_def)
next
  case False
  then show ?thesis
    using decimal_of_bytes_abs [of v "decimal_abs v"] assms by (simp add: decimal_cell_def)
qed

section \<open>Reading what a cell holds\<close>

text \<open>
  A variable-length cell \<open>p @ c\<close>: the prefix \<open>p\<close> is skipped when its width is the one that the
  length of the whole cell selects. The copy is as long as the whole cell, so it always runs
  over the end of the array.
\<close>

lemma varstring_cell:
  assumes col: "is_column sch cells offs name i MySQL_VARSTRING"
    and cell: "cells ! i = p @ c" and p: "length p = (if length (p @ c) < 255 then 1 else 2)"
  shows "value_of (column_named (concat cells) sch offs name) =
      Some (kvalue_init\<lparr>kv_string := trim (text_of c), kv_type := Some V_STRING\<rparr>)"
    and "Overrun (length p) \<in> set (faults_of (column_named (concat cells) sch offs name))"
proof -
  let ?k = "length (concat (take i cells))"
  have i: "i < length cells" using col by (simp add: is_column_def)
  have split: "concat cells = concat (take i cells) @ (p @ c) @ concat (drop (Suc i) cells)"
    using concat_take_split [OF i] cell by simp
  have tk: "take (length c) (drop (?k + length p) (concat cells)) = c"
    by (subst split) simp
  have fit: "?k + length p + length c \<le> length (concat cells)" by (subst split) simp
  have len: "int (length (cells ! i)) = int (length p) + int (length c)" by (simp add: cell)
  have tune: "(if int (length p) + int (length c) < 255 then 1 else 2) = int (length p)"
    using p by auto
  have pos: "0 < length p" using p by (auto split: if_splits)
  define fs where "fs = [Overrun (length p)]
    @ (if int (length (concat cells)) < int ?k + int (length p) + (int (length p) + int (length c))
       then [Overread (nat (int ?k + int (length p) + (int (length p) + int (length c))
                            - int (length (concat cells))))] else [])"
  have cp: "memcpy_local (int (length c)) (concat cells) (int ?k + int (length p))
      (int (length p) + int (length c)) = Done c fs"
    using tk fit pos by (auto simp: memcpy_local_def fs_def nat_add_distrib)
  have "column_named (concat cells) sch offs name =
      string_column (int (length p)) (concat cells) (int ?k) (int (length p) + int (length c))"
    using is_column_reads [OF col] len tune
    by (simp add: column_named_def get_column_value_def)
  also have "\<dots> = Done (kvalue_init\<lparr>kv_string := trim (text_of c), kv_type := Some V_STRING\<rparr>) fs"
    using cp by (simp add: string_column_def bind_Done)
  finally have eq: "column_named (concat cells) sch offs name =
      Done (kvalue_init\<lparr>kv_string := trim (text_of c), kv_type := Some V_STRING\<rparr>) fs" .
  show "value_of (column_named (concat cells) sch offs name) =
      Some (kvalue_init\<lparr>kv_string := trim (text_of c), kv_type := Some V_STRING\<rparr>)"
    using eq by simp
  show "Overrun (length p) \<in> set (faults_of (column_named (concat cells) sch offs name))"
    using eq by (simp add: fs_def)
qed

text \<open>The values of a column and the bytes that store them.\<close>

datatype cell_value =
    ByteCell int             \<comment> \<open>\<^verbatim>\<open>TINYINT\<close>, one byte\<close>
  | ShortCell int            \<comment> \<open>\<^verbatim>\<open>SMALLINT\<close>, two bytes\<close>
  | IntCell int              \<comment> \<open>\<^verbatim>\<open>INT\<close>, four bytes\<close>
  | LongCell int             \<comment> \<open>\<^verbatim>\<open>BIGINT\<close>, eight bytes\<close>
  | DateCell int int int     \<comment> \<open>\<^verbatim>\<open>DATE\<close>, year, month and day in three bytes\<close>
  | DecimalCell int          \<comment> \<open>\<^verbatim>\<open>DECIMAL(15,2)\<close>, in hundredths\<close>
  | CharCell string nat      \<comment> \<open>\<^verbatim>\<open>CHAR\<close>, padded with that many blanks\<close>
  | VarcharCell string       \<comment> \<open>\<^verbatim>\<open>VARCHAR\<close> with a one-byte length\<close>
  | LongVarcharCell string   \<comment> \<open>\<^verbatim>\<open>VARCHAR\<close> with a two-byte length\<close>

fun cell_type :: "cell_value \<Rightarrow> MySQL_DataType" where
  "cell_type (ByteCell z) = MySQL_BYTE"
| "cell_type (ShortCell z) = MySQL_INT16"
| "cell_type (IntCell z) = MySQL_INT32"
| "cell_type (LongCell z) = MySQL_INT64"
| "cell_type (DateCell y m d) = MySQL_DATE"
| "cell_type (DecimalCell z) = MySQL_NEWDECIMAL"
| "cell_type (CharCell s n) = MySQL_STRING"
| "cell_type (VarcharCell s) = MySQL_VARSTRING"
| "cell_type (LongVarcharCell s) = MySQL_VARSTRING"

fun cell_bytes :: "cell_value \<Rightarrow> bytes" where
  "cell_bytes (ByteCell z) = le_bytes 1 z"
| "cell_bytes (ShortCell z) = le_bytes 2 z"
| "cell_bytes (IntCell z) = le_bytes 4 z"
| "cell_bytes (LongCell z) = le_bytes 8 z"
| "cell_bytes (DateCell y m d) = le_bytes 3 (y * 512 + m * 32 + d)"
| "cell_bytes (DecimalCell z) = decimal_cell z"
| "cell_bytes (CharCell s n) = bytes_of (s @ replicate n (CHR '' ''))"
| "cell_bytes (VarcharCell s) = word_of_int (int (length s)) # bytes_of s"
| "cell_bytes (LongVarcharCell s) = le_bytes 2 (int (length s)) @ bytes_of s"

definition untrimmed :: "string \<Rightarrow> bool" where
  "untrimmed s \<longleftrightarrow> s = [] \<or> hd s \<notin> set trim_chars \<and> last s \<notin> set trim_chars"

text \<open>
  The values that are read back. One and two bytes are extended with zeros, so only non-negative
  numbers are; a two-byte length is skipped only in a cell of at least 255 bytes.
\<close>

fun cell_range :: "cell_value \<Rightarrow> bool" where
  "cell_range (ByteCell z) = (0 \<le> z \<and> z < 2 ^ 7)"
| "cell_range (ShortCell z) = (0 \<le> z \<and> z < 2 ^ 15)"
| "cell_range (IntCell z) = int32_ok z"
| "cell_range (LongCell z) = int64_ok z"
| "cell_range (DateCell y m d) = (0 \<le> y \<and> y < 32768 \<and> 0 \<le> m \<and> m < 16 \<and> 0 \<le> d \<and> d < 32)"
| "cell_range (DecimalCell z) = (\<bar>z\<bar> < 100 * 2 ^ 47)"
| "cell_range (CharCell s n) = untrimmed s"
| "cell_range (VarcharCell s) = (untrimmed s \<and> length s \<le> 253)"
| "cell_range (LongVarcharCell s) = (untrimmed s \<and> 253 \<le> length s \<and> length s < 2 ^ 16)"

fun cell_meaning :: "cell_value \<Rightarrow> kValue" where
  "cell_meaning (ByteCell z) = kvalue_init\<lparr>kv_int := Some z, kv_type := Some V_INT32\<rparr>"
| "cell_meaning (ShortCell z) = kvalue_init\<lparr>kv_int := Some z, kv_type := Some V_INT32\<rparr>"
| "cell_meaning (IntCell z) = kvalue_init\<lparr>kv_int := Some z, kv_type := Some V_INT32\<rparr>"
| "cell_meaning (LongCell z) = kvalue_init\<lparr>kv_int64 := Some z, kv_type := Some V_INT64\<rparr>"
| "cell_meaning (DateCell y m d) =
     kvalue_init\<lparr>kv_int := Some (y * 512 + m * 32 + d), kv_type := Some V_INT32\<rparr>"
| "cell_meaning (DecimalCell z) =
     kvalue_init\<lparr>kv_int64 := Some z, kv_real := 1, kv_type := Some V_DECIMAL\<rparr>"
| "cell_meaning (CharCell s n) = kvalue_init\<lparr>kv_string := s, kv_type := Some V_STRING\<rparr>"
| "cell_meaning (VarcharCell s) = kvalue_init\<lparr>kv_string := s, kv_type := Some V_STRING\<rparr>"
| "cell_meaning (LongVarcharCell s) = kvalue_init\<lparr>kv_string := s, kv_type := Some V_STRING\<rparr>"

lemma blank_trimmed: "CHR '' '' \<in> set trim_chars"
  by code_simp

lemma trim_blanks: "untrimmed s \<Longrightarrow> trim (s @ replicate n (CHR '' '')) = s"
proof (cases "s = []")
  case True
  then show ?thesis
    by (simp add: trim_def rtrim_eq ltrim_eq blank_trimmed dropWhile_replicate)
next
  case False
  assume "untrimmed s"
  with False show ?thesis
    using trim_pad [of "[]" "replicate n (CHR '' '')" s] blank_trimmed
    by (auto simp: untrimmed_def set_replicate_conv_if split: if_splits)
qed

lemma trim_untrimmed: "untrimmed s \<Longrightarrow> trim s = s"
  using trim_blanks [of s 0] by simp

lemma le_int32_date: "0 \<le> z \<Longrightarrow> z < 2 ^ 24 \<Longrightarrow> le_int32 (le_bytes 3 z @ [0]) = z"
  using mod_pos_pos_trivial [of z "256 ^ 3"]
  by (simp add: le_int32_def le_uint_append le_uint_le_bytes int32_ok_def)

lemma le_int32_extended:
  assumes "n < 4"
  shows "le_int32 (le_bytes n z @ replicate (4 - n) 0) = z mod 256 ^ n"
proof -
  have "n = 0 \<or> n = 1 \<or> n = 2 \<or> n = 3" using assms by linarith
  then have "(256 :: int) ^ n \<le> 2 ^ 24" by auto
  moreover have "z mod 256 ^ n < 256 ^ n" by simp
  ultimately have "z mod 256 ^ n < 2 ^ 24" by (rule less_le_trans [rotated])
  moreover have "0 \<le> z mod 256 ^ n" by simp
  then have "- (2 ^ 31) \<le> z mod 256 ^ n" by (rule order_trans [rotated]) simp
  ultimately have "int32_ok (z mod 256 ^ n)" by (simp add: int32_ok_def)
  then show ?thesis by (simp add: le_int32_def le_uint_append le_uint_le_bytes)
qed

text \<open>A number in one or two bytes is read as unsigned.\<close>

lemma small_int_cell:
  assumes "is_column sch cells offs name i ty" and "cells ! i = le_bytes n z"
    and "ty = MySQL_BYTE \<or> ty = MySQL_INT16" and "n < 4"
  shows "column_named (concat cells) sch offs name =
    ret (kvalue_init\<lparr>kv_int := Some (z mod 256 ^ n), kv_type := Some V_INT32\<rparr>)"
  using assms int32_cell [OF assms(1)] by (auto simp: le_int32_extended)

lemma column_reads_cell:
  assumes "is_column sch cells offs name i (cell_type v)" and "cells ! i = cell_bytes v"
    and "cell_range v"
  shows "value_of (column_named (concat cells) sch offs name) = Some (cell_meaning v)"
proof (cases v)
  case (ByteCell z)
  with assms show ?thesis using small_int_cell [of sch cells offs name i MySQL_BYTE 1 z] by simp
next
  case (ShortCell z)
  with assms show ?thesis using small_int_cell [of sch cells offs name i MySQL_INT16 2 z] by simp
next
  case (IntCell z)
  with assms show ?thesis using int32_cell [of sch cells offs name i MySQL_INT32] by simp
next
  case (LongCell z)
  with assms show ?thesis using int64_cell [of sch cells offs name i] by simp
next
  case (DateCell y m d)
  have "0 \<le> y * 512 + m * 32 + d" "y * 512 + m * 32 + d < 2 ^ 24"
    using assms(3) DateCell by simp_all
  from le_int32_date [OF this] assms DateCell show ?thesis
    using int32_cell [of sch cells offs name i MySQL_DATE] by simp
next
  case (DecimalCell z)
  with assms show ?thesis
    using decimal_cell_read [of sch cells offs name i z] decimal_of_bytes_cell [of z] by simp
next
  case (CharCell s n)
  with assms show ?thesis using string_cell [of sch cells offs name i] by (simp add: trim_blanks)
next
  case (VarcharCell s)
  with assms show ?thesis
    using varstring_cell(1) [of sch cells offs name i "[word_of_int (int (length s))]" "bytes_of s"]
    by (simp add: trim_untrimmed)
next
  case (LongVarcharCell s)
  with assms show ?thesis
    using varstring_cell(1) [of sch cells offs name i "le_bytes 2 (int (length s))" "bytes_of s"]
    by (simp add: trim_untrimmed)
qed

text \<open>
  C10: reading a column of a row delivers the value the cell stores: \<^verbatim>\<open>INT\<close> and \<^verbatim>\<open>BIGINT\<close>, dates and
  decimals of both signs, non-negative \<^verbatim>\<open>TINYINT\<close> and \<^verbatim>\<open>SMALLINT\<close>, blank-padded strings, and
  variable-length strings with a length byte up to 253 characters or with two of them from 253 on, where
  no blank is trimmed. The copy of a variable-length string writes past its array; this is the value
  when the bytes behind it are not in use. Negative small integers and short strings with two
  length bytes are read wrongly.
\<close>

theorem column_roundtrip:
  assumes "is_column sch cells offs (values operand ! k) i (cell_type v)"
    and "cells ! i = cell_bytes v" and "cell_range v" and "k < length (values operand)"
  shows "value_of (get_column_value (concat cells) sch operand offs (int k)) = Some (cell_meaning v)"
  using column_reads_cell [OF assms(1-3)] assms(4) by (simp add: get_column_value_named)

definition demo_schema :: SchemaInfo where
  "demo_schema = \<lparr>column_name = [''id'', ''price'', ''note''], column_offset = [0, 4, 11, 26],
     column_length = [4, 7, 15], column_type = [MySQL_INT32, MySQL_NEWDECIMAL, MySQL_VARSTRING],
     column_index_map = [(''id'', 0), (''price'', 1), (''note'', 2)], pk_column = [''id''],
     index_column = [], table_index_number = 260, has_var_char = True\<rparr>"

definition demo_cells :: "bytes list" where
  "demo_cells = map cell_bytes [IntCell 7, DecimalCell (- 12345), VarcharCell ''ok'']"

definition column_operand :: "string \<Rightarrow> Operand" where
  "column_operand name = \<lparr>types = [V_COLUMN], values = [name]\<rparr>"

theorem column_roundtrip_witness:
  "value_of (get_column_value (concat demo_cells) demo_schema (column_operand ''price'')
      [0, 4, 11, 14] 0) = Some (cell_meaning (DecimalCell (- 12345)))"
  using column_roundtrip [of demo_schema demo_cells "[0, 4, 11, 14]" "column_operand ''price''" 0 1
      "DecimalCell (- 12345)"]
  by (simp add: is_column_def layout_def demo_cells_def demo_schema_def column_operand_def
      column_index_def bytes_of_def)

section \<open>Writing a value back\<close>

lemma store_bytes_twice:
  "off + length x + length y \<le> length d \<Longrightarrow>
   store_bytes (store_bytes d off x) (off + length x) y = store_bytes d off (x @ y)"
  by (simp add: store_bytes_def add.assoc add.commute [of _ "length y"] add.left_commute)

lemma take_le_bytes: "m \<le> n \<Longrightarrow> take m (le_bytes n z) = le_bytes m z"
proof (induction n arbitrary: m z)
  case 0
  then show ?case by simp
next
  case (Suc n)
  then show ?case by (cases m) simp_all
qed

lemma pow100_1 [simp]: "pow100 1 = ret 100"
  by (simp add: pow100_def int32_ok_def)

lemma decimal_to_char_bytes:
  assumes v: "\<bar>v\<bar> < 100 * 2 ^ 47" and off: "0 \<le> off" "off + 7 \<le> int (length dest)"
  shows "decimal_to_char dest v 1 off =
    ret (store_bytes (if v < 0 then map not (take 7 dest) @ drop 7 dest else dest) (nat off)
           (decimal_abs \<bar>v\<bar>), 7)"
proof -
  let ?a = "\<bar>v\<bar>"
  let ?x = "xor (word_of_int (?a div 100 div 256 ^ 5)) 128 # rev (le_bytes 5 (?a div 100))"
  define dest1 where "dest1 = (if v < 0 then map not (take 7 dest) @ drop 7 dest else dest)"
  have long: "7 \<le> length dest" using off by linarith
  then have len1: "length dest1 = length dest" by (simp add: dest1_def)
  have abs: "(if v < 0 then arith64 (v * (- 1)) else ret v) = ret ?a"
    using v by (simp add: int64_ok_def)
  have dv: "divide64 ?a 100 = ret (?a div 100)" "tmod ?a 100 = ?a mod 100"
  proof -
    have "0 \<le> ?a div 100" "?a div 100 < 2 ^ 63" using v by simp_all
    then have "int64_ok (?a div 100)" by (simp add: int64_ok_def)
    then show "divide64 ?a 100 = ret (?a div 100)" by (simp add: divide64_def tdiv_nonneg)
  qed (simp add: tmod_nonneg)
  have x: "(rev (take 6 (le_bytes 8 (?a div 100))))
      [0 := xor (rev (take 6 (le_bytes 8 (?a div 100))) ! 0) 128] = ?x"
    by (simp add: take_le_bytes rev_le_bytes6)
  have fl: "(if v < 0 then flip_prefix dest else ret dest) = ret dest1"
    using long by (simp add: flip_prefix_def dest1_def)
  have m1: "memcpy_into dest1 off ?x = ret (store_bytes dest1 (nat off) ?x)"
    using off len1 by (intro memcpy_into_exact) simp_all
  have m2: "memcpy_local 1 (le_bytes 4 (?a mod 100)) 0 1 = ret [word_of_int (?a mod 100)]"
    by (simp add: memcpy_local_exact take_le_bytes numeral_eq_Suc)
  have m3: "memcpy_into (store_bytes dest1 (nat off) ?x) (off + 6) [word_of_int (?a mod 100)] =
      ret (store_bytes dest1 (nat off) (decimal_abs ?a))"
  proof -
    have "memcpy_into (store_bytes dest1 (nat off) ?x) (off + 6) [word_of_int (?a mod 100)] =
      ret (store_bytes (store_bytes dest1 (nat off) ?x) (nat (off + 6)) [word_of_int (?a mod 100)])"
      using off len1 by (intro memcpy_into_exact) simp_all
    also have "nat (off + 6) = nat off + length ?x" using off by (simp add: nat_add_distrib)
    also have "store_bytes (store_bytes dest1 (nat off) ?x) (nat off + length ?x)
        [word_of_int (?a mod 100)] = store_bytes dest1 (nat off) (decimal_abs ?a)"
      using off len1 by (subst store_bytes_twice) (simp_all add: decimal_abs_eq)
    finally show ?thesis .
  qed
  show ?thesis
    by (simp only: decimal_to_char_def abs bind_ret pow100_1 dv Let_def x fl m1 m2 m3)
       (simp add: dest1_def)
qed

text \<open>
  C30: writing a value as a column delivers it, a 32-bit or 64-bit integer or a non-negative decimal
  with two decimal places (scale one), stores exactly the bytes that a column of that type holds, at
  the current offset, and reports their number, without any undefined behaviour when the destination
  has room. Sums and products of decimals, whose scale is zero or two, are not covered.
\<close>

theorem convert_value_writes_cell:
  assumes "case v of IntCell z \<Rightarrow> True | LongCell z \<Rightarrow> True | DecimalCell z \<Rightarrow> 0 \<le> z | _ \<Rightarrow> False"
    and "cell_range v" and "0 \<le> off" "off + int (length (cell_bytes v)) \<le> int (length dest)"
  shows "convert_value_to_char dest (cell_meaning v) off =
    ret (store_bytes dest (nat off) (cell_bytes v), int (length (cell_bytes v)))"
proof (cases v)
  case (IntCell z)
  with assms show ?thesis by (simp add: convert_value_to_char_def memcpy_into_exact)
next
  case (LongCell z)
  with assms show ?thesis by (simp add: convert_value_to_char_def memcpy_into_exact)
next
  case (DecimalCell z)
  with assms show ?thesis
    using decimal_to_char_bytes [of z off dest]
    by (simp add: convert_value_to_char_def decimal_cell_def)
qed (use assms in simp_all)

theorem convert_value_writes_cell_witness:
  "convert_value_to_char (replicate 9 0) (cell_meaning (DecimalCell 1990)) 2 =
     ret ([0, 0, 128, 0, 0, 0, 0, 19, 90], 7)"
  using convert_value_writes_cell [of "DecimalCell 1990" 2 "replicate 9 0"]
  by (simp add: decimal_cell_def decimal_abs_eq store_bytes_def numeral_eq_Suc)

text \<open>
  C40: a negative decimal that is written at offset seven or later is not written in the column
  format. The source flips the first seven bytes of the row instead of the number, so the number is
  stored as its absolute value and the columns before it are corrupted.
\<close>

theorem convert_negative_decimal:
  assumes "- (100 * 2 ^ 47) < z" "z < 0" and "7 \<le> off" "off + 7 \<le> int (length dest)"
  shows "convert_value_to_char dest (cell_meaning (DecimalCell z)) off =
    ret (map not (take 7 dest) @ drop 7 (store_bytes dest (nat off) (cell_bytes (DecimalCell (- z)))), 7)"
proof -
  let ?n = "decimal_abs (- z)"
  have "length (take (nat off) dest) = nat off" using assms by simp
  then have "store_bytes (map not (take 7 dest) @ drop 7 dest) (nat off) ?n =
      map not (take 7 dest) @ drop 7 (store_bytes dest (nat off) ?n)"
    using assms by (simp add: store_bytes_def drop_take)
  then show ?thesis
    using assms decimal_to_char_bytes [of z off dest]
    by (simp add: convert_value_to_char_def decimal_cell_def)
qed

theorem convert_negative_decimal_witness:
  "convert_value_to_char (replicate 14 0) (cell_meaning (DecimalCell (- 150))) 7 =
     ret (replicate 7 (- 1) @ [128, 0, 0, 0, 0, 1, 50], 7)"
  using convert_negative_decimal [of "- 150" 7 "replicate 14 0"]
  by (simp add: decimal_cell_def decimal_abs_eq store_bytes_def numeral_eq_Suc)

end
