(* ===== verification/Expressions.thy ===== *)
theory Expressions
  imports Column_Laws
begin

text \<open>
  Expressions of a snippet and their reference meaning. The wire format is postfix; the theorem
  of the first section says that the stack machine of \<^verbatim>\<open>get_postfix_value\<close> computes the value
  of the expression tree, the second does the same for the \<^verbatim>\<open>CASE\<close> operation, and the third
  collects the arithmetic that does not keep the meaning of its operands.
\<close>

section \<open>Trees and postfix\<close>

datatype kexpr =
    KCol string
  | KLit KETI_VALUE_TYPE string
  | KOp string kexpr kexpr

type_synonym token = "KETI_VALUE_TYPE \<times> string"

fun tokens :: "kexpr \<Rightarrow> token list" where
  "tokens (KCol name) = [(V_COLUMN, name)]"
| "tokens (KLit ty v) = [(ty, v)]"
| "tokens (KOp f l r) = tokens l @ tokens r @ [(V_OPERATOR, f)]"

definition operand_of :: "token list \<Rightarrow> Operand" where
  "operand_of ts = \<lparr>types = map fst ts, values = map snd ts\<rparr>"

fun literals_ok :: "kexpr \<Rightarrow> bool" where
  "literals_ok (KCol name) = True"
| "literals_ok (KLit ty v) = (ty \<noteq> V_COLUMN \<and> ty \<noteq> V_OPERATOR)"
| "literals_ok (KOp f l r) = (literals_ok l \<and> literals_ok r)"

definition literal_named :: "KETI_VALUE_TYPE \<Rightarrow> string \<Rightarrow> kValue exec" where
  "literal_named ty v = get_literal_value \<lparr>types = [ty], values = [v]\<rparr> 0"

fun eval_expr :: "bytes \<Rightarrow> SchemaInfo \<Rightarrow> int list \<Rightarrow> kexpr \<Rightarrow> kValue exec" where
  "eval_expr row sch offs (KCol name) = column_named row sch offs name"
| "eval_expr row sch offs (KLit ty v) = literal_named ty v"
| "eval_expr row sch offs (KOp f l r) =
     bind_exec (eval_expr row sch offs l) (\<lambda>a.
     bind_exec (eval_expr row sch offs r) (\<lambda>b. apply_operator f a b))"

text \<open>One step of the stack machine in terms of the token it reads.\<close>

definition token_step ::
  "bytes \<Rightarrow> SchemaInfo \<Rightarrow> int list \<Rightarrow> token \<Rightarrow> kValue list \<Rightarrow> kValue list exec" where
  "token_step row sch offs t stack =
     (case t of (ty, value) \<Rightarrow>
       if ty \<noteq> V_OPERATOR then
         bind_exec (if ty = V_COLUMN then column_named row sch offs value
                    else literal_named ty value) (\<lambda>median. ret (median # stack))
       else
         (case stack of
            r # l # rest \<Rightarrow> bind_exec (apply_operator value l r) (\<lambda>median. ret (median # rest))
          | _ \<Rightarrow> Abort EmptyStack))"

lemma length_types: "length (types (operand_of ts)) = length ts"
  by (simp add: operand_of_def)

lemma get_literal_value_named:
  assumes "nth_exec (types operand) i = ret ty" and "nth_exec (values operand) i = ret v"
  shows "get_literal_value operand i = literal_named ty v"
  using assms by (simp add: get_literal_value_def literal_named_def)

lemma postfix_step_token:
  assumes "i < length ts"
  shows "postfix_step row sch (operand_of ts) offs i stack = token_step row sch offs (ts ! i) stack"
proof -
  obtain ty v where t: "ts ! i = (ty, v)" by fastforce
  then have "nth_exec (types (operand_of ts)) (int i) = ret ty"
    and "nth_exec (values (operand_of ts)) (int i) = ret v"
    using assms by (simp_all add: operand_of_def)
  then show ?thesis using t
    by (simp add: postfix_step_def token_step_def get_column_value_named get_literal_value_named)
qed

lemma fold_exec_indices:
  assumes "\<And>i s. i < length xs \<Longrightarrow> f i s = g (xs ! i) s"
  shows "fold_exec f [0..<length xs] s = fold_exec g xs s"
  using assms
proof (induction xs arbitrary: s rule: rev_induct)
  case Nil
  then show ?case by simp
next
  case (snoc x xs)
  have "fold_exec f [0..<length xs] s = fold_exec g xs s"
  proof (rule snoc.IH)
    fix i s
    assume "i < length xs"
    then show "f i s = g (xs ! i) s" using snoc.prems [of i s] by (simp add: nth_append)
  qed
  then show ?case using snoc.prems [of "length xs"]
    by (simp add: fold_exec_append cong: bind_exec_cong)
qed

lemma get_postfix_value_tokens:
  "get_postfix_value row sch (operand_of ts) offs =
     bind_exec (fold_exec (token_step row sch offs) ts [])
       (\<lambda>stack. case stack of [] \<Rightarrow> Abort EmptyStack | median # _ \<Rightarrow> ret median)"
  using fold_exec_indices [of ts "postfix_step row sch (operand_of ts) offs"
      "token_step row sch offs", OF postfix_step_token]
  by (simp add: get_postfix_value_def length_types)

lemma tokens_step:
  "literals_ok e \<Longrightarrow> fold_exec (token_step row sch offs) (tokens e) stack =
     bind_exec (eval_expr row sch offs e) (\<lambda>v. ret (v # stack))"
proof (induction e arbitrary: stack)
  case (KCol name)
  then show ?case by (simp add: token_step_def)
next
  case (KLit ty v)
  then show ?case by (simp add: token_step_def)
next
  case (KOp f l r)
  then show ?case
    by (simp add: fold_exec_append bind_assoc token_step_def cong: bind_exec_cong)
qed

lemma postfix_eval:
  "literals_ok e \<Longrightarrow> get_postfix_value row sch (operand_of (tokens e)) offs = eval_expr row sch offs e"
  by (simp add: get_postfix_value_tokens tokens_step bind_assoc)

lemma tokens_not_Nil [simp]: "tokens e \<noteq> []"
  by (induction e) simp_all

lemma first_token: "literals_ok e \<Longrightarrow> fst (hd (tokens e)) \<noteq> V_OPERATOR"
  by (induction e) simp_all

text \<open>
  C14: for every well-formed expression, the operand that encodes it in postfix evaluates to the
  value of the expression tree, error or undefined behaviour included, whichever of the three
  paths of \<^verbatim>\<open>calcul_operand_value\<close> (column, literal, stack machine) it takes.
\<close>

theorem operand_value_is_expression_value:
  assumes "literals_ok e"
  shows "calcul_operand_value row sch (operand_of (tokens e)) offs (- 1) = eval_expr row sch offs e"
proof (cases e)
  case (KCol name)
  then show ?thesis
    by (simp add: calcul_operand_value_def operand_of_def get_column_value_named)
next
  case (KLit ty v)
  with assms show ?thesis
    by (simp add: calcul_operand_value_def operand_of_def literal_named_def)
next
  case (KOp f l r)
  let ?ts = "tokens l @ tokens r @ [(V_OPERATOR, f)]"
  have "length ?ts \<noteq> 1" by simp
  moreover have "nth_exec (types (operand_of ?ts)) 0 = ret (fst (hd (tokens l)))"
    by (simp add: operand_of_def nth_append hd_conv_nth [symmetric] hd_map)
  ultimately show ?thesis
    using assms KOp first_token [of l] postfix_eval [OF assms, of row sch offs]
    by (simp add: calcul_operand_value_def length_types)
qed

definition demo_expr :: kexpr where
  "demo_expr = KOp ''*'' (KCol ''id'') (KOp ''+'' (KCol ''id'') (KLit V_INT32 ''35''))"

theorem operand_value_is_expression_value_witness:
  "calcul_operand_value (concat demo_cells) demo_schema (operand_of (tokens demo_expr))
     [0, 4, 11, 14] (- 1) = eval_expr (concat demo_cells) demo_schema [0, 4, 11, 14] demo_expr"
  by (rule operand_value_is_expression_value) (simp add: demo_expr_def)

section \<open>CASE\<close>

text \<open>
  A condition is an expression followed by further ones, each joined by \<^verbatim>\<open>AND\<close> (\<open>True\<close>) or
  \<^verbatim>\<open>OR\<close> (\<open>False\<close>). It is evaluated from the left and stops at the first one that decides:
  both connectives have the same strength and group to the right.
\<close>

type_synonym kcond = "kexpr \<times> (bool \<times> kexpr) list"

definition truth :: "kValue exec \<Rightarrow> bool exec" where
  "truth m = bind_exec m (\<lambda>k. get_exec (kv_bool k))"

fun cond_value ::
  "bytes \<Rightarrow> SchemaInfo \<Rightarrow> int list \<Rightarrow> kexpr \<Rightarrow> (bool \<times> kexpr) list \<Rightarrow> bool exec" where
  "cond_value row sch offs e [] = truth (eval_expr row sch offs e)"
| "cond_value row sch offs e ((isand, e') # rest) =
     bind_exec (truth (eval_expr row sch offs e)) (\<lambda>b.
     if b = isand then cond_value row sch offs e' rest else ret b)"

fun case_value ::
  "bytes \<Rightarrow> SchemaInfo \<Rightarrow> int list \<Rightarrow> (kcond \<times> kexpr) list \<Rightarrow> kexpr \<Rightarrow> kValue exec" where
  "case_value row sch offs [] el = eval_expr row sch offs el"
| "case_value row sch offs ((c, r) # bs) el =
     bind_exec (cond_value row sch offs (fst c) (snd c)) (\<lambda>b.
     if b then eval_expr row sch offs r else case_value row sch offs bs el)"

fun join_tokens :: "(bool \<times> kexpr) list \<Rightarrow> token list" where
  "join_tokens [] = []"
| "join_tokens ((isand, e) # rest) =
     (V_OPERATOR, if isand then ''AND'' else ''OR'') # tokens e @ join_tokens rest"

definition cond_tokens :: "kcond \<Rightarrow> token list" where
  "cond_tokens c = tokens (fst c) @ join_tokens (snd c)"

definition when_tokens :: "kcond \<times> kexpr \<Rightarrow> token list" where
  "when_tokens b =
     (V_OPERATOR, ''WHEN'') # cond_tokens (fst b) @ (V_OPERATOR, ''THEN'') # tokens (snd b)"

definition case_tokens :: "(kcond \<times> kexpr) list \<Rightarrow> kexpr \<Rightarrow> token list" where
  "case_tokens bs el =
     (V_OPERATOR, ''CASE'') # concat (map when_tokens bs)
       @ (V_OPERATOR, ''ELSE'') # tokens el @ [(V_OPERATOR, ''END'')]"

definition case_words :: "string list" where
  "case_words = [''WHEN'', ''THEN'', ''ELSE'', ''END'', ''AND'', ''OR'']"

definition scan_words :: "string list" where
  "scan_words = [''WHEN'', ''THEN'', ''ELSE'']"

lemma scan_words_reserved: "w \<notin> set case_words \<Longrightarrow> w \<notin> set scan_words"
  by (simp add: case_words_def scan_words_def)

lemma connectives_not_scanned: "''AND'' \<notin> set scan_words" "''OR'' \<notin> set scan_words"
  by (simp_all add: scan_words_def)

definition plain :: "kexpr \<Rightarrow> bool" where
  "plain e \<longleftrightarrow> literals_ok e \<and> (\<forall>t \<in> set (tokens e). snd t \<notin> set case_words)"

definition plain_cond :: "kcond \<Rightarrow> bool" where
  "plain_cond c \<longleftrightarrow> plain (fst c) \<and> (\<forall>e \<in> set (snd c). plain (snd e))"

definition plain_case :: "(kcond \<times> kexpr) list \<Rightarrow> kexpr \<Rightarrow> bool" where
  "plain_case bs el \<longleftrightarrow> (\<forall>b \<in> set bs. plain_cond (fst b) \<and> plain (snd b)) \<and> plain el"

subsection \<open>Positions\<close>

text \<open>The state of the first pass after a stretch of tokens that starts at position \<open>k\<close>.\<close>

definition scan ::
  "token list \<Rightarrow> nat \<Rightarrow> nat \<Rightarrow> nat option \<times> (nat \<times> nat) list \<times> nat option
   \<Rightarrow> (nat option \<times> (nat \<times> nat) list \<times> nat option) exec" where
  "scan ts i j st = fold_exec (case_scan_step (map snd ts)) [i..<j] st"

lemma scan_split: "i \<le> j \<Longrightarrow> j \<le> k \<Longrightarrow> scan ts i k st = bind_exec (scan ts i j st) (scan ts j k)"
  using upt_add_eq_append [of i j "k - j"]
  by (simp add: scan_def fold_exec_append cong: bind_exec_cong)

lemma scan_one: "scan ts i (Suc i) st = case_scan_step (map snd ts) i st"
  by (simp add: scan_def)

lemma scan_skip:
  assumes "i \<le> j" and "\<And>m. i \<le> m \<Longrightarrow> m < j \<Longrightarrow> map snd ts ! m \<notin> set scan_words"
  shows "scan ts i j st = ret st"
proof -
  have step: "case_scan_step (map snd ts) m s = ret s" if "i \<le> m" "m < j" for m s
  proof -
    obtain w ps e where "s = (w, ps, e)" by (cases s)
    then show ?thesis using assms(2) [OF that] by (simp add: case_scan_step_def scan_words_def)
  qed
  have "fold_exec (case_scan_step (map snd ts)) xs st = ret st" if "set xs \<subseteq> {i..<j}" for xs
    using that by (induction xs) (simp_all add: step)
  from this [of "[i..<j]"] show ?thesis by (simp add: scan_def)
qed

lemma scan_seg:
  assumes "ts = pre @ seg @ post" and "\<forall>t \<in> set seg. snd t \<notin> set scan_words"
  shows "scan ts (length pre) (length pre + length seg) st = ret st"
proof (rule scan_skip)
  fix m
  assume m: "length pre \<le> m" "m < length pre + length seg"
  then have j: "m - length pre < length seg" by simp
  have "map snd ts ! m = snd (seg ! (m - length pre))"
    using m j unfolding assms(1) by (simp add: nth_append)
  moreover have "seg ! (m - length pre) \<in> set seg" using j by (rule nth_mem)
  ultimately show "map snd ts ! m \<notin> set scan_words" using assms(2) by metis
qed simp

lemma plain_seg: "plain e \<Longrightarrow> \<forall>t \<in> set (tokens e). snd t \<notin> set scan_words"
  using scan_words_reserved by (metis plain_def)

lemma join_seg:
  "\<forall>e \<in> set rest. plain (snd e) \<Longrightarrow> \<forall>t \<in> set (join_tokens rest). snd t \<notin> set scan_words"
proof (induction rest)
  case (Cons x rest)
  obtain isand e where x: "x = (isand, e)" by fastforce
  have "plain e" using Cons.prems x by simp
  then show ?case using Cons x plain_seg [of e] connectives_not_scanned by auto
qed simp

lemma cond_seg: "plain_cond c \<Longrightarrow> \<forall>t \<in> set (cond_tokens c). snd t \<notin> set scan_words"
  using plain_seg join_seg by (auto simp: plain_cond_def cond_tokens_def)

fun when_positions :: "nat \<Rightarrow> (kcond \<times> kexpr) list \<Rightarrow> (nat \<times> nat) list" where
  "when_positions k [] = []"
| "when_positions k (b # bs) =
     (k, k + 1 + length (cond_tokens (fst b))) # when_positions (k + length (when_tokens b)) bs"

lemma scan_when:
  assumes ts: "ts = pre @ when_tokens b @ post" and c: "plain_cond (fst b)" and r: "plain (snd b)"
  shows "scan ts (length pre) (length pre + length (when_tokens b)) (w, ps, e) =
    ret (Some (length pre), ps @ [(length pre, length pre + 1 + length (cond_tokens (fst b)))], e)"
proof -
  let ?k = "length pre" and ?c = "cond_tokens (fst b)" and ?r = "tokens (snd b)"
  let ?t = "?k + 1 + length ?c"
  have ends: "?k + length (when_tokens b) = Suc ?t + length ?r" by (simp add: when_tokens_def)
  have wh: "scan ts ?k (Suc ?k) (w, ps, e) = ret (Some ?k, ps, e)"
    by (simp add: scan_one case_scan_step_def ts when_tokens_def nth_append)
  have cond: "scan ts (Suc ?k) ?t st = ret st" for st
    using scan_seg [of ts "pre @ [(V_OPERATOR, ''WHEN'')]" ?c _ st, OF _ cond_seg [OF c]]
    by (simp add: ts when_tokens_def)
  have th: "scan ts ?t (Suc ?t) (Some ?k, ps, e) = ret (Some ?k, ps @ [(?k, ?t)], e)"
    by (simp add: scan_one case_scan_step_def ts when_tokens_def nth_append)
  have res: "scan ts (Suc ?t) (Suc ?t + length ?r) st = ret st" for st
    using scan_seg [of ts "pre @ (V_OPERATOR, ''WHEN'') # ?c @ [(V_OPERATOR, ''THEN'')]" ?r _ st,
        OF _ plain_seg [OF r]]
    by (simp add: ts when_tokens_def)
  let ?e = "Suc ?t + length ?r"
  have "scan ts ?k ?e (w, ps, e) = bind_exec (scan ts ?k (Suc ?k) (w, ps, e)) (scan ts (Suc ?k) ?e)"
    by (rule scan_split) simp_all
  also have "\<dots> = bind_exec (scan ts (Suc ?k) ?t (Some ?k, ps, e)) (scan ts ?t ?e)"
    unfolding wh bind_ret by (rule scan_split) simp_all
  also have "\<dots> = bind_exec (scan ts ?t (Suc ?t) (Some ?k, ps, e)) (scan ts (Suc ?t) ?e)"
    unfolding cond bind_ret by (rule scan_split) simp_all
  finally show ?thesis unfolding ends th bind_ret res .
qed

lemma scan_whens:
  assumes "ts = pre @ concat (map when_tokens bs) @ post"
    and "\<forall>b \<in> set bs. plain_cond (fst b) \<and> plain (snd b)"
  shows "\<exists>w'. scan ts (length pre) (length pre + length (concat (map when_tokens bs))) (w, ps, e) =
    ret (w', ps @ when_positions (length pre) bs, e)"
  using assms
proof (induction bs arbitrary: pre w ps)
  case Nil
  then show ?case by (simp add: scan_def)
next
  case (Cons b bs)
  let ?k = "length pre" and ?n = "length (when_tokens b)"
  let ?e = "?k + ?n + length (concat (map when_tokens bs))"
  have one: "scan ts ?k (?k + ?n) (w, ps, e) =
      ret (Some ?k, ps @ [(?k, ?k + 1 + length (cond_tokens (fst b)))], e)"
    using Cons.prems by (intro scan_when) simp_all
  obtain w' where "scan ts (?k + ?n) ?e
        (Some ?k, ps @ [(?k, ?k + 1 + length (cond_tokens (fst b)))], e) =
      ret (w', (ps @ [(?k, ?k + 1 + length (cond_tokens (fst b)))])
        @ when_positions (?k + ?n) bs, e)"
    using Cons.IH [of "pre @ when_tokens b" "Some ?k"
        "ps @ [(?k, ?k + 1 + length (cond_tokens (fst b)))]"] Cons.prems
    by (auto simp: add.assoc)
  moreover have "scan ts ?k ?e (w, ps, e) =
      bind_exec (scan ts ?k (?k + ?n) (w, ps, e)) (scan ts (?k + ?n) ?e)"
    by (rule scan_split) simp_all
  ultimately show ?case by (simp add: one add.assoc)
qed

lemma scan_case:
  assumes "plain_case bs el" and ts: "ts = case_tokens bs el"
  shows "\<exists>w'. scan ts 0 (length ts) (None, [], None) =
    ret (w', when_positions 1 bs, Some (1 + length (concat (map when_tokens bs))))"
proof -
  let ?m = "1 + length (concat (map when_tokens bs))"
  let ?bs = "concat (map when_tokens bs)"
  have bs: "\<forall>b \<in> set bs. plain_cond (fst b) \<and> plain (snd b)" and el: "plain el"
    using assms(1) by (simp_all add: plain_case_def)
  have len: "length ts = Suc ?m + length (tokens el) + 1" by (simp add: ts case_tokens_def)
  have kw: "''CASE'' \<notin> set scan_words" "''END'' \<notin> set scan_words" by (simp_all add: scan_words_def)
  have first: "scan ts 0 1 (None, [], None) = ret (None, [], None)"
    by (simp add: scan_def case_scan_step_def ts case_tokens_def)
  obtain w' where whens: "scan ts 1 ?m (None, [], None) = ret (w', when_positions 1 bs, None)"
    using scan_whens [of ts "[(V_OPERATOR, ''CASE'')]" bs _ None "[]" None, OF _ bs]
    by (auto simp: ts case_tokens_def)
  have els: "scan ts ?m (Suc ?m) (w', when_positions 1 bs, None) =
      ret (w', when_positions 1 bs, Some ?m)"
    by (simp add: scan_one case_scan_step_def ts case_tokens_def nth_append)
  have "\<forall>t \<in> set (tokens el @ [(V_OPERATOR, ''END'')]). snd t \<notin> set scan_words"
    using plain_seg [OF el] kw by auto
  then have rest: "scan ts (Suc ?m) (length ts) st = ret st" for st
    using scan_seg [of ts "(V_OPERATOR, ''CASE'') # ?bs @ [(V_OPERATOR, ''ELSE'')]"
        "tokens el @ [(V_OPERATOR, ''END'')]" "[]" st]
    by (simp add: ts case_tokens_def)
  have "scan ts 0 (length ts) (None, [], None) =
      bind_exec (scan ts 0 1 (None, [], None)) (scan ts 1 (length ts))"
    by (rule scan_split) (simp_all add: len)
  also have "\<dots> = bind_exec (scan ts 1 ?m (None, [], None)) (scan ts ?m (length ts))"
    unfolding first bind_ret by (rule scan_split) (simp_all add: len)
  also have "\<dots> = bind_exec (scan ts ?m (Suc ?m) (w', when_positions 1 bs, None))
      (scan ts (Suc ?m) (length ts))"
    unfolding whens bind_ret by (rule scan_split) (simp_all add: len)
  finally show ?thesis unfolding els bind_ret rest by blast
qed

subsection \<open>Conditions\<close>

lemma value_of_get [simp]: "value_of (get_exec x) = x"
  by (cases x) simp_all

lemma operand_snoc_of: "operand_snoc (operand_of ts) ty v = operand_of (ts @ [(ty, v)])"
  by (simp add: operand_snoc_def operand_of_def)

lemma operand_empty_of: "operand_empty = operand_of []"
  by (simp add: operand_empty_def operand_of_def)

text \<open>Tokens that are left over from an earlier condition do not disturb a later one.\<close>

definition runs :: "bytes \<Rightarrow> SchemaInfo \<Rightarrow> int list \<Rightarrow> token list \<Rightarrow> bool" where
  "runs row sch offs sl \<longleftrightarrow> returns (fold_exec (token_step row sch offs) sl [])"

lemma runs_Nil [simp]: "runs row sch offs []"
  by (simp add: runs_def)

lemma postfix_after:
  assumes "runs row sch offs sl" and "literals_ok e"
  shows "value_of (get_postfix_value row sch (operand_of (sl @ tokens e)) offs) =
    value_of (eval_expr row sch offs e)"
proof -
  obtain stk l where "fold_exec (token_step row sch offs) sl [] = Done stk l"
    using assms(1) by (auto simp: runs_def returns_def split: exec.splits)
  then show ?thesis
    by (simp add: get_postfix_value_tokens fold_exec_append tokens_step [OF assms(2)] value_of_bind
        bind_assoc)
qed

lemma runs_snoc:
  assumes "runs row sch offs sl" and "literals_ok e"
    and "value_of (eval_expr row sch offs e) \<noteq> None"
  shows "runs row sch offs (sl @ tokens e)"
proof -
  obtain stk l where "fold_exec (token_step row sch offs) sl [] = Done stk l"
    using assms(1) by (auto simp: runs_def returns_def split: exec.splits)
  moreover obtain v l' where "eval_expr row sch offs e = Done v l'"
    using assms(3) by (cases "eval_expr row sch offs e") simp_all
  ultimately show ?thesis
    by (simp add: runs_def fold_exec_append tokens_step [OF assms(2)] bind_Done)
qed

lemma nth_operand_of:
  assumes "ts = pre @ (ty, v) # post"
  shows "nth_exec (values (operand_of ts)) (int (length pre)) = ret v"
    and "nth_exec (types (operand_of ts)) (int (length pre)) = ret ty"
  using assms by (simp_all add: operand_of_def nth_append)

lemma condition_seg:
  assumes "ts = pre @ seg @ post" and "\<forall>t \<in> set seg. snd t \<notin> set case_words"
  shows "case_condition row sch (operand_of ts) offs
      ([length pre..<length pre + length seg] @ is) (operand_of sl) p =
    case_condition row sch (operand_of ts) offs is (operand_of (sl @ seg)) p"
  using assms
proof (induction seg arbitrary: pre sl)
  case Nil
  then show ?case by simp
next
  case (Cons t seg)
  obtain ty v where t: "t = (ty, v)" by fastforce
  have ts: "ts = pre @ (ty, v) # seg @ post" using Cons.prems(1) t by simp
  have v: "v \<noteq> ''AND''" "v \<noteq> ''OR''" "v \<noteq> ''THEN''"
    using Cons.prems(2) t by (auto simp: case_words_def)
  have up: "[length pre..<length pre + length (t # seg)] =
      length pre # [length (pre @ [t])..<length (pre @ [t]) + length seg]"
    by (simp add: upt_conv_Cons del: upt_Suc)
  have step: "case_condition row sch (operand_of ts) offs (length pre # js) (operand_of sl) p =
      case_condition row sch (operand_of ts) offs js (operand_of (sl @ [t])) p" for js
    using v by (simp add: nth_operand_of [OF ts] operand_snoc_of t)
  have "ts = (pre @ [t]) @ seg @ post" "\<forall>t \<in> set seg. snd t \<notin> set case_words"
    using Cons.prems by simp_all
  from Cons.IH [OF this, of "sl @ [t]"] show ?case unfolding up append_Cons step by simp
qed

lemma value_of_truth: "value_of (truth m) = Option.bind (value_of m) kv_bool"
  by (simp add: truth_def value_of_bind)

text \<open>What the loop over one condition leaves behind.\<close>

definition decides ::
  "bytes \<Rightarrow> SchemaInfo \<Rightarrow> int list \<Rightarrow> (Operand \<times> bool) exec \<Rightarrow> bool exec \<Rightarrow> bool" where
  "decides row sch offs run cv \<longleftrightarrow>
     (case value_of cv of
        None \<Rightarrow> value_of run = None
      | Some b \<Rightarrow> \<exists>sl. value_of run = Some (operand_of sl, b) \<and> (\<not> b \<longrightarrow> runs row sch offs sl))"

lemma condition_step:
  assumes ts: "ts = pre @ tokens e @ (V_OPERATOR, kw) # post" and e: "plain e"
  shows "case_condition row sch (operand_of ts) offs
      ([length pre..<length pre + length (tokens e)] @ (length pre + length (tokens e)) # is)
      (operand_of sl) p =
    (if kw = ''AND'' then
       bind_exec (truth (get_postfix_value row sch (operand_of (sl @ tokens e)) offs)) (\<lambda>b.
       if b then case_condition row sch (operand_of ts) offs is operand_empty p
       else ret (operand_of (sl @ tokens e), False))
     else if kw = ''OR'' then
       bind_exec (truth (get_postfix_value row sch (operand_of (sl @ tokens e)) offs)) (\<lambda>b.
       if b then ret (operand_of (sl @ tokens e), True)
       else case_condition row sch (operand_of ts) offs is operand_empty p)
     else if kw = ''THEN'' then
       bind_exec (truth (get_postfix_value row sch (operand_of (sl @ tokens e)) offs)) (\<lambda>b.
       case_condition row sch (operand_of ts) offs is (operand_of (sl @ tokens e)) b)
     else case_condition row sch (operand_of ts) offs is
            (operand_snoc (operand_of (sl @ tokens e)) V_OPERATOR kw) p)"
proof -
  have words: "\<forall>t \<in> set (tokens e). snd t \<notin> set case_words" using e by (simp add: plain_def)
  have ts': "ts = (pre @ tokens e) @ (V_OPERATOR, kw) # post" using ts by simp
  have at: "nth_exec (values (operand_of ts)) (int (length pre + length (tokens e))) = ret kw"
    "nth_exec (types (operand_of ts)) (int (length pre + length (tokens e))) = ret V_OPERATOR"
    using nth_operand_of [OF ts'] by simp_all
  show ?thesis
    by (simp only: condition_seg [OF ts words] case_condition.simps at bind_ret truth_def bind_assoc)
qed

lemma condition_decides:
  assumes "ts = pre @ tokens e @ join_tokens rest @ (V_OPERATOR, ''THEN'') # post"
    and "plain e" and "\<forall>x \<in> set rest. plain (snd x)" and "runs row sch offs sl"
  shows "decides row sch offs
    (case_condition row sch (operand_of ts) offs
      [length pre..<length pre + length (tokens e) + length (join_tokens rest) + 1] (operand_of sl) p)
    (cond_value row sch offs e rest)"
  using assms
proof (induction rest arbitrary: pre e sl)
  case Nil
  have up: "[length pre..<length pre + length (tokens e) + length (join_tokens []) + 1] =
      [length pre..<length pre + length (tokens e)] @ (length pre + length (tokens e)) # []" by simp
  have ts: "ts = pre @ tokens e @ (V_OPERATOR, ''THEN'') # post" using Nil.prems(1) by simp
  have ok: "literals_ok e" using Nil.prems(2) by (simp add: plain_def)
  note pf = postfix_after [OF Nil.prems(4) ok] runs_snoc [OF Nil.prems(4) ok]
  show ?case unfolding up condition_step [OF ts Nil.prems(2)]
    using pf
    by (auto simp: decides_def value_of_bind value_of_truth split: option.splits Option.bind_splits)
next
  case (Cons x rest)
  obtain isand e' where x: "x = (isand, e')" by fastforce
  let ?kw = "if isand then ''AND'' else ''OR''"
  let ?pre = "pre @ tokens e @ [(V_OPERATOR, ?kw)]"
  let ?is = "[length ?pre..<length ?pre + length (tokens e') + length (join_tokens rest) + 1]"
  have up: "[length pre..<length pre + length (tokens e) + length (join_tokens (x # rest)) + 1] =
      [length pre..<length pre + length (tokens e)] @ (length pre + length (tokens e)) # ?is"
    using upt_add_eq_append [of "length pre" "length pre + length (tokens e)"
        "length (join_tokens (x # rest)) + 1"]
    by (simp add: x upt_conv_Cons add.assoc del: upt_Suc)
  have ts: "ts = pre @ tokens e @ (V_OPERATOR, ?kw) #
      (tokens e' @ join_tokens rest @ (V_OPERATOR, ''THEN'') # post)"
    using Cons.prems(1) x by simp
  have ok: "literals_ok e" using Cons.prems(2) by (simp add: plain_def)
  note pf = postfix_after [OF Cons.prems(4) ok] runs_snoc [OF Cons.prems(4) ok]
  have IH: "decides row sch offs
      (case_condition row sch (operand_of ts) offs ?is operand_empty p)
      (cond_value row sch offs e' rest)"
    unfolding operand_empty_of
    using Cons.IH [of ?pre e' "[]"] Cons.prems x by simp
  show ?case unfolding up condition_step [OF ts Cons.prems(2)]
    using pf IH
    by (cases isand)
       (auto simp: x decides_def value_of_bind value_of_truth simp del: upt_Suc
        split: option.splits Option.bind_splits)
qed

subsection \<open>Branches\<close>

lemma case_collect_seg:
  assumes "\<forall>t \<in> set seg. snd t \<notin> set stops" and "w \<in> set stops"
  shows "case_collect stops (map fst (seg @ (ty, w) # post)) (map snd (seg @ (ty, w) # post))
    (operand_of acc) = ret (operand_of (acc @ seg))"
  using assms
proof (induction seg arbitrary: acc)
  case Nil
  then show ?case by simp
next
  case (Cons t seg)
  then show ?case by (cases t) (simp add: operand_snoc_of)
qed

lemma case_result_eval:
  assumes "ts = pre @ tokens r @ (ty, w) # post" and "plain r"
    and "set stops \<subseteq> set case_words" and "w \<in> set stops"
  shows "case_result row sch (operand_of ts) offs stops (length pre) = eval_expr row sch offs r"
proof -
  have "\<forall>t \<in> set (tokens r). snd t \<notin> set stops" using assms(2,3) by (auto simp: plain_def)
  from case_collect_seg [OF this assms(4), of ty post "[]"]
  have "case_collect stops (drop (length pre) (types (operand_of ts)))
      (drop (length pre) (values (operand_of ts))) operand_empty = ret (operand_of (tokens r))"
    by (simp add: assms(1) operand_of_def operand_empty_def)
  then show ?thesis using assms(2) by (simp add: case_result_def postfix_eval plain_def)
qed

lemma stops_reserved: "set [''WHEN'', ''ELSE'', ''END''] \<subseteq> set case_words" "set [''END''] \<subseteq> set case_words"
  by (simp_all add: case_words_def)

lemma after_branch:
  "\<exists>ty w post'. concat (map when_tokens bs) @ (V_OPERATOR, ''ELSE'') # post = (ty, w) # post'
     \<and> w \<in> set [''WHEN'', ''ELSE'', ''END'']"
  by (cases bs) (simp_all add: when_tokens_def)

lemma case_branches_value:
  assumes "ts = pre @ concat (map when_tokens bs)
      @ (V_OPERATOR, ''ELSE'') # tokens el @ [(V_OPERATOR, ''END'')]"
    and "plain_case bs el" and "runs row sch offs sl"
  shows "value_of (case_branches row sch (operand_of ts) offs (when_positions (length pre) bs)
      (Some (length pre + length (concat (map when_tokens bs)))) (operand_of sl) p) =
    value_of (case_value row sch offs bs el)"
  using assms
proof (induction bs arbitrary: pre sl p)
  case Nil
  have "case_result row sch (operand_of ts) offs [''END''] (length (pre @ [(V_OPERATOR, ''ELSE'')])) =
      eval_expr row sch offs el"
    using Nil.prems stops_reserved by (intro case_result_eval) (simp_all add: plain_case_def)
  then show ?case by simp
next
  case (Cons b bs)
  obtain e rest r where b: "b = ((e, rest), r)" by (metis surj_pair)
  let ?W = "(V_OPERATOR, ''WHEN'')" and ?T = "(V_OPERATOR, ''THEN'')"
  let ?c = "cond_tokens (e, rest)"
  let ?tail = "concat (map when_tokens bs) @ (V_OPERATOR, ''ELSE'') # tokens el @ [(V_OPERATOR, ''END'')]"
  let ?op = "operand_of ts"
  have plain: "plain e" "\<forall>x \<in> set rest. plain (snd x)" "plain r" "plain_case bs el"
    using Cons.prems(2) b by (simp_all add: plain_case_def plain_cond_def)
  have ts: "ts = (pre @ [?W]) @ tokens e @ join_tokens rest @ ?T # tokens r @ ?tail"
  proof -
    have "when_tokens b = ?W # tokens e @ join_tokens rest @ ?T # tokens r"
      by (simp add: b when_tokens_def cond_tokens_def)
    with Cons.prems(1) show ?thesis by simp
  qed
  have clen: "length ?c = length (tokens e) + length (join_tokens rest)"
    by (simp add: cond_tokens_def)
  let ?is = "[length pre + 1..<length pre + 1 + length ?c + 1]"
  let ?run = "case_condition row sch ?op offs ?is (operand_of sl) p"
  have dec: "decides row sch offs ?run (cond_value row sch offs e rest)"
    using condition_decides [OF ts plain(1,2) Cons.prems(3), of p]
    by (simp add: clen add.assoc del: upt_Suc)
  have res: "case_result row sch ?op offs [''WHEN'', ''ELSE'', ''END''] (length pre + 1 + length ?c + 1) =
      eval_expr row sch offs r"
  proof -
    obtain ty w post' where tl: "?tail = (ty, w) # post'" "w \<in> set [''WHEN'', ''ELSE'', ''END'']"
      using after_branch by blast
    have "ts = (pre @ ?W # ?c @ [?T]) @ tokens r @ (ty, w) # post'"
      using ts tl(1) by (simp add: cond_tokens_def)
    from case_result_eval [OF this plain(3) stops_reserved(1) tl(2), of row sch offs]
    show ?thesis by simp
  qed
  have IH: "value_of (case_branches row sch ?op offs
        (when_positions (length pre + length (when_tokens b)) bs)
        (Some (length pre + length (concat (map when_tokens (b # bs))))) (operand_of sl') p') =
      value_of (case_value row sch offs bs el)" if "runs row sch offs sl'" for sl' p'
    using Cons.IH [of "pre @ when_tokens b" sl' p'] Cons.prems(1) plain(4) that
    by (simp add: add.assoc)
  have pos: "when_positions (length pre) (b # bs) = (length pre, length pre + 1 + length ?c)
      # when_positions (length pre + length (when_tokens b)) bs" by (simp add: b)
  have cv: "case_value row sch offs (b # bs) el = bind_exec (cond_value row sch offs e rest)
      (\<lambda>x. if x then eval_expr row sch offs r else case_value row sch offs bs el)" by (simp add: b)
  show ?case
    unfolding pos cv case_branches.simps
    using dec IH res
    by (auto simp: decides_def value_of_bind simp del: upt_Suc
        split: option.splits Option.bind_splits if_splits)
qed

text \<open>
  C25: the \<^verbatim>\<open>CASE\<close> operation returns the result of the first branch whose condition holds, and
  the \<^verbatim>\<open>ELSE\<close> result when none does, for any number of branches with any mixture of
  \<^verbatim>\<open>AND\<close> and \<^verbatim>\<open>OR\<close>, provided that no column or literal is spelled like one of its key words.
\<close>

theorem case_operation_is_case_value:
  assumes "plain_case bs el"
  shows "value_of (calcul_case_operation row sch (operand_of (case_tokens bs el)) offs) =
    value_of (case_value row sch offs bs el)"
proof -
  let ?ts = "case_tokens bs el"
  let ?m = "1 + length (concat (map when_tokens bs))"
  obtain w' where sc: "scan ?ts 0 (length ?ts) (None, [], None) = ret (w', when_positions 1 bs, Some ?m)"
    using scan_case [OF assms refl] by blast
  have ts: "?ts = [(V_OPERATOR, ''CASE'')] @ concat (map when_tokens bs)
      @ (V_OPERATOR, ''ELSE'') # tokens el @ [(V_OPERATOR, ''END'')]"
    by (simp add: case_tokens_def)
  have vs: "values (operand_of ?ts) = map snd ?ts" by (simp add: operand_of_def)
  show ?thesis
    using sc case_branches_value [OF ts assms runs_Nil, of row sch offs False]
    by (simp add: calcul_case_operation_def scan_def vs operand_empty_of)
qed

definition demo_case :: "(kcond \<times> kexpr) list" where
  "demo_case =
     [((KOp ''='' (KCol ''note'') (KLit V_STRING ''no''), []), KLit V_INT32 ''1''),
      ((KOp ''='' (KCol ''note'') (KLit V_STRING ''ok''),
        [(True, KOp ''='' (KCol ''id'') (KLit V_INT32 ''7''))]), KLit V_INT32 ''2'')]"

theorem case_operation_is_case_value_witness:
  "value_of (calcul_case_operation (concat demo_cells) demo_schema
      (operand_of (case_tokens demo_case (KLit V_INT32 ''0''))) [0, 4, 11, 14]) =
    value_of (case_value (concat demo_cells) demo_schema [0, 4, 11, 14] demo_case (KLit V_INT32 ''0''))"
  by (rule case_operation_is_case_value)
     (simp add: plain_case_def plain_cond_def plain_def demo_case_def case_words_def)

section \<open>EXTRACT\<close>

lemma date_fields:
  assumes "cell_range (DateCell y m d)"
  shows "tdiv (y * 512 + m * 32 + d) 512 = y"
    and "tdiv (tmod (y * 512 + m * 32 + d) 512) 32 = m"
    and "tmod (tmod (y * 512 + m * 32 + d) 512) 32 = d"
proof -
  have r: "0 \<le> y" "0 \<le> m" "m < 16" "0 \<le> d" "d < 32" using assms by simp_all
  have eq: "y * 512 + m * 32 + d = (m * 32 + d) + y * 512" by simp
  have small: "0 \<le> m * 32 + d" "m * 32 + d < 512" using r by simp_all
  have dv: "(y * 512 + m * 32 + d) div 512 = y"
    unfolding eq using div_pos_pos_trivial [OF small] by simp
  have md: "(y * 512 + m * 32 + d) mod 512 = m * 32 + d"
    unfolding eq using mod_pos_pos_trivial [OF small] by simp
  have dv2: "(m * 32 + d) div 32 = m" and md2: "(m * 32 + d) mod 32 = d"
    using r by simp_all
  have "0 \<le> y * 512 + m * 32 + d" "0 \<le> m * 32 + d" using r by simp_all
  then show "tdiv (y * 512 + m * 32 + d) 512 = y"
    and "tdiv (tmod (y * 512 + m * 32 + d) 512) 32 = m"
    and "tmod (tmod (y * 512 + m * 32 + d) 512) 32 = d"
    using r by (simp_all only: tdiv_nonneg tmod_nonneg dv md dv2 md2 zero_less_numeral)
qed

text \<open>
  \<^verbatim>\<open>EXTRACT\<close> of the year, month or day of a stored date is that field of the date, whatever
  the spelling of the unit in upper and lower case.
\<close>

theorem extract_date_field:
  assumes "is_column sch cells offs name i MySQL_DATE" and "cells ! i = cell_bytes (DateCell y m d)"
    and "cell_range (DateCell y m d)" and "values operand = [f, u, name]"
    and "(convert_to_lowercase u, z) \<in> {(''year'', y), (''month'', m), (''day'', d)}"
  shows "value_of (calcul_extract_operation (concat cells) sch operand offs) =
    Some (kvalue_init\<lparr>kv_type := Some V_INT32, kv_int := Some z\<rparr>)"
proof -
  have "value_of (column_named (concat cells) sch offs name) = Some (cell_meaning (DateCell y m d))"
    using assms(1-3) by (intro column_reads_cell) simp_all
  then show ?thesis using assms(4,5) date_fields [OF assms(3)]
    by (auto simp: calcul_extract_operation_def get_column_value_named value_of_bind Let_def)
qed

theorem extract_date_field_witness:
  "value_of (calcul_extract_operation (concat [cell_bytes (DateCell 1998 9 2)])
      (demo_schema\<lparr>column_type := [MySQL_DATE]\<rparr>)
      \<lparr>types = [V_OPERATOR, V_STRING, V_COLUMN], values = [''EXTRACT'', ''MONTH'', ''id'']\<rparr> [0, 3]) =
    Some (kvalue_init\<lparr>kv_type := Some V_INT32, kv_int := Some 9\<rparr>)"
proof (rule extract_date_field)
  show "is_column (demo_schema\<lparr>column_type := [MySQL_DATE]\<rparr>) [cell_bytes (DateCell 1998 9 2)] [0, 3]
      ''id'' 0 MySQL_DATE"
    by (simp add: is_column_def layout_def demo_schema_def column_index_def)
  have "convert_to_lowercase ''MONTH'' = ''month''" by code_simp
  then show "(convert_to_lowercase ''MONTH'', 9 :: int) \<in> {(''year'', 1998), (''month'', 9), (''day'', 2)}"
    by simp
qed simp_all

section \<open>Where the value is lost\<close>

text \<open>
  A decimal literal is converted to hundredths through a \<^verbatim>\<open>double\<close> that is truncated, so
  the literals 0.29, 0.57 and 0.58 become 28, 56 and 57 hundredths, while 0.07 stays 7.
\<close>

theorem decimal_literal_truncated:
  "map (\<lambda>v. Option.bind (value_of (get_literal_value \<lparr>types = [V_DECIMAL], values = [v]\<rparr> 0)) kv_int64)
     [''0.07'', ''0.29'', ''0.57'', ''0.58''] = [Some 7, Some 28, Some 56, Some 57]"
  by code_simp

lemma pow100_0 [simp]: "pow100 0 = ret 1"
  by (simp add: pow100_def int32_ok_def)

text \<open>
  The sum of two decimal columns keeps the hundredths but not the scale. Written to the
  result it occupies six bytes instead of seven and reads as one hundred times the sum.
\<close>

theorem decimal_sum_loses_scale:
  assumes "0 \<le> a" "0 \<le> b" "a + b < 2 ^ 47" and "0 \<le> off" "off + 6 \<le> int (length dest)"
  shows "bind_exec (calcul_plus_operation (cell_meaning (DecimalCell a)) (cell_meaning (DecimalCell b)))
      (\<lambda>v. convert_value_to_char dest v off) =
    ret (store_bytes dest (nat off) (take 6 (cell_bytes (DecimalCell (100 * (a + b))))), 6)"
proof -
  let ?s = "a + b"
  let ?x = "xor (word_of_int (?s div 256 ^ 5)) 128 # rev (le_bytes 5 ?s)"
  have s: "0 \<le> ?s" "int64_ok ?s" using assms by (simp_all add: int64_ok_def)
  have x: "take 6 (cell_bytes (DecimalCell (100 * ?s))) = ?x"
    using s by (simp add: decimal_cell_def decimal_abs_eq)
  have y: "(rev (take 6 (le_bytes 8 ?s)))[0 := xor (rev (take 6 (le_bytes 8 ?s)) ! 0) 128] = ?x"
    by (simp add: take_le_bytes rev_le_bytes6)
  have m: "memcpy_into dest off ?x = ret (store_bytes dest (nat off) ?x)"
    using assms by (intro memcpy_into_exact) simp_all
  have dv: "divide64 ?s 1 = ret ?s" using s by (simp add: divide64_def tdiv_nonneg)
  have z: "memcpy_local 0 (le_bytes 4 r) 0 0 = ret []" for r by (simp add: memcpy_local_exact)
  have e: "memcpy_into d (off + 6) [] = ret d" for d
    using assms(4) by (simp add: memcpy_into_def Let_def store_bytes_def)
  have "decimal_to_char dest ?s 0 off = ret (store_bytes dest (nat off) ?x, 6)"
    using s by (simp only: decimal_to_char_def pow100_0 bind_ret dv Let_def y m z e not_less
        if_False refl if_cancel split: if_split) simp
  then show ?thesis unfolding x using s
    by (simp add: calcul_plus_operation_def convert_value_to_char_def kvalue_init_def)
qed

theorem decimal_sum_loses_scale_witness:
  "bind_exec (calcul_plus_operation (cell_meaning (DecimalCell 150)) (cell_meaning (DecimalCell 250)))
      (\<lambda>v. convert_value_to_char (replicate 7 0) v 0) =
    ret (store_bytes (replicate 7 0) (nat 0)
      (take 6 (cell_bytes (DecimalCell (100 * (150 + 250))))), 6)"
  by (rule decimal_sum_loses_scale) simp_all

text \<open>
  Reading a \<^verbatim>\<open>VARCHAR\<close> column whose declared length needs a two-byte prefix goes wrong for
  short contents: the prefix width is guessed from the actual length, so the high byte of the
  length stays in front of the text, and the copy runs over the end of the array.
\<close>

theorem long_varchar_misread:
  assumes "is_column sch cells offs name i MySQL_VARSTRING"
    and "cells ! i = le_bytes 2 (int (length s)) @ bytes_of s" and "length s < 253"
    and "s \<noteq> []" "untrimmed s"
  shows "value_of (column_named (concat cells) sch offs name) =
      Some (kvalue_init\<lparr>kv_string := chr 0 # s, kv_type := Some V_STRING\<rparr>) \<and>
    Overrun 1 \<in> set (faults_of (column_named (concat cells) sch offs name))"
proof -
  let ?lo = "word_of_int (int (length s)) :: byte"
  have cell: "cells ! i = [?lo] @ 0 # bytes_of s"
    using assms(2,3) by (simp add: numeral_eq_Suc)
  have p: "length [?lo] = (if length ([?lo] @ 0 # bytes_of s) < 255 then 1 else 2)"
    using assms(3) by simp
  have "chr 0 \<notin> set trim_chars" by code_simp
  then have "untrimmed (chr 0 # s)" using assms(4,5) by (simp add: untrimmed_def)
  then have "trim (text_of (0 # bytes_of s)) = chr 0 # s"
    using trim_untrimmed [of "chr 0 # s"] by (simp add: text_of_def bytes_of_def comp_def)
  then show ?thesis
    using varstring_cell [OF assms(1) cell p] by simp
qed

theorem long_varchar_misread_witness:
  "value_of (column_named (concat [[2, 0] @ bytes_of ''ab'']) (demo_schema\<lparr>column_type := [MySQL_VARSTRING]\<rparr>)
      [0, 4] ''id'') = Some (kvalue_init\<lparr>kv_string := chr 0 # ''ab'', kv_type := Some V_STRING\<rparr>)"
proof -
  have "untrimmed ''ab''" by code_simp
  then show ?thesis
    using long_varchar_misread [of "demo_schema\<lparr>column_type := [MySQL_VARSTRING]\<rparr>"
        "[[2, 0] @ bytes_of ''ab'']" "[0, 4]" "''id''" 0 "''ab''"]
    by (simp add: is_column_def layout_def demo_schema_def column_index_def numeral_eq_Suc)
qed

end
