(* ===== verification/Monitoring.thy ===== *)
theory Monitoring
  imports Cstd
begin

text \<open>
  The counters of \<^verbatim>\<open>include/monitoring_manager.h\<close> at their widths, and the row counters of
  \<^verbatim>\<open>CSD-Visualizer/main.py\<close> that receive the reports. The manager is a function-local static:
  its members start at zero, also those the constructor does not mention. Every method holds the
  mutex for its whole body, so a method is one step; the two endless senders are modelled by one
  turn of their loop.
\<close>

section \<open>The counters\<close>

record MonitoringManager =
  Current_Working_Block_Count :: "32 word"
  Accumulate_Working_Block_Count :: "64 word"
  T_Accumulate_Working_Block_Count :: "64 word"
  Scanned_Row_Count :: "64 word"
  Filtered_Row_Count :: "64 word"
  T_Working_Id_List :: "int list"

definition MonitoringManager_init :: MonitoringManager where
  "MonitoringManager_init =
     \<lparr>Current_Working_Block_Count = 0, Accumulate_Working_Block_Count = 0,
      T_Accumulate_Working_Block_Count = 0, Scanned_Row_Count = 0, Filtered_Row_Count = 0,
      T_Working_Id_List = []\<rparr>"

definition ULONG_LONG_MAX :: "64 word" where
  "ULONG_LONG_MAX = - 1"

text \<open>The common pattern of the accumulated counters.\<close>

definition accumulate :: "64 word \<Rightarrow> int \<Rightarrow> 64 word" where
  "accumulate acc add_block =
     (if ULONG_LONG_MAX - word_of_int add_block < acc then ULONG_LONG_MAX - acc
      else acc + word_of_int add_block)"

definition t_addBlockCount :: "int \<Rightarrow> MonitoringManager \<Rightarrow> MonitoringManager" where
  "t_addBlockCount add_block s =
     s\<lparr>T_Accumulate_Working_Block_Count := accumulate (T_Accumulate_Working_Block_Count s) add_block\<rparr>"

definition t_addWorkingId :: "int \<Rightarrow> MonitoringManager \<Rightarrow> MonitoringManager" where
  "t_addWorkingId wid s = s\<lparr>T_Working_Id_List := T_Working_Id_List s @ [wid]\<rparr>"

definition t_removeWorkingId :: "int \<Rightarrow> MonitoringManager \<Rightarrow> MonitoringManager" where
  "t_removeWorkingId wid s = s\<lparr>T_Working_Id_List := filter (\<lambda>i. i \<noteq> wid) (T_Working_Id_List s)\<rparr>"

definition addBlockCount :: "int \<Rightarrow> MonitoringManager \<Rightarrow> MonitoringManager" where
  "addBlockCount add_block s =
     s\<lparr>Current_Working_Block_Count := Current_Working_Block_Count s + word_of_int add_block,
       Accumulate_Working_Block_Count := accumulate (Accumulate_Working_Block_Count s) add_block\<rparr>"

definition addScannedRow :: "int \<Rightarrow> MonitoringManager \<Rightarrow> MonitoringManager" where
  "addScannedRow n s = s\<lparr>Scanned_Row_Count := Scanned_Row_Count s + word_of_int n\<rparr>"

definition addFilteredRow :: "int \<Rightarrow> MonitoringManager \<Rightarrow> MonitoringManager" where
  "addFilteredRow n s = s\<lparr>Filtered_Row_Count := Filtered_Row_Count s + word_of_int n\<rparr>"

text \<open>The comparison converts the \<^verbatim>\<open>int\<close> argument to \<^verbatim>\<open>unsigned\<close>.\<close>

definition subtractCurrentBlockCount :: "int \<Rightarrow> MonitoringManager \<Rightarrow> MonitoringManager" where
  "subtractCurrentBlockCount n s =
     (if Current_Working_Block_Count s < word_of_int n
      then s\<lparr>Current_Working_Block_Count := 0\<rparr>
      else s\<lparr>Current_Working_Block_Count := Current_Working_Block_Count s - word_of_int n\<rparr>)"

text \<open>The static getters return \<^verbatim>\<open>unsigned int\<close>, also for the 64-bit counters.\<close>

definition GetCurrentBlockCount :: "MonitoringManager \<Rightarrow> 32 word" where
  "GetCurrentBlockCount s = Current_Working_Block_Count s"

definition GetAccumulateBlockCount :: "MonitoringManager \<Rightarrow> 32 word" where
  "GetAccumulateBlockCount s = ucast (Accumulate_Working_Block_Count s)"

definition T_GetAccumulateBlockCount :: "MonitoringManager \<Rightarrow> 32 word" where
  "T_GetAccumulateBlockCount s = ucast (T_Accumulate_Working_Block_Count s)"

definition T_GetWorkingId :: "MonitoringManager \<Rightarrow> int list" where
  "T_GetWorkingId s = T_Working_Id_List s"

definition quote :: "string \<Rightarrow> string" where
  "quote s = chr 34 # s @ [chr 34]"

fun id_list_text :: "int list \<Rightarrow> string" where
  "id_list_text [] = []"
| "id_list_text [i] = to_string i"
| "id_list_text (i # j # is) = to_string i @ '', '' @ id_list_text (j # is)"

definition T_HandleGetMonitoring :: "MonitoringManager \<Rightarrow> string" where
  "T_HandleGetMonitoring s =
     ''{ '' @ quote ''total_block_count'' @ '': '' @ to_string (uint (T_GetAccumulateBlockCount s))
       @ '', '' @ quote ''working_id_list'' @ '': ''
       @ ''['' @ id_list_text (T_GetWorkingId s) @ '']'' @ '' }''"

definition HandleGetBlockCount :: "MonitoringManager \<Rightarrow> string" where
  "HandleGetBlockCount s =
     ''{ '' @ quote ''current_block_count'' @ '': '' @ to_string (uint (GetCurrentBlockCount s))
       @ '', '' @ quote ''accumulate_block_count'' @ '': ''
       @ to_string (uint (GetAccumulateBlockCount s)) @ '' }''"

text \<open>One turn of a sender: the request path, and the counter reset whatever the answer.\<close>

definition sendScannedRowCount :: "MonitoringManager \<Rightarrow> string \<times> MonitoringManager" where
  "sendScannedRowCount s =
     (''/scan?value='' @ to_string (uint (Scanned_Row_Count s)), s\<lparr>Scanned_Row_Count := 0\<rparr>)"

definition sendFilteredRowCount :: "MonitoringManager \<Rightarrow> string \<times> MonitoringManager" where
  "sendFilteredRowCount s =
     (''/filter?value='' @ to_string (uint (Filtered_Row_Count s)), s\<lparr>Filtered_Row_Count := 0\<rparr>)"

section \<open>The visualizer\<close>

record Visualizer =
  scan_count :: int
  filter_count :: int
  update_queue :: "string list"

definition Visualizer_init :: Visualizer where
  "Visualizer_init = \<lparr>scan_count = 0, filter_count = 0, update_queue = []\<rparr>"

text \<open>
  \<^verbatim>\<open>parse_qs(urlparse(path).query).get('value', [None])[0]\<close>: the query is what follows the first
  question mark up to a fragment, its fields are separated by ampersands, a field without an
  equals sign or with a blank value is dropped. Percent escapes and plus signs are outside the
  model.
\<close>

definition query_of :: "string \<Rightarrow> string" where
  "query_of path =
     tl (dropWhile (\<lambda>c. c \<noteq> CHR ''?'') (takeWhile (\<lambda>c. c \<noteq> CHR ''#'') path))"

definition field_value :: "string \<Rightarrow> string \<Rightarrow> string option" where
  "field_value name f =
     (if takeWhile (\<lambda>c. c \<noteq> CHR ''='') f = name \<and> CHR ''='' \<in> set f
         \<and> tl (dropWhile (\<lambda>c. c \<noteq> CHR ''='') f) \<noteq> []
      then Some (tl (dropWhile (\<lambda>c. c \<noteq> CHR ''='') f)) else None)"

definition query_value :: "string \<Rightarrow> string option exec" where
  "query_value path =
     (let q = query_of path in
      if CHR ''%'' \<in> set q \<or> CHR ''+'' \<in> set q then Abort NotModelled
      else ret (case List.map_filter (field_value ''value'') (getlines (CHR ''&'') q) of
                  [] \<Rightarrow> None | v # _ \<Rightarrow> Some v))"

definition starts :: "string \<Rightarrow> string \<Rightarrow> bool" where
  "starts p s = (take (length p) s = p)"

definition digits_value :: "string option \<Rightarrow> int" where
  "digits_value v =
     (case v of Some ds \<Rightarrow> if ds \<noteq> [] \<and> list_all is_digit ds then int (dec_val ds 0) else 0
      | None \<Rightarrow> 0)"

definition do_GET :: "string \<Rightarrow> Visualizer \<Rightarrow> (Visualizer \<times> int option) exec" where
  "do_GET path v =
     bind_exec (query_value path) (\<lambda>q.
     if starts ''/scan'' path then
       ret (v\<lparr>scan_count := scan_count v + digits_value q,
              update_queue := update_queue v @ [''scan'']\<rparr>, None)
     else if starts ''/filter'' path then
       ret (v\<lparr>filter_count := filter_count v + digits_value q,
              update_queue := update_queue v @ [''filter'']\<rparr>, None)
     else ret (v, Some 404))"

section \<open>What the counters count\<close>

lemma uint_add_64:
  assumes "0 \<le> n" and "uint (a :: 64 word) + n < 2 ^ 64"
  shows "uint (a + word_of_int n) = uint a + n"
proof -
  have "n < 2 ^ 64" using assms(2) uint_ge_0 [of a] by linarith
  with assms show ?thesis
    by (simp add: uint_word_arith_bintrs take_bit_eq_mod uint_word_of_int)
qed

lemma uint_MAX_minus: "uint (ULONG_LONG_MAX - w) = 2 ^ 64 - 1 - uint w"
proof -
  have m: "uint ULONG_LONG_MAX = 2 ^ 64 - 1"
    by (simp add: ULONG_LONG_MAX_def unsigned_minus_1_eq_mask mask_eq_exp_minus_1)
  have "uint w < 2 ^ 64" using uint_bounded [of w] by simp
  then have "uint w \<le> uint ULONG_LONG_MAX" using m by simp
  then have "uint (ULONG_LONG_MAX - w) = uint ULONG_LONG_MAX - uint w"
    by (simp only: uint_sub_lem)
  then show ?thesis using m by simp
qed

lemma uint_of_int_64: "0 \<le> n \<Longrightarrow> n < 2 ^ 64 \<Longrightarrow> uint (word_of_int n :: 64 word) = n"
  by (simp add: uint_word_of_int)

lemma accumulate_fits:
  assumes "0 \<le> n" and "uint acc + n < 2 ^ 64"
  shows "uint (accumulate acc n) = uint acc + n"
proof -
  have n: "n < 2 ^ 64" using assms(2) uint_ge_0 [of acc] by linarith
  have "uint (ULONG_LONG_MAX - word_of_int n) = 2 ^ 64 - 1 - n"
    using assms(1) n by (simp only: uint_MAX_minus uint_of_int_64)
  then have "\<not> ULONG_LONG_MAX - word_of_int n < acc"
    using assms(2) by (simp add: word_less_def)
  then show ?thesis using assms by (simp add: accumulate_def uint_add_64)
qed

lemma accumulate_overflow:
  assumes "0 \<le> n" "n < 2 ^ 64" and "2 ^ 64 \<le> uint acc + n"
  shows "uint (accumulate acc n) = 2 ^ 64 - 1 - uint acc"
proof -
  have n: "uint (ULONG_LONG_MAX - word_of_int n) = 2 ^ 64 - 1 - n"
    using assms(1,2) by (simp only: uint_MAX_minus uint_of_int_64)
  have "ULONG_LONG_MAX - word_of_int n < acc"
    using assms(3) n by (simp add: word_less_def)
  then show ?thesis by (simp add: accumulate_def uint_MAX_minus)
qed

lemma sum_list_nonneg_int: "\<forall>n \<in> set ns. 0 \<le> n \<Longrightarrow> 0 \<le> sum_list (ns :: int list)"
  by (induction ns) simp_all

lemma accumulate_all:
  assumes "\<forall>n \<in> set ns. 0 \<le> n" and "uint acc + sum_list ns < 2 ^ 64"
  shows "uint (fold (\<lambda>n a. accumulate a n) ns acc) = uint acc + sum_list ns"
  using assms
proof (induction ns arbitrary: acc)
  case (Cons n ns)
  have "0 \<le> sum_list ns" using Cons.prems by (intro sum_list_nonneg_int) simp
  then have "uint (accumulate acc n) = uint acc + n"
    using Cons.prems by (intro accumulate_fits) simp_all
  with Cons show ?case by simp
qed simp

lemma fold_addBlockCount:
  "Accumulate_Working_Block_Count (fold addBlockCount ns s) =
     fold (\<lambda>n a. accumulate a n) ns (Accumulate_Working_Block_Count s)"
  by (induction ns arbitrary: s) (simp_all add: addBlockCount_def)

text \<open>
  The accumulated block counter is the number of blocks ever added, as long as that number
  fits into 64 bits; the block that makes it overflow sets it to the distance from the maximum
  instead of wrapping around or saturating.
\<close>

theorem accumulated_blocks:
  assumes "\<forall>n \<in> set ns. 0 \<le> n" and "sum_list ns < 2 ^ 64" and "0 \<le> n" "n < 2 ^ 31"
  shows "uint (Accumulate_Working_Block_Count (fold addBlockCount (ns @ [n]) MonitoringManager_init)) =
    (if sum_list ns + n < 2 ^ 64 then sum_list ns + n else 2 ^ 64 - 1 - sum_list ns)"
proof -
  have s: "uint (fold (\<lambda>n a. accumulate a n) ns 0) = sum_list ns"
    using accumulate_all [of ns 0] assms(1,2) by simp
  have "Accumulate_Working_Block_Count (fold addBlockCount (ns @ [n]) MonitoringManager_init) =
      accumulate (fold (\<lambda>n a. accumulate a n) ns 0) n"
    using fold_addBlockCount [of "ns @ [n]" MonitoringManager_init]
    by (simp add: MonitoringManager_init_def)
  then show ?thesis
    using accumulate_fits [of n "fold (\<lambda>n a. accumulate a n) ns 0"]
      accumulate_overflow [of n "fold (\<lambda>n a. accumulate a n) ns 0"] assms(3,4) s
    by simp
qed

theorem accumulated_blocks_witness:
  "uint (Accumulate_Working_Block_Count
     (fold addBlockCount ([2 ^ 64 - 3, 1] @ [7]) MonitoringManager_init)) = 1"
  using accumulated_blocks [of "[2 ^ 64 - 3, 1]" 7] by simp

section \<open>Reports\<close>

lemma starts_scan: "starts ''/scan'' (''/scan?value='' @ d)"
  "\<not> starts ''/scan'' (''/filter?value='' @ d)" "starts ''/filter'' (''/filter?value='' @ d)"
  by (simp_all add: starts_def)

lemma digit_chars:
  "is_digit c \<Longrightarrow> c \<noteq> CHR ''#'' \<and> c \<noteq> CHR ''%'' \<and> c \<noteq> CHR ''+'' \<and> c \<noteq> CHR ''&''"
proof -
  have "\<not> is_digit (CHR ''#'')" "\<not> is_digit (CHR ''%'')" "\<not> is_digit (CHR ''+'')"
    "\<not> is_digit (CHR ''&'')" by code_simp+
  then show "is_digit c \<Longrightarrow> c \<noteq> CHR ''#'' \<and> c \<noteq> CHR ''%'' \<and> c \<noteq> CHR ''+'' \<and> c \<noteq> CHR ''&''" by metis
qed

lemma takeWhile_true: "(\<And>c. c \<in> set xs \<Longrightarrow> P c) \<Longrightarrow> takeWhile P xs = xs"
  by (simp add: takeWhile_eq_all_conv)

lemma query_of_report:
  assumes "\<forall>c \<in> set d. is_digit c" and "CHR ''?'' \<notin> set p" "CHR ''#'' \<notin> set p"
  shows "query_of (p @ ''?value='' @ d) = ''value='' @ d"
proof -
  have "takeWhile (\<lambda>c. c \<noteq> CHR ''#'') (p @ ''?value='' @ d) = p @ ''?value='' @ d"
    using assms digit_chars by (intro takeWhile_true) auto
  moreover have "dropWhile (\<lambda>c. c \<noteq> CHR ''?'') (p @ ''?value='' @ d) = ''?value='' @ d"
  proof -
    have "\<And>c. c \<in> set p \<Longrightarrow> c \<noteq> CHR ''?''" using assms(2) by metis
    then show ?thesis by (simp add: dropWhile_append2)
  qed
  ultimately show ?thesis by (simp only: query_of_def append.simps list.sel)
qed

lemma query_value_report:
  assumes "query_of path = ''value='' @ d" and "\<forall>c \<in> set d. is_digit c" and "d \<noteq> []"
  shows "query_value path = ret (Some d)"
proof -
  have no: "CHR ''%'' \<notin> set (''value='' @ d)" "CHR ''+'' \<notin> set (''value='' @ d)"
    "CHR ''&'' \<notin> set (''value='' @ d)"
    using assms(2) digit_chars by auto
  have "getlines (CHR ''&'') (''value='' @ d) = [''value='' @ d]"
    using no(3) by (intro getlines_no_delim) simp_all
  moreover have "field_value ''value'' (''value='' @ d) = Some d"
    using assms(3) by (simp add: field_value_def)
  ultimately show ?thesis using no
    by (simp add: query_value_def assms(1) Let_def map_filter_def del: append.simps)
qed

lemma to_string_nonneg: "0 \<le> z \<Longrightarrow> to_string z = dec_str (nat z)"
  by (simp add: to_string_def)

lemma report_value:
  assumes "0 \<le> z" and "CHR ''?'' \<notin> set p" "CHR ''#'' \<notin> set p"
  shows "query_value (p @ ''?value='' @ to_string z) = ret (Some (dec_str (nat z)))"
  unfolding to_string_nonneg [OF assms(1)]
  using assms(2,3) dec_str_digits
  by (intro query_value_report query_of_report ballI) simp_all

lemma digits_value_dec_str: "digits_value (Some (dec_str n)) = int n"
proof -
  have "list_all is_digit (dec_str n)" using dec_str_digits by (simp add: list_all_iff)
  then show ?thesis by (simp add: digits_value_def dec_val_dec_str)
qed

text \<open>
  The life of the row counters: additions by the scan and filter threads, and reports. A report
  reaches the visualizer or not (\<open>arrives\<close>); the sender resets its counter in both cases.
\<close>

datatype row_event = Scanned int | Filtered int | ReportScan bool | ReportFilter bool

fun row_step ::
  "row_event \<Rightarrow> MonitoringManager \<times> Visualizer \<Rightarrow> (MonitoringManager \<times> Visualizer) exec" where
  "row_step (Scanned n) (s, v) = ret (addScannedRow n s, v)"
| "row_step (Filtered n) (s, v) = ret (addFilteredRow n s, v)"
| "row_step (ReportScan arrives) (s, v) =
     (let (path, s') = sendScannedRowCount s
      in if arrives then bind_exec (do_GET path v) (\<lambda>(v', status). ret (s', v')) else ret (s', v))"
| "row_step (ReportFilter arrives) (s, v) =
     (let (path, s') = sendFilteredRowCount s
      in if arrives then bind_exec (do_GET path v) (\<lambda>(v', status). ret (s', v')) else ret (s', v))"

fun scanned_in :: "row_event list \<Rightarrow> int" where
  "scanned_in [] = 0"
| "scanned_in (Scanned n # es) = n + scanned_in es"
| "scanned_in (_ # es) = scanned_in es"

fun filtered_in :: "row_event list \<Rightarrow> int" where
  "filtered_in [] = 0"
| "filtered_in (Filtered n # es) = n + filtered_in es"
| "filtered_in (_ # es) = filtered_in es"

text \<open>The rows of the reports that do not arrive; \<open>c\<close> rows are counted since the last report.\<close>

fun scan_lost :: "row_event list \<Rightarrow> int \<Rightarrow> int" where
  "scan_lost [] c = 0"
| "scan_lost (Scanned n # es) c = scan_lost es (c + n)"
| "scan_lost (ReportScan arrives # es) c = (if arrives then 0 else c) + scan_lost es 0"
| "scan_lost (_ # es) c = scan_lost es c"

fun filter_lost :: "row_event list \<Rightarrow> int \<Rightarrow> int" where
  "filter_lost [] c = 0"
| "filter_lost (Filtered n # es) c = filter_lost es (c + n)"
| "filter_lost (ReportFilter arrives # es) c = (if arrives then 0 else c) + filter_lost es 0"
| "filter_lost (_ # es) c = filter_lost es c"

lemma none_lost:
  "ReportScan False \<notin> set es \<Longrightarrow> scan_lost es c = 0" "ReportFilter False \<notin> set es \<Longrightarrow> filter_lost es d = 0"
proof -
  show "scan_lost es c = 0" if "ReportScan False \<notin> set es"
    using that by (induction es c rule: scan_lost.induct) auto
  show "filter_lost es d = 0" if "ReportFilter False \<notin> set es"
    using that by (induction es d rule: filter_lost.induct) auto
qed

definition nonneg_event :: "row_event \<Rightarrow> bool" where
  "nonneg_event e = (case e of Scanned n \<Rightarrow> 0 \<le> n | Filtered n \<Rightarrow> 0 \<le> n | _ \<Rightarrow> True)"

lemma do_GET_scan:
  "do_GET (''/scan?value='' @ to_string (uint w)) v =
     ret (v\<lparr>scan_count := scan_count v + uint w, update_queue := update_queue v @ [''scan'']\<rparr>, None)"
proof -
  have "query_value (''/scan'' @ ''?value='' @ to_string (uint w)) = ret (Some (dec_str (nat (uint w))))"
    by (rule report_value) simp_all
  then show ?thesis by (simp add: do_GET_def digits_value_dec_str starts_def)
qed

lemma do_GET_filter:
  "do_GET (''/filter?value='' @ to_string (uint w)) v =
     ret (v\<lparr>filter_count := filter_count v + uint w, update_queue := update_queue v @ [''filter'']\<rparr>, None)"
proof -
  have "query_value (''/filter'' @ ''?value='' @ to_string (uint w)) = ret (Some (dec_str (nat (uint w))))"
    by (rule report_value) simp_all
  then show ?thesis by (simp add: do_GET_def digits_value_dec_str starts_def)
qed

lemma counts_nonneg:
  "list_all nonneg_event es \<Longrightarrow> 0 \<le> scanned_in es \<and> 0 \<le> filtered_in es"
  by (induction es rule: scanned_in.induct) (simp_all add: nonneg_event_def)

lemma rows_conserved:
  assumes "list_all nonneg_event es"
    and "uint (Scanned_Row_Count s) + scanned_in es < 2 ^ 64"
    and "uint (Filtered_Row_Count s) + filtered_in es < 2 ^ 64"
  shows "\<exists>s' v'. fold_exec row_step es (s, v) = ret (s', v') \<and>
    scan_count v' + uint (Scanned_Row_Count s') + scan_lost es (uint (Scanned_Row_Count s)) =
      scan_count v + uint (Scanned_Row_Count s) + scanned_in es \<and>
    filter_count v' + uint (Filtered_Row_Count s') + filter_lost es (uint (Filtered_Row_Count s)) =
      filter_count v + uint (Filtered_Row_Count s) + filtered_in es"
  using assms
proof (induction es arbitrary: s v)
  case Nil
  then show ?case by simp
next
  case (Cons e es)
  have es: "list_all nonneg_event es" and e: "nonneg_event e" using Cons.prems(1) by simp_all
  note nn = counts_nonneg [OF es]
  show ?case
  proof (cases e)
    case (Scanned n)
    have "0 \<le> n" using e Scanned by (simp add: nonneg_event_def)
    then have "uint (Scanned_Row_Count s + word_of_int n) = uint (Scanned_Row_Count s) + n"
      using Cons.prems(2) Scanned nn by (intro uint_add_64) simp_all
    then show ?thesis
      using Cons.IH [OF es, of "addScannedRow n s" v] Cons.prems Scanned
      by (simp add: addScannedRow_def add.assoc)
  next
    case (Filtered n)
    have "0 \<le> n" using e Filtered by (simp add: nonneg_event_def)
    then have "uint (Filtered_Row_Count s + word_of_int n) = uint (Filtered_Row_Count s) + n"
      using Cons.prems(3) Filtered nn by (intro uint_add_64) simp_all
    then show ?thesis
      using Cons.IH [OF es, of "addFilteredRow n s" v] Cons.prems Filtered
      by (simp add: addFilteredRow_def add.assoc)
  next
    case (ReportScan arrives)
    let ?v = "if arrives then v\<lparr>scan_count := scan_count v + uint (Scanned_Row_Count s),
      update_queue := update_queue v @ [''scan'']\<rparr> else v"
    have step: "row_step (ReportScan arrives) (s, v) = ret (s\<lparr>Scanned_Row_Count := 0\<rparr>, ?v)"
      by (simp only: row_step.simps sendScannedRowCount_def Let_def prod.case do_GET_scan bind_ret split: if_split) simp
    have "scanned_in (e # es) = scanned_in es" "filtered_in (e # es) = filtered_in es"
      by (simp_all add: ReportScan)
    then have "scanned_in es < 2 ^ 64" "filtered_in es < 2 ^ 64"
      using Cons.prems(2,3) uint_ge_0 [of "Scanned_Row_Count s"] uint_ge_0 [of "Filtered_Row_Count s"]
      by linarith+
    then obtain s' v' where "fold_exec row_step es (s\<lparr>Scanned_Row_Count := 0\<rparr>, ?v) = ret (s', v') \<and>
        scan_count v' + uint (Scanned_Row_Count s') + scan_lost es (uint (Scanned_Row_Count (s\<lparr>Scanned_Row_Count := 0\<rparr>))) =
          scan_count ?v + uint (Scanned_Row_Count (s\<lparr>Scanned_Row_Count := 0\<rparr>)) + scanned_in es \<and>
        filter_count v' + uint (Filtered_Row_Count s') + filter_lost es (uint (Filtered_Row_Count (s\<lparr>Scanned_Row_Count := 0\<rparr>))) =
          filter_count ?v + uint (Filtered_Row_Count (s\<lparr>Scanned_Row_Count := 0\<rparr>)) + filtered_in es"
      using Cons.IH [OF es, of "s\<lparr>Scanned_Row_Count := 0\<rparr>" ?v] Cons.prems ReportScan by auto
    moreover have "fold_exec row_step (e # es) (s, v) = fold_exec row_step es (s\<lparr>Scanned_Row_Count := 0\<rparr>, ?v)"
      unfolding ReportScan fold_exec.simps step by (rule bind_ret)
    ultimately show ?thesis
      unfolding ReportScan
      by (intro exI [of _ s'] exI [of _ v'], cases arrives) (simp_all del: row_step.simps fold_exec.simps)
  next
    case (ReportFilter arrives)
    let ?v = "if arrives then v\<lparr>filter_count := filter_count v + uint (Filtered_Row_Count s),
      update_queue := update_queue v @ [''filter'']\<rparr> else v"
    have step: "row_step (ReportFilter arrives) (s, v) = ret (s\<lparr>Filtered_Row_Count := 0\<rparr>, ?v)"
      by (simp only: row_step.simps sendFilteredRowCount_def Let_def prod.case do_GET_filter bind_ret split: if_split) simp
    have "scanned_in (e # es) = scanned_in es" "filtered_in (e # es) = filtered_in es"
      by (simp_all add: ReportFilter)
    then have "scanned_in es < 2 ^ 64" "filtered_in es < 2 ^ 64"
      using Cons.prems(2,3) uint_ge_0 [of "Scanned_Row_Count s"] uint_ge_0 [of "Filtered_Row_Count s"]
      by linarith+
    then obtain s' v' where "fold_exec row_step es (s\<lparr>Filtered_Row_Count := 0\<rparr>, ?v) = ret (s', v') \<and>
        scan_count v' + uint (Scanned_Row_Count s') + scan_lost es (uint (Scanned_Row_Count (s\<lparr>Filtered_Row_Count := 0\<rparr>))) =
          scan_count ?v + uint (Scanned_Row_Count (s\<lparr>Filtered_Row_Count := 0\<rparr>)) + scanned_in es \<and>
        filter_count v' + uint (Filtered_Row_Count s') + filter_lost es (uint (Filtered_Row_Count (s\<lparr>Filtered_Row_Count := 0\<rparr>))) =
          filter_count ?v + uint (Filtered_Row_Count (s\<lparr>Filtered_Row_Count := 0\<rparr>)) + filtered_in es"
      using Cons.IH [OF es, of "s\<lparr>Filtered_Row_Count := 0\<rparr>" ?v] Cons.prems ReportFilter by auto
    moreover have "fold_exec row_step (e # es) (s, v) = fold_exec row_step es (s\<lparr>Filtered_Row_Count := 0\<rparr>, ?v)"
      unfolding ReportFilter fold_exec.simps step by (rule bind_ret)
    ultimately show ?thesis
      unfolding ReportFilter
      by (intro exI [of _ s'] exI [of _ v'], cases arrives) (simp_all del: row_step.simps fold_exec.simps)
  qed
qed

text \<open>
  C32: after any interleaving of row additions and reports, what the visualizer shows, what the
  counter still holds and the rows of the reports that did not arrive are together the number of
  rows scanned, and likewise for filtered rows: no row is counted twice, and rows are lost exactly
  with failed reports, whose counter is reset all the same.
\<close>

theorem rows_reported_once:
  assumes "list_all nonneg_event es" and "scanned_in es < 2 ^ 64" "filtered_in es < 2 ^ 64"
  shows "\<exists>s v. fold_exec row_step es (MonitoringManager_init, Visualizer_init) = ret (s, v) \<and>
    scan_count v + uint (Scanned_Row_Count s) + scan_lost es 0 = scanned_in es \<and>
    filter_count v + uint (Filtered_Row_Count s) + filter_lost es 0 = filtered_in es"
  using rows_conserved [OF assms(1), of MonitoringManager_init Visualizer_init] assms(2,3)
  by (simp add: MonitoringManager_init_def Visualizer_init_def)

theorem rows_reported_once_witness:
  "\<exists>s v. fold_exec row_step [Scanned 5, ReportScan True, Scanned 2, ReportScan False, Scanned 4, Filtered 3]
      (MonitoringManager_init, Visualizer_init) = ret (s, v) \<and>
    scan_count v + uint (Scanned_Row_Count s) + 2 = 11 \<and> filter_count v + uint (Filtered_Row_Count s) = 3"
  using rows_reported_once [of "[Scanned 5, ReportScan True, Scanned 2, ReportScan False, Scanned 4, Filtered 3]"]
  by (simp add: nonneg_event_def del: fold_exec.simps row_step.simps)

end
