(* ===== verification/Work_Queue.thy ===== *)
theory Work_Queue
  imports Prelude
begin

text \<open>
  The queue between the layers, \<^verbatim>\<open>WorkQueue<T>\<close> of \<^verbatim>\<open>include/internal_queue.h\<close>: the three
  operations on the queue itself, the interface they promise, and the interleavings of producers
  and consumers around them. Everything a thread does while it holds \<^verbatim>\<open>work_mutex\<close> is one step;
  \<^verbatim>\<open>push_work\<close> unlocks before it notifies, so its notification is a step of its own.
\<close>

section \<open>The operations\<close>

record 'a WorkQueue =
  work :: "'a list"

definition WorkQueue_init :: "'a WorkQueue" where
  "WorkQueue_init = \<lparr>work = []\<rparr>"

text \<open>\<^verbatim>\<open>push_work\<close>: the queue afterwards, and whether the producer has to notify.\<close>

definition push_work :: "'a \<Rightarrow> 'a WorkQueue \<Rightarrow> bool \<times> 'a WorkQueue" where
  "push_work item q = (let was_empty = (work q = []) in (was_empty, q\<lparr>work := work q @ [item]\<rparr>))"

text \<open>
  The body of \<^verbatim>\<open>wait_and_pop\<close> under the lock: with an empty queue the thread goes to sleep on
  the condition variable (\<open>None\<close>), otherwise it takes the front item.
\<close>

definition wait_and_pop :: "'a WorkQueue \<Rightarrow> ('a \<times> 'a WorkQueue) option" where
  "wait_and_pop q = (case work q of [] \<Rightarrow> None | tmp # rest \<Rightarrow> Some (tmp, q\<lparr>work := rest\<rparr>))"

definition queue_length :: "'a WorkQueue \<Rightarrow> int" where
  "queue_length q = int (length (work q))"

text \<open>What the layers rely on: first in, first out, and nothing else touches the content.\<close>

locale fifo_queue =
  fixes empty :: "'q"
    and push :: "'a \<Rightarrow> 'q \<Rightarrow> bool \<times> 'q"
    and pop :: "'q \<Rightarrow> ('a \<times> 'q) option"
    and contents :: "'q \<Rightarrow> 'a list"
  assumes contents_empty: "contents empty = []"
    and contents_push: "contents (snd (push x q)) = contents q @ [x]"
    and push_flag: "fst (push x q) \<longleftrightarrow> contents q = []"
    and pop_None: "pop q = None \<longleftrightarrow> contents q = []"
    and pop_Some: "pop q = Some (x, q') \<Longrightarrow> contents q = x # contents q'"
begin

primrec push_all :: "'a list \<Rightarrow> 'q \<Rightarrow> 'q" where
  "push_all [] q = q"
| "push_all (x # xs) q = push_all xs (snd (push x q))"

primrec pop_n :: "nat \<Rightarrow> 'q \<Rightarrow> 'a list" where
  "pop_n 0 q = []"
| "pop_n (Suc n) q = (case pop q of None \<Rightarrow> [] | Some (x, q') \<Rightarrow> x # pop_n n q')"

lemma contents_push_all: "contents (push_all xs q) = contents q @ xs"
  by (induction xs arbitrary: q) (simp_all add: contents_push)

lemma pop_n_contents: "pop_n n q = take n (contents q)"
proof (induction n arbitrary: q)
  case 0
  show ?case by simp
next
  case (Suc n)
  show ?case
  proof (cases "pop q")
    case None
    then have "contents q = []" by (simp add: pop_None)
    with None show ?thesis by simp
  next
    case (Some p)
    then obtain x q' where p: "pop q = Some (x, q')" by (cases p) simp
    then have "contents q = x # contents q'" by (rule pop_Some)
    with p Suc show ?thesis by simp
  qed
qed

lemma push_all_pop_n: "pop_n (length xs) (push_all xs empty) = xs"
  by (simp add: pop_n_contents contents_push_all contents_empty)

end

interpretation wq: fifo_queue WorkQueue_init push_work wait_and_pop work
  by unfold_locales
    (auto simp: WorkQueue_init_def push_work_def wait_and_pop_def Let_def split: list.splits)

section \<open>Producers and consumers\<close>

datatype 'a consumer =
    Ready          \<comment> \<open>about to take the lock in \<^verbatim>\<open>wait_and_pop\<close>, or woken inside it\<close>
  | Waiting        \<comment> \<open>asleep in \<^verbatim>\<open>work_available.wait\<close>\<close>
  | Busy 'a        \<comment> \<open>working on an item it has popped\<close>

record 'a qsys =
  queue :: "'a WorkQueue"
  consumers :: "'a consumer list"
  notifies :: nat            \<comment> \<open>producers between \<^verbatim>\<open>unlock\<close> and \<^verbatim>\<open>notify_one\<close>\<close>
  pushed :: "'a list"        \<comment> \<open>history of the items pushed\<close>
  popped :: "'a list"        \<comment> \<open>history of the items popped\<close>

definition qsys_init :: "nat \<Rightarrow> 'a qsys" where
  "qsys_init n = \<lparr>queue = WorkQueue_init, consumers = replicate n Ready, notifies = 0,
                  pushed = [], popped = []\<rparr>"

text \<open>
  What the threads do by themselves once an item is in the queue: a pending notification wakes a
  sleeping consumer or nobody, a consumer goes to sleep or takes the front item, and a handler
  returns. No consumer wakes up unless it is notified.
\<close>

inductive qserve :: "'a qsys \<Rightarrow> 'a qsys \<Rightarrow> bool" where
  notify_one: "0 < notifies s \<Longrightarrow> i < length (consumers s) \<Longrightarrow> consumers s ! i = Waiting \<Longrightarrow>
    qserve s (s\<lparr>consumers := (consumers s)[i := Ready], notifies := notifies s - 1\<rparr>)"
| notify_none: "0 < notifies s \<Longrightarrow> Waiting \<notin> set (consumers s) \<Longrightarrow>
    qserve s (s\<lparr>notifies := notifies s - 1\<rparr>)"
| sleep: "i < length (consumers s) \<Longrightarrow> consumers s ! i = Ready \<Longrightarrow>
    wait_and_pop (queue s) = None \<Longrightarrow>
    qserve s (s\<lparr>consumers := (consumers s)[i := Waiting]\<rparr>)"
| take_item: "i < length (consumers s) \<Longrightarrow> consumers s ! i = Ready \<Longrightarrow>
    wait_and_pop (queue s) = Some (x, q) \<Longrightarrow>
    qserve s (s\<lparr>queue := q, consumers := (consumers s)[i := Busy x], popped := popped s @ [x]\<rparr>)"
| finish: "i < length (consumers s) \<Longrightarrow> consumers s ! i = Busy x \<Longrightarrow>
    qserve s (s\<lparr>consumers := (consumers s)[i := Ready]\<rparr>)"

text \<open>
  All that can happen: besides, a producer pushes an item, and \<^verbatim>\<open>work_available.wait\<close> may return
  without a notification.
\<close>

inductive qstep :: "'a qsys \<Rightarrow> 'a qsys \<Rightarrow> bool" where
  push: "push_work x (queue s) = (was_empty, q) \<Longrightarrow>
    qstep s (s\<lparr>queue := q, pushed := pushed s @ [x],
               notifies := notifies s + (if was_empty then 1 else 0)\<rparr>)"
| serve: "qserve s t \<Longrightarrow> qstep s t"
| spurious: "i < length (consumers s) \<Longrightarrow> consumers s ! i = Waiting \<Longrightarrow>
    qstep s (s\<lparr>consumers := (consumers s)[i := Ready]\<rparr>)"

inductive qreach :: "nat \<Rightarrow> 'a qsys \<Rightarrow> bool" for n where
  start: "qreach n (qsys_init n)"
| step: "qreach n s \<Longrightarrow> qstep s t \<Longrightarrow> qreach n t"

text \<open>
  Items leave in the order they came, none is lost or delivered twice; and while an item is
  queued some thread is on its way to it: a producer about to notify, or a consumer that is awake.
\<close>

definition qinv :: "nat \<Rightarrow> 'a qsys \<Rightarrow> bool" where
  "qinv n s \<longleftrightarrow>
     length (consumers s) = n \<and> pushed s = popped s @ work (queue s) \<and>
     (work (queue s) \<noteq> [] \<longrightarrow> 0 < notifies s \<or> (\<exists>c \<in> set (consumers s). c \<noteq> Waiting))"

lemma awake_update: "i < length cs \<Longrightarrow> c \<noteq> Waiting \<Longrightarrow> \<exists>d \<in> set (cs[i := c]). d \<noteq> Waiting"
  by (rule bexI [of _ c]) (simp_all add: set_update_memI)

lemma qserve_inv:
  assumes "qserve s t" and "qinv n s" and "0 < n"
  shows "qinv n t"
  using assms
proof (induction rule: qserve.induct)
  case (notify_one s i)
  then show ?case using awake_update [of i "consumers s" Ready] by (simp add: qinv_def)
next
  case (notify_none s)
  then have "consumers s \<noteq> []" by (auto simp: qinv_def)
  then obtain c where "c \<in> set (consumers s)" by (meson list.set_sel(1))
  with notify_none show ?case by (auto simp: qinv_def)
next
  case (sleep i s)
  then show ?case by (simp add: qinv_def wq.pop_None)
next
  case (take_item i s x q)
  then have "work (queue s) = x # work q" by (simp add: wq.pop_Some)
  with take_item show ?case using awake_update [of i "consumers s" "Busy x"]
    by (simp add: qinv_def)
next
  case (finish i s x)
  then show ?case using awake_update [of i "consumers s" Ready] by (simp add: qinv_def)
qed

lemma qstep_inv:
  assumes "qstep s t" and "qinv n s" and "0 < n"
  shows "qinv n t"
  using assms
proof (induction rule: qstep.induct)
  case (push x s was_empty q)
  then show ?case
    by (auto simp: qinv_def push_work_def Let_def)
next
  case (serve s t)
  then show ?case by (blast intro: qserve_inv)
next
  case (spurious i s)
  then show ?case using awake_update [of i "consumers s" Ready] by (simp add: qinv_def)
qed

lemma qreach_inv:
  assumes "qreach n s" and "0 < n"
  shows "qinv n s"
  using assms
proof (induction rule: qreach.induct)
  case start
  then show ?case by (simp add: qinv_def qsys_init_def WorkQueue_init_def)
next
  case (step s t)
  then show ?case by (blast intro: qstep_inv)
qed

text \<open>
  Serving comes to an end: every step uses up an item, a notification or a stage of a consumer.
\<close>

definition consumer_weight :: "'a consumer \<Rightarrow> nat" where
  "consumer_weight c = (case c of Waiting \<Rightarrow> 0 | Ready \<Rightarrow> 1 | Busy x \<Rightarrow> 2)"

definition serve_bound :: "'a qsys \<Rightarrow> nat" where
  "serve_bound s = 2 * length (work (queue s)) + 2 * notifies s + sum_list (map consumer_weight (consumers s))"

lemma weight_update:
  assumes "i < length cs"
  shows "sum_list (map consumer_weight (cs[i := c])) + consumer_weight (cs ! i) =
    sum_list (map consumer_weight cs) + consumer_weight c"
  using assms
proof (induction cs arbitrary: i)
  case Nil
  then show ?case by simp
next
  case (Cons d cs)
  then show ?case by (cases i) auto
qed

lemma qserve_bound:
  assumes "qserve s t"
  shows "serve_bound t < serve_bound s"
  using assms
proof (induction rule: qserve.induct)
  case (notify_one s i)
  then show ?case using weight_update [of i "consumers s" Ready] by (simp add: serve_bound_def consumer_weight_def)
next
  case (notify_none s)
  then show ?case by (simp add: serve_bound_def)
next
  case (sleep i s)
  then show ?case using weight_update [of i "consumers s" Waiting] by (simp add: serve_bound_def consumer_weight_def)
next
  case (take_item i s x q)
  then have "work (queue s) = x # work q" by (simp add: wq.pop_Some)
  with take_item show ?case
    using weight_update [of i "consumers s" "Busy x"] by (simp add: serve_bound_def consumer_weight_def)
next
  case (finish i s x)
  then show ?case using weight_update [of i "consumers s" Ready] by (simp add: serve_bound_def consumer_weight_def)
qed

lemma qserve_steps:
  assumes "(qserve ^^ k) s t" and "qinv n s" and "0 < n"
  shows "k + serve_bound t \<le> serve_bound s \<and> qinv n t"
  using assms(1)
proof (induction k arbitrary: t)
  case 0
  then show ?case using assms(2) by simp
next
  case (Suc k)
  then obtain u where u: "(qserve ^^ k) s u" "qserve u t" by auto
  then show ?case using Suc.IH [OF u(1)] qserve_bound [OF u(2)] qserve_inv [OF u(2) _ assms(3)] by auto
qed

text \<open>When nothing more can happen every consumer sleeps and no notification is left.\<close>

lemma awake_serves:
  assumes "i < length (consumers s)" and "consumers s ! i \<noteq> Waiting"
  shows "\<exists>t. qserve s t"
proof (cases "consumers s ! i")
  case Ready
  then show ?thesis
    using qserve.sleep [OF assms(1)] qserve.take_item [OF assms(1)] by (cases "wait_and_pop (queue s)") auto
next
  case (Busy x)
  then show ?thesis using qserve.finish [OF assms(1)] by blast
qed (use assms in simp)

lemma stuck_all_waiting:
  assumes "\<nexists>t. qserve s t"
  shows "set (consumers s) \<subseteq> {Waiting}" and "consumers s \<noteq> [] \<Longrightarrow> notifies s = 0"
proof -
  show w: "set (consumers s) \<subseteq> {Waiting}"
    using assms awake_serves by (metis in_set_conv_nth singletonI subsetI)
  assume "consumers s \<noteq> []"
  then have "0 < length (consumers s)" "consumers s ! 0 = Waiting" using w by (auto simp: neq_Nil_conv)
  then show "notifies s = 0" using assms qserve.notify_one [of s 0] by auto
qed

section \<open>Properties\<close>

text \<open>
  C20: whatever the interleaving of producers and consumers, the items popped from a
  \<^verbatim>\<open>WorkQueue\<close> followed by the items still queued are the items pushed, in their order: no
  item is lost, duplicated or overtaken.
\<close>

theorem work_queue_fifo:
  assumes "qreach n s" and "0 < n"
  shows "pushed s = popped s @ work (queue s)"
  using qreach_inv [OF assms] by (simp add: qinv_def)

theorem work_queue_fifo_witness:
  "let t = (qsys_init 2)\<lparr>queue := \<lparr>work = [7 :: int]\<rparr>, pushed := [7], notifies := 1\<rparr>
   in qreach 2 t \<and> pushed t = popped t @ work (queue t)"
proof -
  let ?t = "(qsys_init 2)\<lparr>queue := \<lparr>work = [7 :: int]\<rparr>, pushed := [7], notifies := 1\<rparr>"
  have "qstep (qsys_init 2) ?t"
    using qstep.push [of 7 "qsys_init 2" True "\<lparr>work = [7]\<rparr>"]
    by (simp add: qsys_init_def WorkQueue_init_def push_work_def)
  then have r: "qreach 2 ?t" by (rule qreach.step [OF qreach.start])
  with work_queue_fifo [OF r] show ?thesis by simp
qed

text \<open>
  C21: with at least one consumer a queued item is never stranded, whatever the schedule and although
  no consumer wakes up unless it is notified: from every reachable state, when no more items are
  pushed and handlers return, the threads can make only a bounded number of steps, and they can go
  on until the queue is empty and every consumer waits.
\<close>

theorem work_queue_drains:
  assumes "qreach n s" and "0 < n" and "(qserve ^^ k) s t"
  shows "k \<le> serve_bound s \<and> ((\<exists>u. qserve t u) \<or> work (queue t) = [] \<and> set (consumers t) \<subseteq> {Waiting})"
proof -
  have r: "k + serve_bound t \<le> serve_bound s" "qinv n t"
    using qserve_steps [OF assms(3) qreach_inv [OF assms(1,2)] assms(2)] by simp_all
  have "work (queue t) = [] \<and> set (consumers t) \<subseteq> {Waiting}" if stuck: "\<nexists>u. qserve t u"
  proof -
    have "consumers t \<noteq> []" using r(2) assms(2) by (auto simp: qinv_def)
    then show ?thesis using stuck_all_waiting [OF stuck] r(2) by (auto simp: qinv_def)
  qed
  then show ?thesis using r(1) by auto
qed

theorem work_queue_drains_witness:
  "let s = (qsys_init 1)\<lparr>queue := \<lparr>work = [7 :: int]\<rparr>, consumers := [Waiting], pushed := [7], notifies := 1\<rparr>;
       t = s\<lparr>queue := \<lparr>work = []\<rparr>, consumers := [Waiting], notifies := 0, popped := [7]\<rparr>
   in (qserve ^^ 4) s t \<and> 4 \<le> serve_bound s \<and>
      ((\<exists>u. qserve t u) \<or> work (queue t) = [] \<and> set (consumers t) \<subseteq> {Waiting})"
proof -
  let ?z = "(qsys_init 1 :: int qsys)\<lparr>consumers := [Waiting]\<rparr>"
  let ?s = "?z\<lparr>queue := \<lparr>work = [7 :: int]\<rparr>, pushed := [7], notifies := 1\<rparr>"
  let ?a = "?s\<lparr>consumers := [Ready], notifies := 0\<rparr>"
  let ?b = "?a\<lparr>queue := \<lparr>work = []\<rparr>, consumers := [Busy 7], popped := [7]\<rparr>"
  let ?c = "?b\<lparr>consumers := [Ready]\<rparr>"
  let ?t = "?c\<lparr>consumers := [Waiting]\<rparr>"
  note defs = qsys_init_def WorkQueue_init_def push_work_def wait_and_pop_def
  have "qstep (qsys_init 1) ?z" using qserve.sleep [of 0 "qsys_init 1"] by (intro qstep.serve) (simp add: defs)
  moreover have "qstep ?z ?s" using qstep.push [of 7 ?z True "\<lparr>work = [7]\<rparr>"] by (simp add: defs)
  ultimately have r: "qreach 1 ?s" by (blast intro: qreach.intros)
  have "qserve ?s ?a" using qserve.notify_one [of ?s 0] by (simp add: defs)
  moreover have "qserve ?a ?b" using qserve.take_item [of 0 ?a 7 "\<lparr>work = []\<rparr>"] by (simp add: defs)
  moreover have "qserve ?b ?c" using qserve.finish [of 0 ?b 7] by (simp add: defs)
  moreover have "qserve ?c ?t" using qserve.sleep [of 0 ?c] by (simp add: defs)
  ultimately have run: "(qserve ^^ 4) ?s ?t" by (auto simp: numeral_eq_Suc relcompp_apply)
  show ?thesis using work_queue_drains [OF r _ run] run by (simp add: Let_def qsys_init_def)
qed

text \<open>
  Because \<^verbatim>\<open>push_work\<close> notifies only when the queue was empty, two quick pushes wake one of
  two sleeping consumers only: there is a reachable state in which an item is queued, no
  notification is on its way and a consumer sleeps while the other one is busy.
\<close>

theorem work_queue_sleeping_consumer:
  "\<exists>s :: int qsys. qreach 2 s \<and> work (queue s) \<noteq> [] \<and> notifies s = 0 \<and>
     consumers s = [Busy 1, Waiting]"
proof -
  let ?s1 = "(qsys_init 2 :: int qsys)\<lparr>consumers := [Waiting, Ready]\<rparr>"
  let ?s2 = "?s1\<lparr>consumers := [Waiting, Waiting]\<rparr>"
  let ?s3 = "?s2\<lparr>queue := \<lparr>work = [1]\<rparr>, pushed := [1], notifies := 1\<rparr>"
  let ?s4 = "?s3\<lparr>queue := \<lparr>work = [1, 2]\<rparr>, pushed := [1, 2]\<rparr>"
  let ?s5 = "?s4\<lparr>consumers := [Ready, Waiting], notifies := 0\<rparr>"
  let ?s6 = "?s5\<lparr>queue := \<lparr>work = [2]\<rparr>, consumers := [Busy 1, Waiting], popped := [1]\<rparr>"
  have two: "replicate 2 Ready = [Ready, Ready]" by (simp add: numeral_2_eq_2)
  note defs = qsys_init_def WorkQueue_init_def push_work_def wait_and_pop_def two
  have "qstep (qsys_init 2) ?s1"
    using qserve.sleep [of 0 "qsys_init 2"] by (intro qstep.serve) (simp add: defs)
  then have "qreach 2 ?s1" by (rule qreach.step [OF qreach.start])
  moreover have "qstep ?s1 ?s2" using qserve.sleep [of 1 ?s1] by (intro qstep.serve) (simp add: defs)
  ultimately have "qreach 2 ?s2" by (rule qreach.step)
  moreover have "qstep ?s2 ?s3"
    using qstep.push [of 1 ?s2 True "\<lparr>work = [1]\<rparr>"] by (simp add: defs)
  ultimately have "qreach 2 ?s3" by (rule qreach.step)
  moreover have "qstep ?s3 ?s4"
    using qstep.push [of 2 ?s3 False "\<lparr>work = [1, 2]\<rparr>"] by (simp add: defs)
  ultimately have "qreach 2 ?s4" by (rule qreach.step)
  moreover have "qstep ?s4 ?s5" using qserve.notify_one [of ?s4 0] by (intro qstep.serve) (simp add: defs)
  ultimately have "qreach 2 ?s5" by (rule qreach.step)
  moreover have "qstep ?s5 ?s6"
    using qserve.take_item [of 0 ?s5 1 "\<lparr>work = [2]\<rparr>"] by (intro qstep.serve) (simp add: defs)
  ultimately have "qreach 2 ?s6" by (rule qreach.step)
  moreover have "work (queue ?s6) \<noteq> []" "notifies ?s6 = 0" "consumers ?s6 = [Busy 1, Waiting]"
    by simp_all
  ultimately show ?thesis by blast
qed

end
