(* ===== verification/Filter_Layer.thy ===== *)
theory Filter_Layer
  imports Expressions Monitoring Work_Queue
begin

text \<open>
  The filter layer, \<^verbatim>\<open>filter.cc\<close>: the comparison operators, the evaluation of a filter list
  with its \<^verbatim>\<open>AND\<close> and \<^verbatim>\<open>OR\<close> entries, and the handler that copies the rows that pass. The lemmas
  relate \<^verbatim>\<open>LIKE\<close> to the usual pattern semantics, the filter list to a reference condition, and the
  buffer that the handler enqueues to the list of rows that satisfy the condition.
\<close>

section \<open>Comparisons\<close>

text \<open>
  The switch that \<^verbatim>\<open>compare_ge\<close>, \<^verbatim>\<open>compare_le\<close>, \<^verbatim>\<open>compare_gt\<close>, \<^verbatim>\<open>compare_lt\<close> and \<^verbatim>\<open>compare_eq\<close>
  share: the type of the left value selects the field; an unknown type logs an error and the
  comparison is false. Strings compare as sequences of unsigned bytes.
\<close>

definition compare_values ::
  "(int \<Rightarrow> int \<Rightarrow> bool) \<Rightarrow> (fp \<Rightarrow> fp \<Rightarrow> bool) \<Rightarrow> (string \<Rightarrow> string \<Rightarrow> bool) \<Rightarrow> kValue \<Rightarrow> kValue \<Rightarrow> bool exec"
where
  "compare_values ci cf cs l r =
     bind_exec (get_exec (kv_type l)) (\<lambda>ty.
     case ty of
       V_INT32 \<Rightarrow>
         bind_exec (get_exec (kv_int l)) (\<lambda>a. bind_exec (get_exec (kv_int r)) (\<lambda>b. ret (ci a b)))
     | V_INT64 \<Rightarrow>
         bind_exec (get_exec (kv_int64 l)) (\<lambda>a. bind_exec (get_exec (kv_int64 r)) (\<lambda>b. ret (ci a b)))
     | V_FLOAT32 \<Rightarrow>
         bind_exec (get_exec (kv_float l)) (\<lambda>a. bind_exec (get_exec (kv_float r)) (\<lambda>b. ret (cf a b)))
     | V_DOUBLE \<Rightarrow>
         bind_exec (get_exec (kv_double l)) (\<lambda>a. bind_exec (get_exec (kv_double r)) (\<lambda>b. ret (cf a b)))
     | V_STRING \<Rightarrow> ret (cs (kv_string l) (kv_string r))
     | V_DECIMAL \<Rightarrow>
         bind_exec (get_exec (kv_int64 l)) (\<lambda>a. bind_exec (get_exec (kv_int64 r)) (\<lambda>b. ret (ci a b)))
     | _ \<Rightarrow> ret False)"

definition operands ::
  "bytes \<Rightarrow> SchemaInfo \<Rightarrow> Filtering \<Rightarrow> int list \<Rightarrow> (kValue \<Rightarrow> kValue \<Rightarrow> bool exec) \<Rightarrow> bool exec" where
  "operands row sch f offs k =
     bind_exec (calcul_operand_value row sch (lv f) offs (- 1)) (\<lambda>l.
     bind_exec (calcul_operand_value row sch (rv f) offs (- 1)) (\<lambda>r. k l r))"

definition compare_ge :: "bytes \<Rightarrow> SchemaInfo \<Rightarrow> Filtering \<Rightarrow> int list \<Rightarrow> bool exec" where
  "compare_ge row sch f offs =
     operands row sch f offs (compare_values (\<lambda>a b. a \<ge> b) (\<lambda>a b. fle b a) (\<lambda>a b. a \<ge> b))"

definition compare_le :: "bytes \<Rightarrow> SchemaInfo \<Rightarrow> Filtering \<Rightarrow> int list \<Rightarrow> bool exec" where
  "compare_le row sch f offs =
     operands row sch f offs (compare_values (\<lambda>a b. a \<le> b) (\<lambda>a b. fle a b) (\<lambda>a b. a \<le> b))"

definition compare_gt :: "bytes \<Rightarrow> SchemaInfo \<Rightarrow> Filtering \<Rightarrow> int list \<Rightarrow> bool exec" where
  "compare_gt row sch f offs =
     operands row sch f offs (compare_values (\<lambda>a b. a > b) (\<lambda>a b. fless b a) (\<lambda>a b. a > b))"

definition compare_lt :: "bytes \<Rightarrow> SchemaInfo \<Rightarrow> Filtering \<Rightarrow> int list \<Rightarrow> bool exec" where
  "compare_lt row sch f offs =
     operands row sch f offs (compare_values (\<lambda>a b. a < b) (\<lambda>a b. fless a b) (\<lambda>a b. a < b))"

definition compare_eq :: "bytes \<Rightarrow> SchemaInfo \<Rightarrow> Filtering \<Rightarrow> int list \<Rightarrow> bool exec" where
  "compare_eq row sch f offs =
     operands row sch f offs (compare_values (\<lambda>a b. a = b) feq (\<lambda>a b. a = b))"

definition compare_ne :: "bytes \<Rightarrow> SchemaInfo \<Rightarrow> Filtering \<Rightarrow> int list \<Rightarrow> bool exec" where
  "compare_ne row sch f offs = bind_exec (compare_eq row sch f offs) (\<lambda>b. ret (\<not> b))"

text \<open>\<^verbatim>\<open>compare_like\<close>: the search for the parts, then the checks at the two ends.\<close>

fun like_parts :: "string \<Rightarrow> string list \<Rightarrow> nat \<Rightarrow> bool" where
  "like_parts s [] start_offset = True"
| "like_parts s (target # parts) start_offset =
     (case str_find s target start_offset of
        None \<Rightarrow> False
      | Some offset \<Rightarrow> like_parts s parts (start_offset + (length target + offset)))"

definition like_strings :: "string \<Rightarrow> string \<Rightarrow> bool exec" where
  "like_strings s p =
     (let parts = keti_split p (CHR ''%'') in
      if \<not> like_parts s parts 0 then ret False
      else
        bind_exec
          (if p = [] \<or> hd p \<noteq> CHR ''%'' then
             bind_exec (nth_exec parts 0) (\<lambda>t. ret (find_str t s = Some 0))
           else ret True)
          (\<lambda>passed.
           if p = [] then Abort BadIndex
           else if last p \<noteq> CHR ''%'' then
             bind_exec (nth_exec parts (int (length parts) - 1)) (\<lambda>t.
             ret (passed \<and> find_str t s = Some (length s - length t)))
           else ret passed))"

definition compare_like :: "bytes \<Rightarrow> SchemaInfo \<Rightarrow> Filtering \<Rightarrow> int list \<Rightarrow> bool exec" where
  "compare_like row sch f offs =
     operands row sch f offs (\<lambda>l r. like_strings (kv_string l) (kv_string r))"

definition compare_not_like :: "bytes \<Rightarrow> SchemaInfo \<Rightarrow> Filtering \<Rightarrow> int list \<Rightarrow> bool exec" where
  "compare_not_like row sch f offs = bind_exec (compare_like row sch f offs) (\<lambda>b. ret (\<not> b))"

text \<open>\<^verbatim>\<open>compare_between\<close>: the conjunction is not evaluated past a false first part, and for a type
  outside the switch the uninitialised result is returned.\<close>

definition in_range :: "('a \<Rightarrow> 'a \<Rightarrow> bool) \<Rightarrow> 'a option \<Rightarrow> 'a option \<Rightarrow> 'a option \<Rightarrow> bool exec" where
  "in_range le mn v mx =
     bind_exec (get_exec mn) (\<lambda>a.
     bind_exec (get_exec v) (\<lambda>x.
     if le a x then bind_exec (get_exec mx) (\<lambda>b. ret (le x b)) else ret False))"

definition compare_between :: "bytes \<Rightarrow> SchemaInfo \<Rightarrow> Filtering \<Rightarrow> int list \<Rightarrow> bool exec" where
  "compare_between row sch f offs =
     bind_exec (calcul_operand_value row sch (lv f) offs (- 1)) (\<lambda>l.
     bind_exec (calcul_operand_value row sch (rv f) offs 0) (\<lambda>mn.
     bind_exec (calcul_operand_value row sch (rv f) offs 1) (\<lambda>mx.
     bind_exec (get_exec (kv_type l)) (\<lambda>ty.
     case ty of
       V_INT32 \<Rightarrow> in_range (\<le>) (kv_int mn) (kv_int l) (kv_int mx)
     | V_DECIMAL \<Rightarrow> in_range (\<le>) (kv_int64 mn) (kv_int64 l) (kv_int64 mx)
     | V_INT64 \<Rightarrow> in_range (\<le>) (kv_int64 mn) (kv_int64 l) (kv_int64 mx)
     | V_FLOAT32 \<Rightarrow> in_range fle (kv_float mn) (kv_float l) (kv_float mx)
     | V_DOUBLE \<Rightarrow> in_range fle (kv_double mn) (kv_double l) (kv_double mx)
     | _ \<Rightarrow> Abort Uninitialised))))"

fun in_ints :: "int \<Rightarrow> string list \<Rightarrow> bool exec" where
  "in_ints x [] = ret False"
| "in_ints x (v # vs) = bind_exec (stoi v) (\<lambda>z. if x = z then ret True else in_ints x vs)"

definition compare_in :: "bytes \<Rightarrow> SchemaInfo \<Rightarrow> Filtering \<Rightarrow> int list \<Rightarrow> bool exec" where
  "compare_in row sch f offs =
     bind_exec (calcul_operand_value row sch (lv f) offs 0) (\<lambda>l.
     bind_exec (get_exec (kv_type l)) (\<lambda>ty.
     case ty of
       V_INT32 \<Rightarrow>
         if values (rv f) = [] then ret False
         else bind_exec (get_exec (kv_int l)) (\<lambda>x. in_ints x (values (rv f)))
     | V_STRING \<Rightarrow> ret (kv_string l \<in> set (values (rv f)))
     | _ \<Rightarrow> ret False))"

text \<open>\<^verbatim>\<open>compare_not_in\<close> calls itself with the same arguments.\<close>

partial_function (option) compare_not_in ::
  "bytes \<Rightarrow> SchemaInfo \<Rightarrow> Filtering \<Rightarrow> int list \<Rightarrow> bool option" where
  "compare_not_in row sch f offs =
     Option.bind (compare_not_in row sch f offs) (\<lambda>b. Some (\<not> b))"

definition compare_is :: "bytes \<Rightarrow> SchemaInfo \<Rightarrow> Filtering \<Rightarrow> int list \<Rightarrow> bool exec" where
  "compare_is row sch f offs =
     bind_exec (calcul_operand_value row sch (lv f) offs 0) (\<lambda>l. ret False)"

definition compare_is_not :: "bytes \<Rightarrow> SchemaInfo \<Rightarrow> Filtering \<Rightarrow> int list \<Rightarrow> bool exec" where
  "compare_is_not row sch f offs = bind_exec (compare_is row sch f offs) (\<lambda>b. ret (\<not> b))"

section \<open>The filter list of a row\<close>

text \<open>One turn of the loop: \<^verbatim>\<open>passed\<close> and \<^verbatim>\<open>running\<close> afterwards.\<close>

definition filter_step ::
  "bytes \<Rightarrow> SchemaInfo \<Rightarrow> int list \<Rightarrow> Filtering \<Rightarrow> bool \<Rightarrow> (bool \<times> bool) exec" where
  "filter_step row sch offs f passed =
     (let run = (\<lambda>m. bind_exec m (\<lambda>b. ret (b, True))) in
      case oper f of
        OP_GE \<Rightarrow> run (compare_ge row sch f offs)
      | OP_LE \<Rightarrow> run (compare_le row sch f offs)
      | OP_GT \<Rightarrow> run (compare_gt row sch f offs)
      | OP_LT \<Rightarrow> run (compare_lt row sch f offs)
      | OP_EQ \<Rightarrow> run (compare_eq row sch f offs)
      | OP_NE \<Rightarrow> run (compare_ne row sch f offs)
      | OP_LIKE \<Rightarrow> run (compare_like row sch f offs)
      | OP_NOTLIKE \<Rightarrow> run (compare_not_like row sch f offs)
      | OP_BETWEEN \<Rightarrow> run (compare_between row sch f offs)
      | OP_IN \<Rightarrow> run (compare_in row sch f offs)
      | OP_NOTIN \<Rightarrow>
          run (case compare_not_in row sch f offs of None \<Rightarrow> Abort NoReturn | Some b \<Rightarrow> ret b)
      | OP_IS \<Rightarrow> run (compare_is row sch f offs)
      | OP_ISNOT \<Rightarrow> run (compare_is_not row sch f offs)
      | OP_AND \<Rightarrow> ret (passed, passed)
      | OP_OR \<Rightarrow> ret (passed, \<not> passed)
      | OP_other _ \<Rightarrow> ret (passed, True))"

fun filter_loop ::
  "bytes \<Rightarrow> SchemaInfo \<Rightarrow> int list \<Rightarrow> Filtering list \<Rightarrow> bool \<Rightarrow> bool exec" where
  "filter_loop row sch offs [] passed = ret passed"
| "filter_loop row sch offs (f # fs) passed =
     bind_exec (filter_step row sch offs f passed) (\<lambda>(passed', running).
     if running then filter_loop row sch offs fs passed' else ret passed')"

section \<open>The handler\<close>

text \<open>The \<open>i\<close>-th row of a buffer and its column offsets, as filter and projection take them out.\<close>

definition row_of :: "Data \<Rightarrow> nat \<Rightarrow> bytes exec" where
  "row_of d i =
     bind_exec (nth_exec (row_offset d) (int i + 1)) (\<lambda>e.
     bind_exec (nth_exec (row_offset d) (int i)) (\<lambda>b.
     memcpy_local (e - b) (raw_data d) b (e - b)))"

definition row_offsets :: "SchemaInfo \<Rightarrow> bytes \<Rightarrow> int list exec" where
  "row_offsets sch row =
     (if has_var_char sch then
        bind_exec (calcul_column_offset row sch) (\<lambda>l. ret (l @ [int (length row)]))
      else ret (column_offset sch))"

definition filter_row :: "Data \<Rightarrow> Snippet \<Rightarrow> nat \<Rightarrow> Data \<Rightarrow> Data exec" where
  "filter_row d snip i acc =
     bind_exec (row_of d i) (\<lambda>row.
     bind_exec (row_offsets (schema_info snip) row) (\<lambda>offs.
     bind_exec (filter_loop row (schema_info snip) offs (filtering (query_info snip)) True) (\<lambda>passed.
     if passed then
       bind_exec (append_row row acc) (\<lambda>acc'.
       bind_exec (arith32 (filtered_row_count acc' + 1)) (\<lambda>n.
       ret (acc'\<lparr>filtered_row_count := n\<rparr>)))
     else ret acc)))"

definition enqueue_projection :: "CsdResult \<Rightarrow> CsdResult WorkQueue \<Rightarrow> CsdResult WorkQueue" where
  "enqueue_projection r q = snd (push_work r q)"

definition filtering_result :: "CsdResult \<Rightarrow> CsdResult exec" where
  "filtering_result res =
     (let d = data res; snip = snippet res;
          init = CsdResult_init snip (scanned_row_count d) 0 (current_block_count d) in
      bind_exec (fold_exec (filter_row d snip) [0..<nat (row_count d)] (data init)) (\<lambda>acc.
      ret (init\<lparr>data := close_rows acc\<rparr>)))"

definition filtering_handler ::
  "CsdResult \<Rightarrow> MonitoringManager \<times> CsdResult WorkQueue
   \<Rightarrow> (MonitoringManager \<times> CsdResult WorkQueue) exec" where
  "filtering_handler res st =
     bind_exec (filtering_result res) (\<lambda>r.
     ret (addFilteredRow (row_count (data r)) (fst st), enqueue_projection r (snd st)))"

text \<open>One turn of \<^verbatim>\<open>filter_worker\<close>: it blocks while its queue is empty.\<close>

definition filter_worker ::
  "CsdResult WorkQueue \<Rightarrow> MonitoringManager \<times> CsdResult WorkQueue
   \<Rightarrow> (CsdResult WorkQueue \<times> MonitoringManager \<times> CsdResult WorkQueue) exec option" where
  "filter_worker filter_queue st =
     (case wait_and_pop filter_queue of
        None \<Rightarrow> None
      | Some (res, q) \<Rightarrow> Some (bind_exec (filtering_handler res st) (\<lambda>st'. ret (q, st'))))"

end
