(* ===== verification/Like_Laws.thy ===== *)
theory Like_Laws
  imports Filter_Layer
begin

text \<open>
  \<^verbatim>\<open>LIKE\<close>: the usual meaning of a pattern with \<^verbatim>\<open>%\<close> and \<^verbatim>\<open>_\<close>, that every string the source accepts
  matches, the shapes of patterns for which it decides the match exactly, and patterns for which
  it rejects a matching string.
\<close>

section \<open>Reference meaning\<close>

function like_match :: "string \<Rightarrow> string \<Rightarrow> bool" where
  "like_match [] s = (s = [])"
| "like_match (c # p) s =
     (if c = CHR ''%'' then
        like_match p s \<or> (case s of [] \<Rightarrow> False | _ # s' \<Rightarrow> like_match (c # p) s')
      else (case s of [] \<Rightarrow> False | d # s' \<Rightarrow> (c = CHR ''_'' \<or> c = d) \<and> like_match p s'))"
  by pat_completeness auto
termination by (relation "measure (\<lambda>(p, s). length p + length s)") auto

declare like_match.simps(2) [simp del]

lemma like_any: "like_match p v \<Longrightarrow> like_match (CHR ''%'' # p) (u @ v)"
proof (induction u)
  case Nil
  then show ?case by (simp add: like_match.simps(2))
next
  case (Cons c u)
  then show ?case by (simp add: like_match.simps(2) [of _ _ "c # u @ v"])
qed

lemma like_literal: "CHR ''%'' \<notin> set t \<Longrightarrow> like_match p v \<Longrightarrow> like_match (t @ p) (t @ v)"
  by (induction t) (simp_all add: like_match.simps(2))

section \<open>Parts in order\<close>

text \<open>The parts occur one after the other; \<open>anchored\<close>: the last one ends the string.\<close>

fun in_order :: "bool \<Rightarrow> string list \<Rightarrow> string \<Rightarrow> bool" where
  "in_order anchored [] s = (\<not> anchored \<or> s = [])"
| "in_order anchored (t # ts) s = (\<exists>u v. s = u @ t @ v \<and> in_order anchored ts v)"

definition open_end :: "string \<Rightarrow> bool" where
  "open_end p \<longleftrightarrow> p = [] \<or> last p = CHR ''%''"

lemma keti_split_no: "d \<notin> set t \<Longrightarrow> t \<noteq> [] \<Longrightarrow> keti_split t d = [t]"
  by (simp add: keti_split_def getlines_no_delim)

lemma keti_split_delim:
  "d \<notin> set t \<Longrightarrow> keti_split (t @ d # p) d = (if t = [] then keti_split p d else t # keti_split p d)"
  by (simp add: keti_split_def getlines_delim)

lemma keti_split_Nil: "keti_split [] d = []"
  by (simp add: keti_split_def)

lemma keti_split_first: "keti_split (d # p) d = keti_split p d"
  using keti_split_delim [of d "[]" p] by simp

lemma pattern_cases:
  obtains (empty) "p = []" | (lit) "p \<noteq> []" "CHR ''%'' \<notin> set p"
  | (pct) t q where "p = t @ CHR ''%'' # q" "CHR ''%'' \<notin> set t"
proof (cases "CHR ''%'' \<in> set p")
  case True
  then obtain t q where "p = t @ CHR ''%'' # q" "CHR ''%'' \<notin> set t" by (meson split_list_first)
  then show ?thesis using pct by blast
next
  case False
  then show ?thesis using empty lit by (cases "p = []") auto
qed

lemma in_order_like:
  "in_order (\<not> open_end p) (keti_split p (CHR ''%'')) s \<Longrightarrow> like_match (CHR ''%'' # p) s"
proof (induction p arbitrary: s rule: length_induct)
  case (1 p)
  show ?case
  proof (cases p rule: pattern_cases)
    case empty
    then show ?thesis using like_any [of "[]" "[]" s] by simp
  next
    case lit
    then have "last p \<noteq> CHR ''%''" by (metis last_in_set)
    with lit have "\<not> open_end p" by (simp add: open_end_def)
    with 1(2) lit obtain u where "s = u @ p" by (auto simp: keti_split_no)
    then show ?thesis using like_any like_literal [of p "[]" "[]"] lit by simp
  next
    case (pct t q)
    have opn: "open_end p = open_end q" using pct by (simp add: open_end_def)
    have IH: "in_order (\<not> open_end q) (keti_split q (CHR ''%'')) v \<Longrightarrow> like_match (CHR ''%'' # q) v" for v
      using 1(1) pct by simp
    show ?thesis
    proof (cases "t = []")
      case True
      with 1(2) pct opn IH have "like_match (CHR ''%'' # q) s" by (simp add: keti_split_first)
      then show ?thesis using pct True like_any [of "CHR ''%'' # q" s "[]"] by simp
    next
      case False
      with 1(2) pct opn obtain u v where s: "s = u @ t @ v"
        and v: "in_order (\<not> open_end q) (keti_split q (CHR ''%'')) v"
        by (auto simp: keti_split_delim)
      show ?thesis unfolding s pct(1)
        using like_any [OF like_literal [OF pct(2) IH [OF v]]] by simp
    qed
  qed
qed

lemma in_order_prepend: "in_order a ts v \<Longrightarrow> ts \<noteq> [] \<or> \<not> a \<Longrightarrow> in_order a ts (u @ v)"
  by (cases ts) (auto, metis append.assoc)

section \<open>What the search finds\<close>

lemma find_str_split: "find_str t s = Some i \<Longrightarrow> s = take i s @ t @ drop (i + length t) s"
proof -
  assume "find_str t s = Some i"
  then have "take (length t) (drop i s) = t" by (simp add: find_str_Some_iff)
  then have "drop i s = t @ drop (length t) (drop i s)" by (metis append_take_drop_id)
  then show ?thesis by (metis append_take_drop_id drop_drop add.commute)
qed

lemma find_str_first: "find_str t (u @ t @ v) = Some i \<Longrightarrow> i \<le> length u"
proof (rule ccontr)
  assume f: "find_str t (u @ t @ v) = Some i" and "\<not> i \<le> length u"
  then have "length u < i" by simp
  with f have "take (length t) (drop (length u) (u @ t @ v)) \<noteq> t"
    unfolding find_str_Some_iff by blast
  then show False by simp
qed

lemma str_find_Some:
  assumes "str_find s t k = Some i"
  shows "k \<le> i" and "drop k s = take (i - k) (drop k s) @ t @ drop (i + length t) s"
    and "s = take i s @ t @ drop (i + length t) s"
proof -
  obtain j where j: "find_str t (drop k s) = Some j" "i = k + j" and k: "k \<le> length s"
    using assms by (auto simp: str_find_def split: if_splits)
  show "k \<le> i" using j by simp
  show d: "drop k s = take (i - k) (drop k s) @ t @ drop (i + length t) s"
    using find_str_split [OF j(1)] j(2) by (simp add: add.commute add.left_commute)
  have "take i s = take k s @ take j (drop k s)" using j(2) by (simp add: take_add)
  then show "s = take i s @ t @ drop (i + length t) s"
    using d j(2) by (metis add_diff_cancel_left' append.assoc append_take_drop_id)
qed

lemma skip_back:
  "in_order a ts (drop (k + (length t + i)) s) \<Longrightarrow> ts \<noteq> [] \<or> \<not> a \<Longrightarrow> in_order a ts (drop (i + length t) s)"
proof -
  assume r: "in_order a ts (drop (k + (length t + i)) s)" "ts \<noteq> [] \<or> \<not> a"
  have "drop (i + length t) s = take k (drop (i + length t) s) @ drop (k + (length t + i)) s"
    by (metis add.commute append_take_drop_id drop_drop)
  then show ?thesis using in_order_prepend [OF r, of "take k (drop (i + length t) s)"] by simp
qed

lemma like_parts_in_order: "like_parts s ts k \<Longrightarrow> in_order False ts (drop k s)"
proof (induction ts arbitrary: k)
  case Nil
  then show ?case by simp
next
  case (Cons t ts)
  then obtain i where i: "str_find s t k = Some i" and r: "like_parts s ts (k + (length t + i))"
    by (auto split: option.splits)
  have "in_order False ts (drop (i + length t) s)" using Cons.IH [OF r] by (rule skip_back) simp
  then show ?case using str_find_Some(2) [OF i] by auto
qed

lemma like_parts_anchored:
  assumes "like_parts s ts k" and "ts \<noteq> []"
    and "find_str (last ts) s = Some (length s - length (last ts))"
  shows "in_order True ts (drop k s)"
  using assms
proof (induction ts arbitrary: k)
  case Nil
  then show ?case by simp
next
  case (Cons t ts)
  then obtain i where i: "str_find s t k = Some i" and r: "like_parts s ts (k + (length t + i))"
    by (auto split: option.splits)
  note f = str_find_Some [OF i]
  show ?case
  proof (cases "ts = []")
    case True
    then have "find_str t (take i s @ t @ drop (i + length t) s) = Some (length s - length t)"
      using Cons.prems(3) f(3) by simp
    then have "length s - length t \<le> i" using find_str_first by fastforce
    then have "drop (i + length t) s = []" by simp
    then show ?thesis using True f(2) by auto
  next
    case False
    then have "in_order True ts (drop (k + (length t + i)) s)"
      using Cons.IH [OF r] Cons.prems(3) by simp
    then have "in_order True ts (drop (i + length t) s)" by (rule skip_back) (simp add: False)
    then show ?thesis using f(2) by auto
  qed
qed

lemma split_not_Nil: "\<not> open_end q \<Longrightarrow> keti_split q (CHR ''%'') \<noteq> []"
proof (induction q rule: length_induct)
  case (1 q)
  show ?case
  proof (cases q rule: pattern_cases)
    case empty
    then show ?thesis using 1(2) by (simp add: open_end_def)
  next
    case lit
    then show ?thesis by (simp add: keti_split_no)
  next
    case (pct t r)
    then have "\<not> open_end r" using 1(2) by (auto simp: open_end_def split: if_splits)
    then have "keti_split r (CHR ''%'') \<noteq> []" using 1(1) pct by simp
    then show ?thesis using pct by (simp add: keti_split_delim)
  qed
qed

lemma parts_order:
  assumes "like_parts s (keti_split q (CHR ''%'')) k"
    and "\<not> open_end q \<Longrightarrow> find_str (last (keti_split q (CHR ''%''))) s =
      Some (length s - length (last (keti_split q (CHR ''%''))))"
  shows "in_order (\<not> open_end q) (keti_split q (CHR ''%'')) (drop k s)"
  using like_parts_in_order [OF assms(1)] like_parts_anchored [OF assms(1)] split_not_Nil assms(2)
  by (cases "open_end q") simp_all

section \<open>The decision\<close>

lemma like_strings_True:
  assumes "like_strings s p = ret True" and "parts = keti_split p (CHR ''%'')"
  shows "p \<noteq> []" and "like_parts s parts 0"
    and "hd p \<noteq> CHR ''%'' \<Longrightarrow> find_str (hd parts) s = Some 0"
    and "last p \<noteq> CHR ''%'' \<Longrightarrow> find_str (last parts) s = Some (length s - length (last parts))"
proof -
  show p: "p \<noteq> []"
    using assms by (auto simp: like_strings_def keti_split_def nth_exec_def)
  show l: "like_parts s parts 0"
    using assms by (auto simp: like_strings_def Let_def split: if_splits)
  have nn: "parts \<noteq> []" if "last p \<noteq> CHR ''%'' \<or> hd p \<noteq> CHR ''%''"
    using that assms p l by (auto simp: like_strings_def Let_def nth_exec_def split: if_splits)
  show "find_str (hd parts) s = Some 0" if h: "hd p \<noteq> CHR ''%''"
    using nn [OF disjI2 [OF h]] h assms p l
    by (auto simp: like_strings_def Let_def hd_conv_nth split: if_splits)
  show "find_str (last parts) s = Some (length s - length (last parts))" if h: "last p \<noteq> CHR ''%''"
  proof -
    have n: "parts \<noteq> []" using nn h by blast
    have "nth_exec parts (int (length parts) - 1) = ret (last parts)"
      using n by (cases parts rule: rev_cases) simp_all
    with n h assms p l show ?thesis
      by (auto simp: like_strings_def Let_def split: if_splits)
  qed
qed

lemma like_sound_aux:
  assumes "like_strings s p = ret True"
  shows "like_match p s"
proof -
  note T = like_strings_True [OF assms refl]
  show ?thesis
  proof (cases p rule: pattern_cases)
    case empty
    then show ?thesis using T(1) by simp
  next
    case lit
    then have "hd p \<noteq> CHR ''%''" "last p \<noteq> CHR ''%''" by (metis hd_in_set, metis last_in_set)
    then have "find_str p s = Some 0" "find_str p s = Some (length s - length p)"
      using T(3,4) lit by (simp_all add: keti_split_no)
    then have "length s \<le> length p" "take (length p) s = p" by (simp_all add: find_str_Some_iff)
    then have "s = p" by simp
    then show ?thesis using like_literal [of p "[]" "[]"] lit by simp
  next
    case (pct t q)
    let ?ps = "keti_split q (CHR ''%'')"
    have opn: "\<not> open_end q \<Longrightarrow> last p \<noteq> CHR ''%''" using pct by (auto simp: open_end_def)
    have lst: "last (keti_split p (CHR ''%'')) = last ?ps" if "\<not> open_end q"
      using split_not_Nil [OF that] pct by (simp add: keti_split_delim)
    have fin: "find_str (last ?ps) s = Some (length s - length (last ?ps))" if "\<not> open_end q"
      using T(4) [OF opn [OF that]] lst [OF that] by simp
    show ?thesis
    proof (cases "t = []")
      case True
      then have "like_parts s ?ps 0" using T(2) pct by (simp add: keti_split_first)
      then have "in_order (\<not> open_end q) ?ps s" using parts_order [of s q 0] fin by simp
      then show ?thesis using in_order_like pct True by simp
    next
      case False
      then have "hd p \<noteq> CHR ''%''" using pct by (metis hd_append hd_in_set)
      then have f0: "find_str t s = Some 0" using T(3) pct False by (simp add: keti_split_delim)
      then have "str_find s t 0 = Some 0" by (simp add: str_find_def)
      then have "like_parts s ?ps (length t)" using T(2) pct False by (simp add: keti_split_delim)
      then have "in_order (\<not> open_end q) ?ps (drop (length t) s)"
        using parts_order [of s q "length t"] fin by simp
      then have "like_match (CHR ''%'' # q) (drop (length t) s)" by (rule in_order_like)
      then have "like_match (t @ CHR ''%'' # q) (t @ drop (length t) s)"
        by (rule like_literal [OF pct(2)])
      moreover have "s = t @ drop (length t) s" using find_str_split [OF f0] by simp
      ultimately show ?thesis using pct by simp
    qed
  qed
qed

text \<open>
  C23: \<^verbatim>\<open>LIKE\<close> never accepts a string that does not match the pattern.
\<close>

theorem like_sound:
  assumes "like_strings s p = ret True"
  shows "like_match p s"
  using assms by (rule like_sound_aux)

theorem like_sound_witness: "like_match ''special%requests'' ''special cat requests''"
proof (rule like_sound)
  show "like_strings ''special cat requests'' ''special%requests'' = ret True" by code_simp
qed

section \<open>Patterns with one part\<close>

lemma like_literal_inv:
  assumes "CHR ''%'' \<notin> set t" "CHR ''_'' \<notin> set t" "like_match (t @ p) s"
  shows "\<exists>v. s = t @ v \<and> like_match p v"
  using assms
proof (induction t arbitrary: s)
  case Nil
  then show ?case by simp
next
  case (Cons c t)
  then obtain s' where "s = c # s'" "like_match (t @ p) s'"
    by (auto simp: like_match.simps(2) split: list.splits)
  then show ?case using Cons by auto
qed

lemma like_any_inv: "like_match (CHR ''%'' # p) s \<Longrightarrow> \<exists>u v. s = u @ v \<and> like_match p v"
proof (induction s)
  case Nil
  then show ?case by (simp add: like_match.simps(2))
next
  case (Cons c s)
  then have "like_match p (c # s) \<or> like_match (CHR ''%'' # p) s"
    by (simp add: like_match.simps(2) [of _ _ "c # s"])
  then show ?case
  proof
    assume "like_match p (c # s)"
    then show ?thesis by (metis append_Nil)
  next
    assume "like_match (CHR ''%'' # p) s"
    then obtain u v where "s = u @ v" "like_match p v" using Cons.IH by blast
    then show ?thesis by (metis append_Cons)
  qed
qed

lemma find_str_prefix: "find_str t (t @ v) = Some 0"
  by (simp add: find_str_Some_iff)

lemma find_str_infix: "find_str t (u @ t @ v) \<noteq> None"
  unfolding find_str_None_iff by (auto intro!: exI [of _ "length u"])

lemma like_parts_single: "like_parts s [t] 0 \<longleftrightarrow> find_str t s \<noteq> None"
  by (auto simp: str_find_def split: option.splits)

text \<open>
  C22: for the patterns \<open>x\<close>, \<open>x%\<close> and \<open>%x%\<close> with a literal \<open>x\<close>, \<^verbatim>\<open>LIKE\<close> returns, and decides
  exactly whether the string matches.
\<close>

theorem like_exact:
  assumes "x \<noteq> []" "CHR ''%'' \<notin> set x" "CHR ''_'' \<notin> set x"
    and "p \<in> {x, x @ ''%'', ''%'' @ x @ ''%''}"
  shows "like_strings s p = ret (like_match p s)"
proof -
  have split: "keti_split p (CHR ''%'') = [x]"
    using assms keti_split_delim [of "CHR ''%''" x "[]"] keti_split_no [of "CHR ''%''" x]
    by (auto simp: keti_split_first keti_split_Nil)
  have ends: "hd x \<noteq> CHR ''%''" "last x \<noteq> CHR ''%''" "p \<noteq> []"
    using assms by (metis hd_in_set, metis last_in_set, auto)
  have "\<exists>b. like_strings s p = ret b"
    using split ends by (auto simp: like_strings_def Let_def)
  then obtain b where b: "like_strings s p = ret b" ..
  have "b" if m: "like_match p s"
  proof -
    consider (eq) "p = x" | (pre) "p = x @ ''%''" | (inf) "p = ''%'' @ x @ ''%''"
      using assms(4) by auto
    then show b
    proof cases
      case eq
      then have "s = x" using like_literal_inv [of x "[]" s] assms m by auto
      then show ?thesis using b split eq ends assms(1) find_str_prefix [of x "[]"]
        by (simp add: like_strings_def Let_def like_parts_single del: like_parts.simps)
    next
      case pre
      then obtain v where "s = x @ v" using like_literal_inv [of x "''%''" s] assms m by auto
      then show ?thesis using b split pre ends assms(1) find_str_prefix [of x v]
        by (simp add: like_strings_def Let_def like_parts_single del: like_parts.simps)
    next
      case inf
      then obtain u v where "s = u @ x @ v"
        using like_any_inv [of "x @ ''%''" s] like_literal_inv [of x "''%''"] assms m
        by (metis append.assoc append_Cons append_Nil)
      then show ?thesis using b split inf find_str_infix [of x u v]
        by (simp add: like_strings_def Let_def like_parts_single del: like_parts.simps)
    qed
  qed
  moreover have "like_match p s" if b using b that like_sound_aux by simp
  ultimately show ?thesis using b by auto
qed

theorem like_exact_witness: "like_strings ''dark green tea'' ''%green%'' = ret (like_match ''%green%'' ''dark green tea'')"
  by (rule like_exact [of "''green''"]) simp_all

text \<open>
  \<^verbatim>\<open>LIKE\<close> rejects strings that match: a pattern that must end the string is compared with
  its first occurrence only, and from the third part on the search starts too far to the right.
\<close>

theorem like_incomplete:
  "like_match ''%a'' ''banana'' \<and> like_strings ''banana'' ''%a'' = ret False \<and>
   like_match ''a%b%c'' ''abc'' \<and> like_strings ''abc'' ''a%b%c'' = ret False"
proof (intro conjI)
  show "like_match ''%a'' ''banana''"
    using like_any [of "''a''" "''a''" "''banan''"] like_literal [of "''a''" "[]" "[]"] by simp
  show "like_match ''a%b%c'' ''abc''"
    using like_literal [of "''a''"] like_any [of _ _ "[]"] by (simp add: like_match.simps(2))
  show "like_strings ''banana'' ''%a'' = ret False" by code_simp
  show "like_strings ''abc'' ''a%b%c'' = ret False" by code_simp
qed

end
