(* ===== verification/Filter_Laws.thy ===== *)
theory Filter_Laws
  imports Like_Laws
begin

text \<open>
  What the filter layer keeps: comparisons decide the order of the values, a filter list decides
  its condition, and the buffer handed to the projection layer holds exactly the rows that
  satisfy the condition, in their order, with the counters of the scan.
\<close>

section \<open>Comparisons decide the order of values\<close>

fun same_kind :: "cell_value \<Rightarrow> cell_value \<Rightarrow> bool" where
  "same_kind (IntCell a) (IntCell b) = True"
| "same_kind (LongCell a) (LongCell b) = True"
| "same_kind (DateCell y m d) (DateCell y' m' d') = True"
| "same_kind (DecimalCell a) (DecimalCell b) = True"
| "same_kind (CharCell s n) (CharCell t k) = True"
| "same_kind (VarcharCell s) (VarcharCell t) = True"
| "same_kind (LongVarcharCell s) (LongVarcharCell t) = True"
| "same_kind (ByteCell a) (ByteCell b) = True"
| "same_kind (ShortCell a) (ShortCell b) = True"
| "same_kind _ _ = False"

text \<open>The order of values: dates by year, month and day, strings by their bytes.\<close>

fun cell_le :: "cell_value \<Rightarrow> cell_value \<Rightarrow> bool" where
  "cell_le (IntCell a) (IntCell b) = (a \<le> b)"
| "cell_le (LongCell a) (LongCell b) = (a \<le> b)"
| "cell_le (DateCell y m d) (DateCell y' m' d') =
     (y < y' \<or> y = y' \<and> (m < m' \<or> m = m' \<and> d \<le> d'))"
| "cell_le (DecimalCell a) (DecimalCell b) = (a \<le> b)"
| "cell_le (CharCell s n) (CharCell t k) = (s \<le> t)"
| "cell_le (VarcharCell s) (VarcharCell t) = (s \<le> t)"
| "cell_le (LongVarcharCell s) (LongVarcharCell t) = (s \<le> t)"
| "cell_le (ByteCell a) (ByteCell b) = (a \<le> b)"
| "cell_le (ShortCell a) (ShortCell b) = (a \<le> b)"
| "cell_le _ _ = False"

lemma date_le_iff:
  assumes "cell_range (DateCell y m d)" "cell_range (DateCell y' m' d')"
  shows "y * 512 + m * 32 + d \<le> y' * 512 + m' * 32 + d' \<longleftrightarrow> cell_le (DateCell y m d) (DateCell y' m' d')"
proof -
  have r: "0 \<le> m" "m \<le> 15" "0 \<le> d" "d \<le> 31" "0 \<le> m'" "m' \<le> 15" "0 \<le> d'" "d' \<le> 31"
    using assms by simp_all
  consider "y < y'" | "y' < y" | "y = y'" "m < m'" | "y = y'" "m' < m" | "y = y'" "m = m'" by linarith
  then show ?thesis using r by cases simp_all
qed

text \<open>The three field comparisons that an operator uses, as functions of \<open>\<le>\<close> in both directions.\<close>

lemma compare_values_cells:
  assumes "same_kind a b" "cell_range a" "cell_range b"
    and ci: "\<And>x y. ci x y = F (x \<le> y) (y \<le> x)" and cs: "\<And>x y. cs x y = F (x \<le> y) (y \<le> x)"
  shows "compare_values ci cf cs (cell_meaning a) (cell_meaning b) = ret (F (cell_le a b) (cell_le b a))"
proof (cases "(a, b)" rule: same_kind.cases)
  case (3 y m d y' m' d')
  have r: "cell_range (DateCell y m d)" "cell_range (DateCell y' m' d')" using assms(2,3) 3 by simp_all
  show ?thesis
    using 3 date_le_iff [OF r] date_le_iff [OF r(2,1)]
    by (simp add: compare_values_def ci del: cell_le.simps)
qed (use assms in \<open>simp_all add: compare_values_def\<close>)

lemma operands_value:
  assumes "value_of (calcul_operand_value row sch (lv f) offs (- 1)) = Some l"
    and "value_of (calcul_operand_value row sch (rv f) offs (- 1)) = Some r"
  shows "value_of (operands row sch f offs k) = value_of (k l r)"
  using assms by (simp add: operands_def value_of_bind)

text \<open>
  C24: when both sides of a comparison evaluate to values of one column type, the six operators
  decide the order of the values: numbers as numbers, dates by the calendar, strings by bytes.
\<close>

theorem comparisons_decide_order:
  assumes "value_of (calcul_operand_value row sch (lv f) offs (- 1)) = Some (cell_meaning a)"
    and "value_of (calcul_operand_value row sch (rv f) offs (- 1)) = Some (cell_meaning b)"
    and "same_kind a b" "cell_range a" "cell_range b"
  shows "value_of (compare_le row sch f offs) = Some (cell_le a b) \<and>
    value_of (compare_ge row sch f offs) = Some (cell_le b a) \<and>
    value_of (compare_lt row sch f offs) = Some (\<not> cell_le b a) \<and>
    value_of (compare_gt row sch f offs) = Some (\<not> cell_le a b) \<and>
    value_of (compare_eq row sch f offs) = Some (cell_le a b \<and> cell_le b a) \<and>
    value_of (compare_ne row sch f offs) = Some (\<not> (cell_le a b \<and> cell_le b a))"
proof -
  note ov = operands_value [OF assms(1,2)]
  note cv = compare_values_cells [OF assms(3-5)]
  have "value_of (compare_le row sch f offs) = Some (cell_le a b)"
    using cv [of "(\<le>)" "\<lambda>x y. x" "(\<le>)" fle] by (simp add: compare_le_def ov)
  moreover have "value_of (compare_ge row sch f offs) = Some (cell_le b a)"
    using cv [of "\<lambda>x y. y \<le> x" "\<lambda>x y. y" "\<lambda>x y. y \<le> x" "\<lambda>a b. fle b a"] by (simp add: compare_ge_def ov)
  moreover have "value_of (compare_lt row sch f offs) = Some (\<not> cell_le b a)"
    using cv [of "\<lambda>x y. x < y" "\<lambda>x y. \<not> y" "\<lambda>x y. x < y" "fless"]
    by (simp add: compare_lt_def ov not_le)
  moreover have "value_of (compare_gt row sch f offs) = Some (\<not> cell_le a b)"
    using cv [of "\<lambda>x y. y < x" "\<lambda>x y. \<not> x" "\<lambda>x y. y < x" "\<lambda>a b. fless b a"]
    by (simp add: compare_gt_def ov not_le)
  moreover have eq: "value_of (compare_eq row sch f offs) = Some (cell_le a b \<and> cell_le b a)"
    using cv [of "(=)" "\<lambda>x y. x \<and> y" "(=)" feq, OF order_eq_iff order_eq_iff]
    by (simp add: compare_eq_def ov)
  moreover have "value_of (compare_ne row sch f offs) = Some (\<not> (cell_le a b \<and> cell_le b a))"
    using eq by (simp add: compare_ne_def value_of_bind)
  ultimately show ?thesis by blast
qed

definition demo_filter :: "KETI_OPER_TYPE \<Rightarrow> string \<Rightarrow> Filtering" where
  "demo_filter c v = \<lparr>lv = column_operand ''id'', oper = c, rv = \<lparr>types = [V_INT32], values = [v]\<rparr>\<rparr>"

lemma demo_filter_operands:
  "value_of (calcul_operand_value (concat demo_cells) demo_schema (lv (demo_filter c v)) [0, 4, 11, 14] (- 1)) =
     Some (cell_meaning (IntCell 7))"
  "stoi v = ret z \<Longrightarrow>
   value_of (calcul_operand_value (concat demo_cells) demo_schema (rv (demo_filter c v)) [0, 4, 11, 14] (- 1)) =
     Some (cell_meaning (IntCell z))"
proof -
  have "value_of (column_named (concat demo_cells) demo_schema [0, 4, 11, 14] ''id'') =
      Some (cell_meaning (IntCell 7))"
    by (rule column_reads_cell [where i = 0])
       (simp_all add: is_column_def layout_def demo_cells_def demo_schema_def column_index_def
         bytes_of_def int32_ok_def)
  then show "value_of (calcul_operand_value (concat demo_cells) demo_schema (lv (demo_filter c v))
      [0, 4, 11, 14] (- 1)) = Some (cell_meaning (IntCell 7))"
    by (simp add: demo_filter_def calcul_operand_value_def column_operand_def column_named_def)
  show "stoi v = ret z \<Longrightarrow>
   value_of (calcul_operand_value (concat demo_cells) demo_schema (rv (demo_filter c v)) [0, 4, 11, 14] (- 1)) =
     Some (cell_meaning (IntCell z))"
    by (simp add: demo_filter_def calcul_operand_value_def get_literal_value_def)
qed

lemma stoi_9: "stoi ''9'' = ret 9"
  by code_simp

theorem comparisons_decide_order_witness:
  "value_of (compare_lt (concat demo_cells) demo_schema (demo_filter OP_LT ''9'') [0, 4, 11, 14]) = Some True"
  using comparisons_decide_order [OF demo_filter_operands(1) demo_filter_operands(2) [OF stoi_9],
      of OP_LT]
  by (simp add: int32_ok_def)

section \<open>Operators without a result\<close>

lemma compare_not_in_diverges: "compare_not_in row sch f offs = None"
proof -
  have "False" if "compare_not_in row sch f offs = Some b" for b
    by (rule compare_not_in.raw_induct [where P = "\<lambda>_ _ _ _ _. False", OF _ that])
       (auto simp: bind_eq_Some_conv)
  then show ?thesis by (cases "compare_not_in row sch f offs") auto
qed

text \<open>
  C35: a filter with \<^verbatim>\<open>NOT IN\<close> that is reached never returns: the operator calls itself with the
  same arguments instead of negating \<^verbatim>\<open>IN\<close>.
\<close>

theorem not_in_never_returns:
  assumes "oper f = OP_NOTIN"
  shows "filter_loop row sch offs (f # fs) passed = Abort NoReturn"
  using assms by (simp add: filter_step_def compare_not_in_diverges)

theorem not_in_never_returns_witness:
  "filter_loop (concat demo_cells) demo_schema [0, 4, 11, 14] [demo_filter OP_NOTIN ''9''] True = Abort NoReturn"
  by (rule not_in_never_returns) (simp add: demo_filter_def)

section \<open>Filter lists\<close>

definition comparison :: "Filtering \<Rightarrow> bool" where
  "comparison f \<longleftrightarrow> oper f \<noteq> OP_AND \<and> oper f \<noteq> OP_OR \<and> (\<forall>n. oper f \<noteq> OP_other n)"

definition comparison_value :: "bytes \<Rightarrow> SchemaInfo \<Rightarrow> int list \<Rightarrow> Filtering \<Rightarrow> bool exec" where
  "comparison_value row sch offs f = bind_exec (filter_step row sch offs f True) (\<lambda>(b, _). ret b)"

lemma filter_step_comparison:
  "comparison f \<Longrightarrow>
   filter_step row sch offs f passed = bind_exec (comparison_value row sch offs f) (\<lambda>b. ret (b, True))"
  by (cases "oper f") (simp_all add: comparison_value_def comparison_def filter_step_def bind_assoc)

definition connective :: "bool \<Rightarrow> Filtering" where
  "connective isand = \<lparr>lv = operand_empty, oper = (if isand then OP_AND else OP_OR), rv = operand_empty\<rparr>"

fun chain :: "Filtering \<Rightarrow> (bool \<times> Filtering) list \<Rightarrow> Filtering list" where
  "chain f [] = [f]"
| "chain f ((isand, f') # rest) = f # connective isand # chain f' rest"

fun chain_value ::
  "bytes \<Rightarrow> SchemaInfo \<Rightarrow> int list \<Rightarrow> Filtering \<Rightarrow> (bool \<times> Filtering) list \<Rightarrow> bool exec" where
  "chain_value row sch offs f [] = comparison_value row sch offs f"
| "chain_value row sch offs f ((isand, f') # rest) =
     bind_exec (comparison_value row sch offs f) (\<lambda>b.
     if b = isand then chain_value row sch offs f' rest else ret b)"

lemma filter_loop_chain:
  assumes "comparison f" and "\<forall>x \<in> set rest. comparison (snd x)"
  shows "filter_loop row sch offs (chain f rest) p = chain_value row sch offs f rest"
  using assms
proof (induction rest arbitrary: f p)
  case Nil
  then show ?case by (simp add: filter_step_comparison bind_assoc)
next
  case (Cons x rest)
  obtain isand f' where x: "x = (isand, f')" by fastforce
  have conn: "filter_step row sch offs (connective isand) b = ret (b, b = isand)" for b
    by (cases isand) (auto simp: connective_def filter_step_def)
  have "filter_loop row sch offs (chain f' rest) b = chain_value row sch offs f' rest" for b
    using Cons x by simp
  then show ?case
    using Cons.prems x
    by (simp add: filter_step_comparison bind_assoc conn cong: bind_exec_cong if_cong)
qed

lemma chain_value_all:
  assumes "comparison_value row sch offs f = ret (v f)"
    and "\<forall>x \<in> set rest. fst x = isand \<and> comparison_value row sch offs (snd x) = ret (v (snd x))"
  shows "chain_value row sch offs f rest =
    ret (if isand then \<forall>g \<in> insert f (snd ` set rest). v g else \<exists>g \<in> insert f (snd ` set rest). v g)"
  using assms
proof (induction rest arbitrary: f)
  case Nil
  then show ?case by simp
next
  case (Cons x rest)
  then have "fst x = isand" "comparison_value row sch offs (snd x) = ret (v (snd x))" by simp_all
  with Cons show ?case by (cases x) auto
qed

text \<open>
  C6: the loop over a filter list evaluates the condition that the list spells, comparison by
  comparison, and stops where the outcome is decided; a list joined by \<^verbatim>\<open>AND\<close> alone passes a row
  exactly when every comparison holds, one joined by \<^verbatim>\<open>OR\<close> alone exactly when some comparison
  holds.
\<close>

theorem filter_list_decides:
  assumes "comparison f" and "\<forall>x \<in> set rest. comparison (snd x)"
  shows "filter_loop row sch offs (chain f rest) True = chain_value row sch offs f rest \<and>
    (\<forall>isand v. comparison_value row sch offs f = ret (v f) \<longrightarrow>
       (\<forall>x \<in> set rest. fst x = isand \<and> comparison_value row sch offs (snd x) = ret (v (snd x))) \<longrightarrow>
       filter_loop row sch offs (chain f rest) True =
         ret (if isand then \<forall>g \<in> insert f (snd ` set rest). v g
              else \<exists>g \<in> insert f (snd ` set rest). v g))"
  using filter_loop_chain [OF assms] chain_value_all by simp

theorem filter_list_decides_witness:
  "filter_loop (concat demo_cells) demo_schema [0, 4, 11, 14]
      (chain (demo_filter OP_LT ''9'') [(True, demo_filter OP_GT ''9'')]) True =
    chain_value (concat demo_cells) demo_schema [0, 4, 11, 14]
      (demo_filter OP_LT ''9'') [(True, demo_filter OP_GT ''9'')]"
proof -
  have c: "comparison (demo_filter OP_LT ''9'')"
    "\<forall>x \<in> set [(True, demo_filter OP_GT ''9'')]. comparison (snd x)"
    by (simp_all add: comparison_def demo_filter_def)
  show ?thesis using filter_list_decides [OF c] by blast
qed

section \<open>The rows that pass\<close>

lemma row_of_closed:
  assumes "holds_closed d rows" and "i < length rows"
  shows "row_of d i = ret (rows ! i)"
proof -
  let ?b = "length (concat (take i rows))"
  have len: "length (row_offset d) = Suc (length rows)"
    using assms(1) by (simp add: holds_closed_def)
  have b: "nth_exec (row_offset d) (int i) = ret (int ?b)"
    using len assms closed_offset_nth [of d rows i] by simp
  have e: "nth_exec (row_offset d) (int i + 1) = ret (int ?b + int (length (rows ! i)))"
    using len assms closed_offset_nth [of d rows "Suc i"]
    by (simp add: nth_exec_def concat_take_Suc nat_add_distrib)
  have raw: "raw_data d = concat rows" using assms(1) by (simp add: holds_closed_def)
  have "memcpy_local (int (length (rows ! i))) (concat rows) (int ?b) (int (length (rows ! i))) =
      ret (rows ! i)"
    using memcpy_cell [of i rows "int (length (rows ! i))"] assms(2) by simp
  then show ?thesis using b e raw by (simp add: row_of_def)
qed

text \<open>Whether a row passes: its column offsets, then the filter list.\<close>

definition row_passes :: "Snippet \<Rightarrow> bytes \<Rightarrow> bool exec" where
  "row_passes snip row =
     bind_exec (row_offsets (schema_info snip) row) (\<lambda>offs.
     filter_loop row (schema_info snip) offs (filtering (query_info snip)) True)"

definition filtered_so_far :: "Data \<Rightarrow> bytes list \<Rightarrow> Data \<Rightarrow> bool" where
  "filtered_so_far d rs acc \<longleftrightarrow>
     holds_rows acc rs \<and> filtered_row_count acc = int (length rs) \<and>
     scanned_row_count acc = scanned_row_count d \<and>
     current_block_count acc = current_block_count d \<and> rows_fit rs"

lemma filter_row_step:
  assumes "holds_closed d rows" "i < length rows" "value_of (row_passes snip (rows ! i)) = Some b"
    and "filtered_so_far d rs acc" "rows_fit (rs @ (if b then [rows ! i] else []))"
  shows "\<exists>acc'. value_of (filter_row d snip i acc) = Some acc' \<and>
    filtered_so_far d (rs @ (if b then [rows ! i] else [])) acc'"
proof -
  have run: "value_of (filter_row d snip i acc) = Option.bind (value_of (row_passes snip (rows ! i)))
      (\<lambda>p. value_of (if p then bind_exec (append_row (rows ! i) acc) (\<lambda>acc'.
         bind_exec (arith32 (filtered_row_count acc' + 1)) (\<lambda>n. ret (acc'\<lparr>filtered_row_count := n\<rparr>))) else ret acc))"
    by (simp add: filter_row_def row_of_closed [OF assms(1,2)] row_passes_def value_of_bind
        Option.bind_assoc)
  show ?thesis
  proof (cases b)
    case True
    obtain acc' l where "append_row (rows ! i) acc = Done acc' l" "holds_rows acc' (rs @ [rows ! i])"
      "current_block_count acc' = current_block_count acc"
      "scanned_row_count acc' = scanned_row_count acc"
      "filtered_row_count acc' = filtered_row_count acc"
      using append_row_holds [of acc rs "rows ! i"] assms(4,5) True
      by (auto simp: filtered_so_far_def rows_fit_def)
    moreover have "int32_ok (int (length rs) + 1)"
      using assms(5) True by (simp add: rows_fit_def int32_ok_def)
    ultimately show ?thesis using True run assms(3-5)
      by (simp add: value_of_bind filtered_so_far_def holds_rows_def)
  next
    case False
    then show ?thesis using run assms(3,4) by simp
  qed
qed

lemma filtering_result_rows:
  assumes "holds_closed (data res) rows"
    and "\<forall>row \<in> set rows. value_of (row_passes (snippet res) row) = Some (keep row)"
  shows "\<exists>r. value_of (filtering_result res) = Some r \<and> snippet r = snippet res \<and>
    holds_closed (data r) (filter keep rows) \<and>
    filtered_row_count (data r) = int (length (filter keep rows)) \<and>
    scanned_row_count (data r) = scanned_row_count (data res) \<and>
    current_block_count (data r) = current_block_count (data res)"
proof -
  let ?d = "data res"
  let ?init = "CsdResult_init (snippet res) (scanned_row_count ?d) 0 (current_block_count ?d)"
  have n: "nat (row_count ?d) = length rows" using assms(1) by (simp add: holds_closed_def)
  have "\<exists>acc. value_of (fold_exec (filter_row ?d (snippet res)) [0..<length rows] (data ?init)) = Some acc \<and>
      filtered_so_far ?d (filter keep (take (length rows) rows)) acc"
  proof (rule fold_exec_upt_inv)
    show "filtered_so_far ?d (filter keep (take 0 rows)) (data ?init)"
      by (simp add: filtered_so_far_def CsdResult_init_def holds_rows_def Data_init_def)
    fix i acc
    assume i: "i < length rows" and acc: "filtered_so_far ?d (filter keep (take i rows)) acc"
    have "value_of (row_passes (snippet res) (rows ! i)) = Some (keep (rows ! i))"
      using assms(2) i by simp
    moreover have "rows_fit (filter keep (take (Suc i) rows))"
      using assms(1) by (intro rows_fit_filter rows_fit_take) (simp add: holds_closed_def)
    then have "rows_fit (filter keep (take i rows) @ (if keep (rows ! i) then [rows ! i] else []))"
      using i by (cases "keep (rows ! i)") (simp_all add: take_Suc_conv_app_nth)
    ultimately have "\<exists>acc'. value_of (filter_row ?d (snippet res) i acc) = Some acc' \<and>
        filtered_so_far ?d (filter keep (take i rows) @ (if keep (rows ! i) then [rows ! i] else [])) acc'"
      using filter_row_step [OF assms(1) i _ acc] by blast
    then
    show "\<exists>acc'. value_of (filter_row ?d (snippet res) i acc) = Some acc' \<and>
        filtered_so_far ?d (filter keep (take (Suc i) rows)) acc'"
      using i by (cases "keep (rows ! i)") (simp_all add: take_Suc_conv_app_nth)
  qed
  then obtain acc where
    "value_of (fold_exec (filter_row ?d (snippet res)) [0..<length rows] (data ?init)) = Some acc"
    and acc: "filtered_so_far ?d (filter keep rows) acc" by auto
  then have "value_of (filtering_result res) = Some (?init\<lparr>data := close_rows acc\<rparr>)"
    by (simp add: filtering_result_def Let_def n value_of_bind)
  moreover have "holds_closed (close_rows acc) (filter keep rows)"
    using acc by (intro close_rows_holds) (simp_all add: filtered_so_far_def)
  ultimately show ?thesis using acc
    by (simp add: CsdResult_init_def filtered_so_far_def close_rows_def)
qed

lemma filtering_handler_rows:
  assumes "holds_closed (data res) rows"
    and "\<forall>row \<in> set rows. value_of (row_passes (snippet res) row) = Some (keep row)"
  shows "\<exists>r. value_of (filtering_handler res (mon, pq)) =
      Some (addFilteredRow (int (length (filter keep rows))) mon, enqueue_projection r pq) \<and>
    snippet r = snippet res \<and> holds_closed (data r) (filter keep rows) \<and>
    filtered_row_count (data r) = int (length (filter keep rows)) \<and>
    scanned_row_count (data r) = scanned_row_count (data res) \<and>
    current_block_count (data r) = current_block_count (data res)"
proof -
  obtain r where r: "value_of (filtering_result res) = Some r" "snippet r = snippet res"
    "holds_closed (data r) (filter keep rows)"
    "filtered_row_count (data r) = int (length (filter keep rows))"
    "scanned_row_count (data r) = scanned_row_count (data res)"
    "current_block_count (data r) = current_block_count (data res)"
    using filtering_result_rows [OF assms] by blast
  moreover have "row_count (data r) = int (length (filter keep rows))"
    using r(3) by (simp add: holds_closed_def)
  ultimately show ?thesis
    by (intro exI [of _ r]) (simp add: filtering_handler_def value_of_bind)
qed

text \<open>
  C5: filtering a buffer of rows enqueues one buffer for the projection that holds exactly the
  rows that pass, in their order, with the scan's row and block counts unchanged, and adds the
  number of these rows to the monitor.
\<close>

theorem filtering_keeps_passing_rows:
  assumes "holds_closed (data res) rows"
    and "\<forall>row \<in> set rows. value_of (row_passes (snippet res) row) = Some (keep row)"
  shows "\<exists>r. value_of (filtering_handler res (mon, pq)) =
      Some (addFilteredRow (int (length (filter keep rows))) mon, enqueue_projection r pq) \<and>
    snippet r = snippet res \<and> holds_closed (data r) (filter keep rows) \<and>
    filtered_row_count (data r) = int (length (filter keep rows)) \<and>
    scanned_row_count (data r) = scanned_row_count (data res) \<and>
    current_block_count (data r) = current_block_count (data res)"
  using assms by (rule filtering_handler_rows)

definition demo_snippet :: Snippet where
  "demo_snippet =
     \<lparr>snippet_type = FULL_SCAN, query_id = 3, work_id = 1,
      query_info = \<lparr>table_name = ''t'',
        filtering = chain (demo_filter OP_LT ''9'') [(True, demo_filter OP_GT ''2'')],
        projection = [\<lparr>select_type = COL_NAME, expression = column_operand ''price''\<rparr>], seek_key = []\<rparr>,
      schema_info = demo_schema,
      block_info = \<lparr>partition_name = [], sst_list = [], block_list = []\<rparr>,
      wal_info = \<lparr>deleted_key = [], inserted_key = [], inserted_value = []\<rparr>,
      result_info = \<lparr>table_alias = ''t'', column_alias = [''price''], return_column_type = [246],
        return_column_length = [7], total_block_count = 1, csd_block_count = 1\<rparr>\<rparr>"

definition demo_rows :: "bytes list" where
  "demo_rows = [concat demo_cells,
     concat (map cell_bytes [IntCell 12, DecimalCell 5, VarcharCell ''no''])]"

definition demo_result :: CsdResult where
  "demo_result = \<lparr>snippet = demo_snippet,
     data = \<lparr>raw_data = concat demo_rows, row_offset = [0, 14, 28], data_length = 28, row_count = 2,
             current_block_count = 1, scanned_row_count = 2, filtered_row_count = 0\<rparr>\<rparr>"

lemma demo_result_holds: "holds_closed (data demo_result) demo_rows"
  by (simp add: holds_closed_def demo_result_def demo_rows_def demo_cells_def bytes_of_def rows_fit_def
      BUFFER_SIZE_def NUM_OF_BLOCKS_def)

lemma demo_row_passes:
  "\<forall>row \<in> set demo_rows. value_of (row_passes (snippet demo_result) row) = Some (row = concat demo_cells)"
  by code_simp

theorem filtering_keeps_passing_rows_witness:
  "\<exists>r. value_of (filtering_handler demo_result (MonitoringManager_init, WorkQueue_init)) =
      Some (addFilteredRow 1 MonitoringManager_init, enqueue_projection r WorkQueue_init) \<and>
    holds_closed (data r) [concat demo_cells]"
proof -
  have ne: "concat (map cell_bytes [IntCell 12, DecimalCell 5, VarcharCell ''no'']) \<noteq> concat demo_cells"
    by code_simp
  have f: "filter (\<lambda>row. row = concat demo_cells) demo_rows = [concat demo_cells]"
    using ne unfolding demo_rows_def by (simp only: filter.simps if_True if_False refl)
  show ?thesis
    using filtering_keeps_passing_rows [OF demo_result_holds demo_row_passes,
        of MonitoringManager_init WorkQueue_init]
    unfolding f by auto
qed

end
