(* ===== verification/Projection_Layer.thy ===== *)
theory Projection_Layer
  imports Filter_Laws
begin

text \<open>
  The projection layer, \<^verbatim>\<open>projection.cc\<close> and \<^verbatim>\<open>MergeBuffer\<close> of \<^verbatim>\<open>data_structure.h\<close>. Every worker
  thread owns a merge buffer; the list of all of them, the block counters and the return queue
  are the shared state. A call of \<^verbatim>\<open>projectioning\<close> is one step of the worker \<open>w\<close> on it.
\<close>

section \<open>Merge buffers\<close>

record MergeBuffer =
  id_buffer_map :: "string \<rightharpoonup> CsdResult"

definition MergeBuffer_init :: MergeBuffer where
  "MergeBuffer_init = \<lparr>id_buffer_map = Map.empty\<rparr>"

definition check_id_buffer :: "string \<Rightarrow> Snippet \<Rightarrow> MergeBuffer \<Rightarrow> MergeBuffer" where
  "check_id_buffer key snip mb =
     (case id_buffer_map mb key of
        None \<Rightarrow> mb\<lparr>id_buffer_map := (id_buffer_map mb)(key \<mapsto> CsdResult_init snip 0 0 0)\<rparr>
      | Some _ \<Rightarrow> mb)"

definition release_buffer :: "string \<Rightarrow> MergeBuffer \<Rightarrow> MergeBuffer" where
  "release_buffer key mb =
     (case id_buffer_map mb key of
        None \<Rightarrow> mb
      | Some _ \<Rightarrow> mb\<lparr>id_buffer_map := (id_buffer_map mb)(key := None)\<rparr>)"

section \<open>State\<close>

record ProjectionState =
  merge_buffer_list :: "MergeBuffer list"
  id_block_count_map :: "string \<rightharpoonup> int"
  return_queue :: "CsdResult WorkQueue"

definition ProjectionState_init :: "nat \<Rightarrow> ProjectionState" where
  "ProjectionState_init n =
     \<lparr>merge_buffer_list = replicate n MergeBuffer_init, id_block_count_map = Map.empty,
      return_queue = WorkQueue_init\<rparr>"

text \<open>The flag of \<^verbatim>\<open>enqueue_return\<close> only selects a log message.\<close>

definition enqueue_return :: "CsdResult \<Rightarrow> CsdResult WorkQueue \<Rightarrow> CsdResult WorkQueue" where
  "enqueue_return r q = snd (push_work r q)"

definition make_block_count_map :: "string \<Rightarrow> int \<Rightarrow> ProjectionState \<Rightarrow> ProjectionState" where
  "make_block_count_map key blocks st =
     (case id_block_count_map st key of
        None \<Rightarrow> st\<lparr>id_block_count_map := (id_block_count_map st)(key \<mapsto> blocks)\<rparr>
      | Some _ \<Rightarrow> st)"

text \<open>The loop over all merge buffers when the last block of a snippet is done.\<close>

definition release_one ::
  "string \<Rightarrow> MergeBuffer \<Rightarrow> MergeBuffer list \<times> CsdResult WorkQueue
   \<Rightarrow> MergeBuffer list \<times> CsdResult WorkQueue" where
  "release_one key mb acc =
     (let (mbs, q) = acc;
          q' = (case id_buffer_map mb key of None \<Rightarrow> q | Some r \<Rightarrow> enqueue_return r q)
      in (mbs @ [release_buffer key mb], q'))"

definition block_count_down_and_release_buffer ::
  "string \<Rightarrow> int \<Rightarrow> ProjectionState \<Rightarrow> ProjectionState" where
  "block_count_down_and_release_buffer key block_count st =
     (case id_block_count_map st key of
        None \<Rightarrow> st
      | Some c \<Rightarrow>
          (let left = wrap32 (c - block_count);
               st1 = st\<lparr>id_block_count_map := (id_block_count_map st)(key \<mapsto> left)\<rparr> in
           if left = 0 then
             (let (mbs, q) = fold (release_one key) (merge_buffer_list st1) ([], return_queue st1)
              in st1\<lparr>merge_buffer_list := mbs, return_queue := q,
                     id_block_count_map := (id_block_count_map st1)(key := None)\<rparr>)
           else st1))"

section \<open>Projection of rows\<close>

definition project_step ::
  "bytes \<Rightarrow> SchemaInfo \<Rightarrow> int list \<Rightarrow> Projectioning \<Rightarrow> bytes \<times> int \<Rightarrow> (bytes \<times> int) exec" where
  "project_step row sch offs p st =
     (let (dest, len) = st in
      case select_type p of
        COL_NAME \<Rightarrow>
          bind_exec (projection_raw_data row sch (expression p) offs dest len)
            (\<lambda>(dest', column_length). ret (dest', len + column_length))
      | _ \<Rightarrow> ret st)"

definition project_row :: "Snippet \<Rightarrow> bytes \<Rightarrow> bytes exec" where
  "project_row snip row =
     bind_exec (row_offsets (schema_info snip) row) (\<lambda>offs.
     bind_exec (fold_exec (project_step row (schema_info snip) offs) (projection (query_info snip))
                  (replicate (length row) 0, 0))
       (\<lambda>(dest, len). memcpy_local len dest 0 len))"

text \<open>\<^verbatim>\<open>merge_buffer->id_buffer_map[key]\<close> of worker \<open>w\<close>; a missing entry would be a result without
  snippet.\<close>

definition own_buffer :: "nat \<Rightarrow> string \<Rightarrow> ProjectionState \<Rightarrow> CsdResult exec" where
  "own_buffer w key st =
     (if w < length (merge_buffer_list st) then get_exec (id_buffer_map (merge_buffer_list st ! w) key)
      else Abort BadIndex)"

definition set_buffer :: "nat \<Rightarrow> string \<Rightarrow> CsdResult \<Rightarrow> ProjectionState \<Rightarrow> ProjectionState" where
  "set_buffer w key r st =
     (let mb = merge_buffer_list st ! w in
      st\<lparr>merge_buffer_list :=
           (merge_buffer_list st)[w := mb\<lparr>id_buffer_map := (id_buffer_map mb)(key \<mapsto> r)\<rparr>]\<rparr>)"

definition merge_row :: "nat \<Rightarrow> string \<Rightarrow> bytes \<Rightarrow> ProjectionState \<Rightarrow> ProjectionState exec" where
  "merge_row w key prow st =
     bind_exec (own_buffer w key st) (\<lambda>buf.
     let full = (data_length (data buf) + int (length prow) > BUFFER_SIZE);
         st1 = (if full then st\<lparr>return_queue := enqueue_return buf (return_queue st)\<rparr> else st);
         buf1 = (if full then buf\<lparr>data := Data_clear (data buf)\<rparr> else buf) in
     bind_exec (append_row prow (data buf1)) (\<lambda>d.
     ret (set_buffer w key (buf1\<lparr>data := d\<rparr>) st1)))"

definition projection_step ::
  "nat \<Rightarrow> string \<Rightarrow> CsdResult \<Rightarrow> nat \<Rightarrow> ProjectionState \<Rightarrow> ProjectionState exec" where
  "projection_step w key res i st =
     bind_exec (row_of (data res) i) (\<lambda>row.
     bind_exec (project_row (snippet res) row) (\<lambda>prow. merge_row w key prow st))"

text \<open>The counters are \<^verbatim>\<open>int\<close>: their sums wrap around.\<close>

definition add_counts :: "Data \<Rightarrow> CsdResult \<Rightarrow> CsdResult" where
  "add_counts d buf =
     buf\<lparr>data := (data buf)\<lparr>
       current_block_count := wrap32 (current_block_count (data buf) + current_block_count d),
       scanned_row_count := wrap32 (scanned_row_count (data buf) + scanned_row_count d),
       filtered_row_count := wrap32 (filtered_row_count (data buf) + filtered_row_count d)\<rparr>\<rparr>"

definition projectioning :: "nat \<Rightarrow> CsdResult \<Rightarrow> ProjectionState \<Rightarrow> ProjectionState exec" where
  "projectioning w res st =
     (let snip = snippet res;
          key = make_map_key (query_id snip) (work_id snip);
          st1 = make_block_count_map key (csd_block_count (result_info snip)) st in
      if w < length (merge_buffer_list st1) then
        (let st2 = st1\<lparr>merge_buffer_list :=
                     (merge_buffer_list st1)[w := check_id_buffer key snip (merge_buffer_list st1 ! w)]\<rparr> in
         bind_exec (if row_count (data res) \<noteq> 0
                    then fold_exec (projection_step w key res) [0..<nat (row_count (data res))] st2
                    else ret st2) (\<lambda>st3.
         bind_exec (own_buffer w key st3) (\<lambda>buf.
         ret (block_count_down_and_release_buffer key (current_block_count (data res))
                (set_buffer w key (add_counts (data res) buf) st3)))))
      else Abort BadIndex)"

text \<open>\<^verbatim>\<open>projection_worker\<close>: registering the worker's merge buffer, then one turn of its loop.\<close>

definition projection_worker_start :: "ProjectionState \<Rightarrow> ProjectionState" where
  "projection_worker_start st =
     st\<lparr>merge_buffer_list := merge_buffer_list st @ [MergeBuffer_init]\<rparr>"

definition projection_worker ::
  "nat \<Rightarrow> CsdResult WorkQueue \<Rightarrow> ProjectionState
   \<Rightarrow> (CsdResult WorkQueue \<times> ProjectionState) exec option" where
  "projection_worker w projection_queue st =
     (case wait_and_pop projection_queue of
        None \<Rightarrow> None
      | Some (res, q) \<Rightarrow> Some (bind_exec (projectioning w res st) (\<lambda>st'. ret (q, st'))))"

end
