(* ===== verification/Projection_Laws.thy ===== *)
theory Projection_Laws
  imports Projection_Layer "HOL-Library.Multiset"
begin

text \<open>
  What the projection layer delivers. The first section computes the projection of a row to
  columns. The others follow a quantity that a buffer carries (its rows as a multiset, the blocks,
  the rows scanned and filtered it accounts for) through merging, flushing and releasing: the
  locale \<open>buffer_measure\<close> states what such a quantity satisfies and proves once that nothing of it
  is lost or duplicated; it is interpreted for the four quantities.
\<close>

section \<open>Columns of a row\<close>

lemma projection_raw_data_column:
  assumes "is_column sch cells offs name i ty" and "0 \<le> cur"
    and "cur + int (length (cells ! i)) \<le> int (length dest)"
  shows "projection_raw_data (concat cells) sch (column_operand name) offs dest cur =
    ret (store_bytes dest (nat cur) (cells ! i), int (length (cells ! i)))"
proof -
  have i: "i < length cells" using assms(1) by (simp add: is_column_def)
  note rd = is_column_reads [OF assms(1)]
  have "memcpy_local (int (length (cells ! i))) (concat cells) (int (length (concat (take i cells))))
      (int (length (cells ! i))) = ret (cells ! i)"
    using memcpy_cell [OF i] by simp
  then show ?thesis
    using rd memcpy_into_exact [OF assms(2,3)]
    by (simp add: projection_raw_data_def column_operand_def)
qed

definition column_projection :: "string \<Rightarrow> Projectioning" where
  "column_projection name = \<lparr>select_type = COL_NAME, expression = column_operand name\<rparr>"

lemma project_columns:
  assumes "\<forall>x \<in> set xs. is_column sch cells offs (fst x) (snd x) (ty x)"
    and "length done + length (concat (map (\<lambda>x. cells ! snd x) xs)) \<le> length dest"
    and "take (length done) dest = done"
  shows "\<exists>dest'. fold_exec (project_step (concat cells) sch offs) (map (column_projection \<circ> fst) xs)
      (dest, int (length done)) =
      ret (dest', int (length done + length (concat (map (\<lambda>x. cells ! snd x) xs)))) \<and>
    length dest' = length dest \<and>
    take (length done + length (concat (map (\<lambda>x. cells ! snd x) xs))) dest' =
      done @ concat (map (\<lambda>x. cells ! snd x) xs)"
  using assms
proof (induction xs arbitrary: "done" dest)
  case Nil
  then show ?case by simp
next
  case (Cons x xs)
  let ?c = "cells ! snd x"
  let ?dest = "store_bytes dest (length done) ?c"
  have room: "length done + length ?c \<le> length dest" using Cons.prems(2) by simp
  have step: "project_step (concat cells) sch offs (column_projection (fst x)) (dest, int (length done)) =
      ret (?dest, int (length (done @ ?c)))"
    using projection_raw_data_column [of sch cells offs "fst x" "snd x" "ty x" "int (length done)" dest]
      Cons.prems(1) room
    by (simp add: project_step_def column_projection_def)
  have len: "length ?dest = length dest" using room by simp
  have tk: "take (length (done @ ?c)) ?dest = done @ ?c"
    using take_store_bytes [OF room] Cons.prems(3) by simp
  have more: "length (done @ ?c) + length (concat (map (\<lambda>x. cells ! snd x) xs)) \<le> length ?dest"
    using Cons.prems(2) len by simp
  have cols: "\<forall>x \<in> set xs. is_column sch cells offs (fst x) (snd x) (ty x)" using Cons.prems(1) by simp
  from Cons.IH [OF cols more tk] show ?case by (simp add: step len add.assoc)
qed

text \<open>A row and the offsets that filter and projection compute for it.\<close>

definition laid_out :: "SchemaInfo \<Rightarrow> bytes list \<Rightarrow> int list \<Rightarrow> bool" where
  "laid_out sch cells offs \<longleftrightarrow> row_offsets sch (concat cells) = ret offs \<and> layout cells offs"

lemma laid_out_rows:
  assumes "schema_wf sch" "row_ok sch cells"
    and "has_var_char sch \<or> MySQL_VARSTRING \<notin> set (column_type sch)"
  shows "laid_out sch cells (offsets_from 0 cells @ [int (length (concat cells))])"
  using calcul_column_offset_cells [OF assms(1,2)] fixed_columns_layout [OF assms(1,2)] assms(3)
  by (auto simp: laid_out_def row_offsets_def layout_def)

lemma project_row_columns:
  assumes "laid_out (schema_info snip) cells offs"
    and "projection (query_info snip) = map (column_projection \<circ> fst) xs"
    and "\<forall>x \<in> set xs. is_column (schema_info snip) cells offs (fst x) (snd x) (ty x)"
    and "length (concat (map (\<lambda>x. cells ! snd x) xs)) \<le> length (concat cells)"
  shows "project_row snip (concat cells) = ret (concat (map (\<lambda>x. cells ! snd x) xs))"
proof -
  let ?out = "concat (map (\<lambda>x. cells ! snd x) xs)"
  obtain dest' where d: "fold_exec (project_step (concat cells) (schema_info snip) offs)
        (map (column_projection \<circ> fst) xs) (replicate (length (concat cells)) 0, 0) =
      ret (dest', int (length ?out))"
    "length dest' = length (concat cells)" "take (length ?out) dest' = ?out"
    using project_columns [of xs "schema_info snip" cells offs ty "[]" "replicate (length (concat cells)) 0"]
      assms(3,4) by auto
  have "memcpy_local (int (length ?out)) dest' 0 (int (length ?out)) = ret ?out"
    using d assms(4) by (simp add: memcpy_local_exact)
  then show ?thesis using assms(1,2) d(1) by (simp add: project_row_def laid_out_def)
qed

section \<open>Rows of an open buffer\<close>

fun slices :: "int list \<Rightarrow> bytes \<Rightarrow> bytes list" where
  "slices [] raw = []"
| "slices [b] raw = [drop (nat b) raw]"
| "slices (b # e # offs) raw = take (nat (e - b)) (drop (nat b) raw) # slices (e # offs) raw"

definition buf_rows :: "Data \<Rightarrow> bytes list" where
  "buf_rows d = slices (row_offset d) (raw_data d)"

definition wf_buf :: "Data \<Rightarrow> bool" where
  "wf_buf d \<longleftrightarrow> holds_rows d (buf_rows d) \<and> data_length d \<le> BUFFER_SIZE"

lemma slices_offsets:
  "slices (offsets_from (int (length pre)) rs) (pre @ concat rs) = rs"
proof (induction rs arbitrary: pre)
  case Nil
  then show ?case by simp
next
  case (Cons r rs)
  show ?case
  proof (cases rs)
    case Nil
    then show ?thesis by simp
  next
    case (Cons r' rs')
    have "slices (offsets_from (int (length (pre @ r))) rs) ((pre @ r) @ concat rs) = rs"
      by (rule Cons.IH)
    then show ?thesis using Cons by (simp add: add.commute)
  qed
qed

lemma holds_rows_buf_rows: "holds_rows d rs \<Longrightarrow> buf_rows d = rs"
  using slices_offsets [of "[]" rs] by (simp add: holds_rows_def buf_rows_def)

lemma wf_buf_init [simp]: "wf_buf Data_init"
  by (simp add: wf_buf_def buf_rows_def holds_rows_def Data_init_def BUFFER_SIZE_def NUM_OF_BLOCKS_def)

lemma append_row_wf:
  assumes "wf_buf d" and "data_length d + int (length p) \<le> BUFFER_SIZE"
  shows "\<exists>d' l. append_row p d = Done d' l \<and> wf_buf d' \<and> buf_rows d' = buf_rows d @ [p]"
proof -
  have h: "holds_rows d (buf_rows d)" using assms(1) by (simp add: wf_buf_def)
  then have len: "int (length (concat (buf_rows d @ [p]))) \<le> BUFFER_SIZE"
    using assms(2) by (simp add: holds_rows_def)
  obtain d' l where d': "append_row p d = Done d' l" "holds_rows d' (buf_rows d @ [p])"
    using append_row_holds [OF h len] by blast
  note rows = holds_rows_buf_rows [OF d'(2)]
  have "wf_buf d'" using d'(2) len unfolding wf_buf_def rows by (simp add: holds_rows_def)
  then show ?thesis using d'(1) rows by blast
qed

section \<open>The state invariant\<close>

definition key_of :: "CsdResult \<Rightarrow> string" where
  "key_of r = make_map_key (query_id (snippet r)) (work_id (snippet r))"

text \<open>Every buffer is stored under the key of its snippet, holds whole rows within its capacity,
  and has a block counter.\<close>

definition proj_inv :: "ProjectionState \<Rightarrow> bool" where
  "proj_inv st \<longleftrightarrow>
     (\<forall>mb \<in> set (merge_buffer_list st). \<forall>key r. id_buffer_map mb key = Some r \<longrightarrow>
        key_of r = key \<and> wf_buf (data r) \<and> id_block_count_map st key \<noteq> None)"

lemma proj_inv_init: "proj_inv (ProjectionState_init n)"
  by (auto simp: proj_inv_def ProjectionState_init_def MergeBuffer_init_def)

lemma proj_invD:
  assumes "proj_inv st" "w < length (merge_buffer_list st)"
    and "id_buffer_map (merge_buffer_list st ! w) key = Some r"
  shows "key_of r = key" and "wf_buf (data r)" and "id_block_count_map st key \<noteq> None"
  using assms nth_mem [OF assms(2)] unfolding proj_inv_def by blast+

lemma proj_inv_set_buffer:
  assumes "proj_inv st" "w < length (merge_buffer_list st)"
    and "key_of r = key" "wf_buf (data r)" "id_block_count_map st key \<noteq> None"
  shows "proj_inv (set_buffer w key r st)"
  unfolding proj_inv_def
proof (intro ballI allI impI)
  fix mb k r'
  assume "mb \<in> set (merge_buffer_list (set_buffer w key r st))" and r': "id_buffer_map mb k = Some r'"
  then have "mb \<in> set (merge_buffer_list st) \<or>
      mb = (merge_buffer_list st ! w)\<lparr>id_buffer_map := (id_buffer_map (merge_buffer_list st ! w))(key \<mapsto> r)\<rparr>"
    by (auto simp: set_buffer_def Let_def dest: set_update_subset_insert [THEN subsetD])
  then show "key_of r' = k \<and> wf_buf (data r') \<and> id_block_count_map (set_buffer w key r st) k \<noteq> None"
  proof
    assume "mb \<in> set (merge_buffer_list st)"
    then show ?thesis using assms(1) r' by (simp add: proj_inv_def set_buffer_def Let_def)
  next
    assume mb: "mb = (merge_buffer_list st ! w)\<lparr>id_buffer_map := (id_buffer_map (merge_buffer_list st ! w))(key \<mapsto> r)\<rparr>"
    show ?thesis
    proof (cases "k = key")
      case True
      then show ?thesis using assms(3-5) mb r' by (simp add: set_buffer_def Let_def)
    next
      case False
      then have "id_buffer_map (merge_buffer_list st ! w) k = Some r'" using mb r' by simp
      then show ?thesis using proj_invD [OF assms(1,2)] by (simp add: set_buffer_def Let_def)
    qed
  qed
qed

section \<open>Merging a row\<close>

lemma merge_row_step:
  assumes "proj_inv st" "w < length (merge_buffer_list st)"
    and own: "id_buffer_map (merge_buffer_list st ! w) key = Some buf"
    and fits: "int (length p) \<le> BUFFER_SIZE"
  shows "\<exists>buf' q l. merge_row w key p st = Done (set_buffer w key buf' (st\<lparr>return_queue := q\<rparr>)) l \<and>
    key_of buf' = key \<and> wf_buf (data buf') \<and>
    (q = return_queue st \<and> append_row p (data buf) = Done (data buf') l \<or>
     work q = work (return_queue st) @ [buf] \<and> append_row p Data_init = Done (data buf') l)"
proof -
  note wf = proj_invD [OF assms(1,2) own]
  have own': "own_buffer w key st = ret buf" using assms(2) own by (simp add: own_buffer_def)
  show ?thesis
  proof (cases "data_length (data buf) + int (length p) > BUFFER_SIZE")
    case True
    obtain d' l where d': "append_row p Data_init = Done d' l" "wf_buf d'"
      using append_row_wf [of Data_init p] fits by (auto simp: Data_init_def wf_buf_init [unfolded Data_init_def])
    have "merge_row w key p st = Done (set_buffer w key (buf\<lparr>data := d'\<rparr>)
        (st\<lparr>return_queue := enqueue_return buf (return_queue st)\<rparr>)) l"
      using True own' d'(1) by (simp add: merge_row_def Let_def bind_Done)
    moreover have "work (enqueue_return buf (return_queue st)) = work (return_queue st) @ [buf]"
      by (simp add: enqueue_return_def push_work_def Let_def)
    moreover have "key_of (buf\<lparr>data := d'\<rparr>) = key" using wf(1) by (simp add: key_of_def)
    ultimately show ?thesis using d'
      by (intro exI [of _ "buf\<lparr>data := d'\<rparr>"] exI [of _ "enqueue_return buf (return_queue st)"] exI [of _ l]) simp
  next
    case False
    obtain d' l where d': "append_row p (data buf) = Done d' l" "wf_buf d'"
      using append_row_wf [OF wf(2), of p] False by auto
    have "merge_row w key p st = Done (set_buffer w key (buf\<lparr>data := d'\<rparr>) (st\<lparr>return_queue := return_queue st\<rparr>)) l"
      using False own' d'(1) by (simp add: merge_row_def Let_def bind_Done)
    moreover have "key_of (buf\<lparr>data := d'\<rparr>) = key" using wf(1) by (simp add: key_of_def)
    ultimately show ?thesis using d'
      by (intro exI [of _ "buf\<lparr>data := d'\<rparr>"] exI [of _ "return_queue st"] exI [of _ l]) simp
  qed
qed

lemma set_buffer_simps [simp]:
  "length (merge_buffer_list (set_buffer w key r st)) = length (merge_buffer_list st)"
  "id_block_count_map (set_buffer w key r st) = id_block_count_map st"
  "return_queue (set_buffer w key r st) = return_queue st"
  "w < length (merge_buffer_list st) \<Longrightarrow>
   id_buffer_map (merge_buffer_list (set_buffer w key r st) ! w) key = Some r"
  by (simp_all add: set_buffer_def Let_def)

section \<open>Quantities a buffer carries\<close>

definition buf_val :: "(Data \<Rightarrow> 'a::comm_monoid_add) \<Rightarrow> string \<Rightarrow> MergeBuffer \<Rightarrow> 'a" where
  "buf_val mu key mb = (case id_buffer_map mb key of None \<Rightarrow> 0 | Some r \<Rightarrow> mu (data r))"

definition buffered :: "(Data \<Rightarrow> 'a::comm_monoid_add) \<Rightarrow> string \<Rightarrow> MergeBuffer list \<Rightarrow> 'a" where
  "buffered mu key mbs = sum_list (map (buf_val mu key) mbs)"

definition delivered :: "(Data \<Rightarrow> 'a::comm_monoid_add) \<Rightarrow> string \<Rightarrow> CsdResult list \<Rightarrow> 'a" where
  "delivered mu key rs = sum_list (map (\<lambda>r. mu (data r)) (filter (\<lambda>r. key_of r = key) rs))"

text \<open>What the layer holds for a snippet: in its return queue and in the merge buffers.\<close>

definition held :: "(Data \<Rightarrow> 'a::comm_monoid_add) \<Rightarrow> string \<Rightarrow> ProjectionState \<Rightarrow> 'a" where
  "held mu key st = delivered mu key (work (return_queue st)) + buffered mu key (merge_buffer_list st)"

lemma buffered_update:
  assumes "w < length mbs"
  shows "buffered mu key (mbs[w := mb]) =
      buffered mu key (take w mbs) + buf_val mu key mb + buffered mu key (drop (Suc w) mbs)"
    and "buffered mu key mbs =
      buffered mu key (take w mbs) + buf_val mu key (mbs ! w) + buffered mu key (drop (Suc w) mbs)"
proof -
  show "buffered mu key (mbs[w := mb]) =
      buffered mu key (take w mbs) + buf_val mu key mb + buffered mu key (drop (Suc w) mbs)"
    using assms by (simp add: upd_conv_take_nth_drop buffered_def add.assoc)
  have "mbs = take w mbs @ mbs ! w # drop (Suc w) mbs" using assms by (rule id_take_nth_drop)
  then show "buffered mu key mbs =
      buffered mu key (take w mbs) + buf_val mu key (mbs ! w) + buffered mu key (drop (Suc w) mbs)"
    by (metis (no_types, lifting) add.assoc buffered_def list.simps(9) map_append sum_list.Cons
        sum_list_append)
qed

lemma held_set_buffer_other:
  assumes "w < length (merge_buffer_list st)" "k \<noteq> key"
  shows "held mu k (set_buffer w key r st) = held mu k st"
  using assms buffered_update [OF assms(1), of mu k]
  by (simp add: held_def set_buffer_def Let_def buf_val_def)

lemma held_set_buffer_same:
  assumes "w < length (merge_buffer_list st)"
    and "id_buffer_map (merge_buffer_list st ! w) key = Some buf"
    and "mu (data r) = mu (data buf) + x"
  shows "held mu key (set_buffer w key r st) = held mu key st + x"
  using assms buffered_update [OF assms(1), of mu key]
  by (simp add: held_def set_buffer_def Let_def buf_val_def add_ac)

text \<open>The worker's own buffer is a part of what is held.\<close>

lemma held_own_part:
  assumes "w < length (merge_buffer_list st)"
    and "id_buffer_map (merge_buffer_list st ! w) key = Some buf"
  shows "\<exists>x. held mu key st = mu (data buf) + x"
proof (rule exI)
  let ?mbs = "merge_buffer_list st"
  show "held mu key st = mu (data buf) + (delivered mu key (work (return_queue st)) +
      buffered mu key (take w ?mbs) + buffered mu key (drop (Suc w) ?mbs))"
    using assms buffered_update(2) [OF assms(1), of mu key] by (simp add: held_def buf_val_def add_ac)
qed

lemma held_flush:
  assumes "w < length (merge_buffer_list st)" "proj_inv st"
    and "id_buffer_map (merge_buffer_list st ! w) key = Some buf"
    and "work q = work (return_queue st) @ [buf]" and "mu (data r) = x"
  shows "held mu key (set_buffer w key r (st\<lparr>return_queue := q\<rparr>)) = held mu key st + x"
proof -
  have "key_of buf = key" using proj_invD [OF assms(2,1,3)] by simp
  then show ?thesis
    using assms buffered_update [OF assms(1), of mu key]
    by (simp add: held_def delivered_def set_buffer_def Let_def buf_val_def add_ac)
qed

lemma held_flush_other:
  assumes "w < length (merge_buffer_list st)" "proj_inv st" "k \<noteq> key"
    and "id_buffer_map (merge_buffer_list st ! w) key = Some buf"
    and "work q = work (return_queue st) @ [buf]"
  shows "held mu k (set_buffer w key r (st\<lparr>return_queue := q\<rparr>)) = held mu k st"
proof -
  have "key_of buf = key" using proj_invD [OF assms(2,1,4)] by simp
  then have "held mu k (st\<lparr>return_queue := q\<rparr>) = held mu k st"
    using assms(3,5) by (simp add: held_def delivered_def)
  then show ?thesis using held_set_buffer_other [of w "st\<lparr>return_queue := q\<rparr>" k key mu r] assms(1,3)
    by simp
qed

section \<open>Release\<close>

lemma fold_release_one:
  "fold (release_one key) mbs (acc, q) =
     (acc @ map (release_buffer key) mbs,
      q\<lparr>work := work q @ List.map_filter (\<lambda>mb. id_buffer_map mb key) mbs\<rparr>)"
proof (induction mbs arbitrary: acc q)
  case Nil
  then show ?case by (simp add: map_filter_simps)
next
  case (Cons mb mbs)
  then show ?case
    by (cases "id_buffer_map mb key")
       (simp_all add: release_one_def enqueue_return_def push_work_def Let_def map_filter_simps)
qed

lemma release_buffer_map: "id_buffer_map (release_buffer key mb) = (id_buffer_map mb)(key := None)"
  by (auto simp: release_buffer_def split: option.splits)

lemma block_count_down_cases:
  assumes "id_block_count_map st key = Some c"
  shows "wrap32 (c - n) \<noteq> 0 \<Longrightarrow> block_count_down_and_release_buffer key n st =
      st\<lparr>id_block_count_map := (id_block_count_map st)(key \<mapsto> wrap32 (c - n))\<rparr>"
    and "wrap32 (c - n) = 0 \<Longrightarrow> block_count_down_and_release_buffer key n st =
      st\<lparr>merge_buffer_list := map (release_buffer key) (merge_buffer_list st),
         return_queue := (return_queue st)\<lparr>work := work (return_queue st)
           @ List.map_filter (\<lambda>mb. id_buffer_map mb key) (merge_buffer_list st)\<rparr>,
         id_block_count_map := (id_block_count_map st)(key := None)\<rparr>"
  using assms
  by (simp_all add: block_count_down_and_release_buffer_def fold_release_one Let_def)

lemma delivered_append: "delivered mu k (xs @ ys) = delivered mu k xs + delivered mu k ys"
  by (simp add: delivered_def)

lemma delivered_released:
  assumes "\<forall>mb \<in> set mbs. \<forall>r. id_buffer_map mb key = Some r \<longrightarrow> key_of r = key"
  shows "delivered mu k (List.map_filter (\<lambda>mb. id_buffer_map mb key) mbs) =
    (if k = key then buffered mu key mbs else 0)"
  using assms
proof (induction mbs)
  case Nil
  then show ?case by (simp add: delivered_def buffered_def map_filter_simps)
next
  case (Cons mb mbs)
  then have IH: "delivered mu k (List.map_filter (\<lambda>mb. id_buffer_map mb key) mbs) =
      (if k = key then buffered mu key mbs else 0)" by simp
  show ?case
  proof (cases "id_buffer_map mb key")
    case None
    with IH show ?thesis by (simp add: map_filter_simps buffered_def buf_val_def)
  next
    case (Some r)
    with Cons.prems have "key_of r = key" by simp
    with Some IH show ?thesis
      by (cases "k = key") (simp_all add: map_filter_simps buffered_def buf_val_def delivered_def)
  qed
qed

lemma buffered_released:
  "buffered mu k (map (release_buffer key) mbs) = (if k = key then 0 else buffered mu k mbs)"
proof -
  have "buf_val mu k (release_buffer key mb) = (if k = key then 0 else buf_val mu k mb)" for mb
    by (simp add: buf_val_def release_buffer_map)
  then show ?thesis by (induction mbs) (simp_all add: buffered_def)
qed

text \<open>Counting down changes what is held nowhere: a release moves buffers to the queue.\<close>

lemma held_count_down:
  assumes "proj_inv st" and "id_block_count_map st key = Some c"
  shows "held mu k (block_count_down_and_release_buffer key n st) = held mu k st"
proof (cases "wrap32 (c - n) = 0")
  case True
  have "\<forall>mb \<in> set (merge_buffer_list st). \<forall>r. id_buffer_map mb key = Some r \<longrightarrow> key_of r = key"
    using assms(1) by (simp add: proj_inv_def)
  from delivered_released [OF this, of mu k] show ?thesis
    using block_count_down_cases(2) [OF assms(2) True]
    by (simp add: held_def delivered_append buffered_released)
next
  case False
  then show ?thesis using block_count_down_cases(1) [OF assms(2)] by (simp add: held_def)
qed

lemma proj_inv_count_down:
  assumes "proj_inv st" and "id_block_count_map st key = Some c"
  shows "proj_inv (block_count_down_and_release_buffer key n st)"
proof (cases "wrap32 (c - n) = 0")
  case True
  then show ?thesis
    using block_count_down_cases(2) [OF assms(2) True] assms(1)
    by (auto simp: proj_inv_def release_buffer_map split: if_splits)
next
  case False
  then show ?thesis
    using block_count_down_cases(1) [OF assms(2)] assms(1) by (auto simp: proj_inv_def)
qed

section \<open>One result\<close>

text \<open>A result whose rows all project to something that fits into a buffer.\<close>

definition projects :: "CsdResult \<Rightarrow> bytes list \<Rightarrow> bytes list \<Rightarrow> bool" where
  "projects res rows prows \<longleftrightarrow>
     holds_closed (data res) rows \<and> length prows = length rows \<and>
     (\<forall>i < length rows. value_of (project_row (snippet res) (rows ! i)) = Some (prows ! i) \<and>
        int (length (prows ! i)) \<le> BUFFER_SIZE)"

text \<open>The state between the rows of one result of worker \<open>w\<close>.\<close>

definition midway :: "nat \<Rightarrow> string \<Rightarrow> ProjectionState \<Rightarrow> ProjectionState \<Rightarrow> bool" where
  "midway w key st0 st \<longleftrightarrow>
     proj_inv st \<and> length (merge_buffer_list st) = length (merge_buffer_list st0) \<and>
     w < length (merge_buffer_list st) \<and>
     id_buffer_map (merge_buffer_list st ! w) key \<noteq> None \<and>
     id_block_count_map st = id_block_count_map st0"

text \<open>
  A quantity of a buffer that starts at zero, grows with every row and adds up when counts are
  added. The counters are machine integers, so the last law holds as long as the sum is in range
  (\<open>ok\<close>).
\<close>

locale buffer_measure =
  fixes mu :: "Data \<Rightarrow> 'a::comm_monoid_add"
    and per_row :: "bytes \<Rightarrow> 'a"
    and counted :: "Data \<Rightarrow> 'a"
    and ok :: "'a \<Rightarrow> bool"
  assumes mu_init: "mu Data_init = 0"
    and mu_append: "wf_buf d \<Longrightarrow> wf_buf d' \<Longrightarrow> append_row p d = Done d' l \<Longrightarrow> mu d' = mu d + per_row p"
    and mu_counts: "wf_buf (data b) \<Longrightarrow> ok (mu (data b) + counted d) \<Longrightarrow>
      mu (data (add_counts d b)) = mu (data b) + counted d"
    and ok_part: "ok (x + y) \<Longrightarrow> ok x"
begin

lemma held_merge_row:
  assumes "midway w key st0 st" and "int (length p) \<le> BUFFER_SIZE"
  shows "\<exists>st' l. merge_row w key p st = Done st' l \<and> midway w key st0 st' \<and>
    held mu k st' = held mu k st + (if k = key then per_row p else 0)"
proof -
  have inv: "proj_inv st" and w: "w < length (merge_buffer_list st)" using assms(1) by (simp_all add: midway_def)
  obtain buf where own: "id_buffer_map (merge_buffer_list st ! w) key = Some buf"
    using assms(1) by (auto simp: midway_def)
  note wf = proj_invD [OF inv w own]
  obtain buf' q l where m: "merge_row w key p st = Done (set_buffer w key buf' (st\<lparr>return_queue := q\<rparr>)) l"
    and b: "key_of buf' = key" "wf_buf (data buf')"
    and q: "q = return_queue st \<and> append_row p (data buf) = Done (data buf') l \<or>
      work q = work (return_queue st) @ [buf] \<and> append_row p Data_init = Done (data buf') l"
    using merge_row_step [OF inv w own assms(2)] by blast
  let ?st = "set_buffer w key buf' (st\<lparr>return_queue := q\<rparr>)"
  have "proj_inv (st\<lparr>return_queue := q\<rparr>)" using inv by (simp add: proj_inv_def)
  then have "proj_inv ?st" using proj_inv_set_buffer [of "st\<lparr>return_queue := q\<rparr>"] w b wf(3) by simp
  then have mid: "midway w key st0 ?st" using assms(1) by (simp add: midway_def)
  have "held mu k ?st = held mu k st + (if k = key then per_row p else 0)"
    using q
  proof
    assume q: "q = return_queue st \<and> append_row p (data buf) = Done (data buf') l"
    then have "mu (data buf') = mu (data buf) + per_row p" using mu_append wf(2) b(2) by blast
    then show ?thesis
      using held_set_buffer_same [OF w own, of mu buf'] held_set_buffer_other [OF w, of k key mu buf'] q
      by simp
  next
    assume q: "work q = work (return_queue st) @ [buf] \<and> append_row p Data_init = Done (data buf') l"
    then have "mu (data buf') = per_row p" using mu_append [of Data_init] mu_init b(2) by fastforce
    then show ?thesis
      using held_flush [OF w inv own, of q mu buf'] held_flush_other [OF w inv _ own, of k q mu buf'] q
      by simp
  qed
  then show ?thesis using m mid by blast
qed

lemma held_rows:
  assumes "midway w key st0 st" and "projects res rows prows"
  shows "\<exists>st'. value_of (fold_exec (projection_step w key res) [0..<length rows] st) = Some st' \<and>
    midway w key st0 st' \<and>
    held mu k st' = held mu k st + (if k = key then sum_list (map per_row prows) else 0)"
proof -
  let ?P = "\<lambda>i st'. midway w key st0 st' \<and>
    held mu k st' = held mu k st + (if k = key then sum_list (map per_row (take i prows)) else 0)"
  have "\<exists>st'. value_of (fold_exec (projection_step w key res) [0..<length rows] st) = Some st' \<and> ?P (length rows) st'"
  proof (rule fold_exec_upt_inv)
    show "?P 0 st" using assms(1) by simp
    fix i s
    assume i: "i < length rows" and P: "?P i s"
    have row: "row_of (data res) i = ret (rows ! i)"
      using assms(2) i by (intro row_of_closed) (simp_all add: projects_def)
    have pr: "value_of (project_row (snippet res) (rows ! i)) = Some (prows ! i)"
      "int (length (prows ! i)) \<le> BUFFER_SIZE" "i < length prows"
      using assms(2) i by (simp_all add: projects_def)
    obtain s' l where s': "merge_row w key (prows ! i) s = Done s' l" "midway w key st0 s'"
      "held mu k s' = held mu k s + (if k = key then per_row (prows ! i) else 0)"
      using held_merge_row [of w key st0 s "prows ! i" k] P pr(2) by blast
    have "value_of (projection_step w key res i s) = Some s'"
      using row pr(1) s'(1) by (simp add: projection_step_def value_of_bind)
    moreover have "?P (Suc i) s'"
      using s' P pr(3) by (simp add: take_Suc_conv_app_nth add.assoc)
    ultimately show "\<exists>s'. value_of (projection_step w key res i s) = Some s' \<and> ?P (Suc i) s'" by blast
  qed
  moreover have "take (length rows) prows = prows" using assms(2) by (simp add: projects_def)
  ultimately show ?thesis by (simp only:)
qed

end

text \<open>The counter and the worker's buffer are in place.\<close>

definition counter_at :: "CsdResult \<Rightarrow> int option \<Rightarrow> int" where
  "counter_at res c = (case c of None \<Rightarrow> csd_block_count (result_info (snippet res)) | Some c \<Rightarrow> c)"

definition started :: "nat \<Rightarrow> CsdResult \<Rightarrow> ProjectionState \<Rightarrow> ProjectionState" where
  "started w res st =
     (let st1 = make_block_count_map (key_of res) (csd_block_count (result_info (snippet res))) st
      in st1\<lparr>merge_buffer_list := (merge_buffer_list st1)
              [w := check_id_buffer (key_of res) (snippet res) (merge_buffer_list st1 ! w)]\<rparr>)"

lemma started_counter:
  "id_block_count_map (started w res st) =
     (id_block_count_map st)(key_of res \<mapsto> counter_at res (id_block_count_map st (key_of res)))"
  by (auto simp: started_def make_block_count_map_def counter_at_def Let_def split: option.splits)

lemma started_list:
  "merge_buffer_list (started w res st) = (merge_buffer_list st)
     [w := check_id_buffer (key_of res) (snippet res) (merge_buffer_list st ! w)]"
  "return_queue (started w res st) = return_queue st"
  by (simp_all add: started_def make_block_count_map_def Let_def split: option.splits)

lemma CsdResult_init_0 [simp]: "data (CsdResult_init s 0 0 0) = Data_init"
  by (simp add: CsdResult_init_def Data_init_def)

lemma check_id_buffer_map:
  "id_buffer_map (check_id_buffer key snip mb) =
     (case id_buffer_map mb key of
        None \<Rightarrow> (id_buffer_map mb)(key \<mapsto> CsdResult_init snip 0 0 0) | Some _ \<Rightarrow> id_buffer_map mb)"
  by (simp add: check_id_buffer_def split: option.splits)

lemma key_of_init: "key_of (CsdResult_init (snippet res) 0 0 0) = key_of res"
  by (simp add: key_of_def CsdResult_init_def)

lemma started_midway:
  assumes "proj_inv st" "w < length (merge_buffer_list st)"
  shows "midway w (key_of res) (started w res st) (started w res st)"
proof -
  let ?key = "key_of res" and ?mbs = "merge_buffer_list st"
  let ?mb = "check_id_buffer ?key (snippet res) (?mbs ! w)"
  have "proj_inv (started w res st)"
    unfolding proj_inv_def
  proof (intro ballI allI impI)
    fix mb k r
    assume "mb \<in> set (merge_buffer_list (started w res st))" and r: "id_buffer_map mb k = Some r"
    then have "mb \<in> set ?mbs \<or> mb = ?mb"
      by (auto simp: started_list dest: set_update_subset_insert [THEN subsetD])
    then have "(\<exists>mb' \<in> set ?mbs. id_buffer_map mb' k = Some r) \<or>
        k = ?key \<and> r = CsdResult_init (snippet res) 0 0 0"
      using r assms(2) by (auto simp: check_id_buffer_map split: option.splits if_splits)
    then show "key_of r = k \<and> wf_buf (data r) \<and> id_block_count_map (started w res st) k \<noteq> None"
    proof
      assume "\<exists>mb' \<in> set ?mbs. id_buffer_map mb' k = Some r"
      then show ?thesis using assms(1) by (auto simp: proj_inv_def started_counter)
    next
      assume "k = ?key \<and> r = CsdResult_init (snippet res) 0 0 0"
      then show ?thesis by (simp add: key_of_init started_counter)
    qed
  qed
  moreover have "id_buffer_map ?mb ?key \<noteq> None" by (simp add: check_id_buffer_map split: option.splits)
  ultimately show ?thesis using assms(2) by (simp add: midway_def started_list)
qed

lemma projectioning_started:
  assumes "w < length (merge_buffer_list st)"
  shows "projectioning w res st =
    bind_exec (if row_count (data res) \<noteq> 0
               then fold_exec (projection_step w (key_of res) res) [0..<nat (row_count (data res))]
                      (started w res st)
               else ret (started w res st)) (\<lambda>st3.
    bind_exec (own_buffer w (key_of res) st3) (\<lambda>buf.
    ret (block_count_down_and_release_buffer (key_of res) (current_block_count (data res))
           (set_buffer w (key_of res) (add_counts (data res) buf) st3))))"
proof -
  have "length (merge_buffer_list (make_block_count_map k n st)) = length (merge_buffer_list st)" for k n
    by (simp add: make_block_count_map_def split: option.splits)
  then show ?thesis using assms
    by (simp add: projectioning_def started_def key_of_def Let_def)
qed

lemma add_counts_rows:
  "buf_rows (data (add_counts d b)) = buf_rows (data b)"
  "holds_rows (data (add_counts d b)) rs = holds_rows (data b) rs"
  "data_length (data (add_counts d b)) = data_length (data b)"
  by (simp_all add: add_counts_def holds_rows_def buf_rows_def)

lemma wf_add_counts: "wf_buf (data b) \<Longrightarrow> wf_buf (data (add_counts d b))"
  by (simp add: wf_buf_def add_counts_rows)

context buffer_measure
begin

lemma held_started:
  assumes "w < length (merge_buffer_list st)"
  shows "held mu k (started w res st) = held mu k st"
proof -
  have "buf_val mu k (check_id_buffer key snip mb) = buf_val mu k mb" for key snip mb
    by (auto simp: buf_val_def check_id_buffer_map mu_init split: option.splits)
  then show ?thesis
    using buffered_update [OF assms, of mu k] by (simp add: held_def started_list)
qed

lemma held_projectioning:
  assumes "proj_inv st" "w < length (merge_buffer_list st)" and "projects res rows prows"
    and "k = key_of res \<Longrightarrow> ok (held mu k st + (sum_list (map per_row prows) + counted (data res)))"
  shows "\<exists>st3. value_of (projectioning w res st) =
      Some (block_count_down_and_release_buffer (key_of res) (current_block_count (data res)) st3) \<and>
    proj_inv st3 \<and> length (merge_buffer_list st3) = length (merge_buffer_list st) \<and>
    id_block_count_map st3 =
      (id_block_count_map st)(key_of res \<mapsto> counter_at res (id_block_count_map st (key_of res))) \<and>
    held mu k st3 = held mu k st +
      (if k = key_of res then sum_list (map per_row prows) + counted (data res) else 0)"
proof -
  let ?key = "key_of res" and ?st = "started w res st"
  have n: "nat (row_count (data res)) = length rows" "row_count (data res) = int (length rows)"
    using assms(3) by (simp_all add: projects_def holds_closed_def)
  obtain st2 where st2: "value_of (fold_exec (projection_step w ?key res) [0..<length rows] ?st) = Some st2"
    "midway w ?key ?st st2"
    "held mu k st2 = held mu k ?st + (if k = ?key then sum_list (map per_row prows) else 0)"
    using held_rows [OF started_midway [OF assms(1,2)] assms(3)] by blast
  obtain buf where own: "id_buffer_map (merge_buffer_list st2 ! w) ?key = Some buf"
    using st2(2) by (auto simp: midway_def)
  have inv: "proj_inv st2" and w: "w < length (merge_buffer_list st2)"
    using st2(2) by (simp_all add: midway_def)
  note wf = proj_invD [OF inv w own]
  let ?st3 = "set_buffer w ?key (add_counts (data res) buf) st2"
  have "value_of (projectioning w res st) =
      Some (block_count_down_and_release_buffer ?key (current_block_count (data res)) ?st3)"
    using st2(1) own w n
    by (auto simp: projectioning_started [OF assms(2)] value_of_bind own_buffer_def)
  moreover have "proj_inv ?st3"
    using inv w wf wf_add_counts [OF wf(2)]
    by (intro proj_inv_set_buffer) (simp_all add: key_of_def add_counts_def)
  moreover have "held mu k ?st3 = held mu k st2 + (if k = ?key then counted (data res) else 0)"
  proof (cases "k = ?key")
    case True
    obtain x where x: "held mu k st2 = mu (data buf) + x"
      using held_own_part [OF w own, of mu] True by blast
    have "ok (held mu k st2 + counted (data res))"
      using assms(4) [OF True] st2(3) True held_started [OF assms(2), of k res] by (simp add: add.assoc)
    then have "ok ((mu (data buf) + counted (data res)) + x)" by (simp add: x add_ac)
    then have "mu (data (add_counts (data res) buf)) = mu (data buf) + counted (data res)"
      using mu_counts [OF wf(2)] ok_part by blast
    then show ?thesis
      using held_set_buffer_same [OF w own, of mu "add_counts (data res) buf"] True by simp
  next
    case False
    then show ?thesis using held_set_buffer_other [OF w, of k ?key mu "add_counts (data res) buf"] by simp
  qed
  ultimately show ?thesis
    using st2(2,3) held_started [OF assms(2), of k res]
    by (intro exI [of _ ?st3]) (simp add: midway_def started_counter started_list add.assoc)
qed

end

text \<open>What \<^verbatim>\<open>append_row\<close> leaves alone, and the length it reaches.\<close>

lemma append_row_frame:
  assumes "append_row p d = Done d' l"
  shows "data_length d + int (length p) \<le> BUFFER_SIZE" "current_block_count d' = current_block_count d"
    "scanned_row_count d' = scanned_row_count d" "filtered_row_count d' = filtered_row_count d"
  using assms by (auto simp: append_row_def arith32_def bind_Done split: if_splits)

interpretation rows_of: buffer_measure "\<lambda>d. mset (buf_rows d)" "\<lambda>p. {#p#}" "\<lambda>d. {#}" "\<lambda>_. True"
proof unfold_locales
  fix d d' p l
  assume a: "wf_buf d" "wf_buf d'" "append_row p d = Done d' l"
  then have "buf_rows d' = buf_rows d @ [p]"
    using append_row_wf [OF a(1) append_row_frame(1) [OF a(3)]] by auto
  then show "mset (buf_rows d') = mset (buf_rows d) + {#p#}" by simp
qed (simp_all add: add_counts_rows, simp add: buf_rows_def Data_init_def)

text \<open>A counter as a natural number; a negative one is out of range.\<close>

definition cnt :: "(Data \<Rightarrow> int) \<Rightarrow> Data \<Rightarrow> nat" where
  "cnt c d = (if 0 \<le> c d then nat (c d) else 2 ^ 31)"

lemma cnt_add:
  assumes "cnt c d + cnt c d' < 2 ^ 31" and "c d'' = wrap32 (c d + c d')"
  shows "cnt c d'' = cnt c d + cnt c d'"
proof -
  have "0 \<le> c d" "0 \<le> c d'" using assms(1) by (auto simp: cnt_def split: if_splits)
  moreover from this assms(1) have "c d + c d' < 2 ^ 31" by (simp add: cnt_def)
  ultimately have "c d'' = c d + c d'" using assms(2) by (simp add: int32_ok_def)
  with \<open>0 \<le> c d\<close> \<open>0 \<le> c d'\<close> show ?thesis by (simp add: cnt_def nat_add_distrib)
qed

lemma counter_measure:
  assumes "c Data_init = 0" and "\<And>d d' p l. append_row p d = Done d' l \<Longrightarrow> c d' = c d"
    and "\<And>d b. c (data (add_counts d b)) = wrap32 (c (data b) + c d)"
  shows "buffer_measure (cnt c) (\<lambda>p. 0) (cnt c) (\<lambda>n. n < 2 ^ 31)"
proof unfold_locales
  show "cnt c Data_init = 0" by (simp add: cnt_def assms(1))
  show "cnt c d' = cnt c d + 0" if "append_row p d = Done d' l" for d d' p l
    using assms(2) [OF that] by (simp add: cnt_def)
  show "cnt c (data (add_counts d b)) = cnt c (data b) + cnt c d"
    if "cnt c (data b) + cnt c d < 2 ^ 31" for d b
    using that assms(3) by (rule cnt_add)
qed simp

interpretation blocks_of: buffer_measure "cnt current_block_count" "\<lambda>p. 0" "cnt current_block_count" "\<lambda>n. n < 2 ^ 31"
  by (rule counter_measure) (simp_all add: append_row_frame add_counts_def Data_init_def)

interpretation scanned_of: buffer_measure "cnt scanned_row_count" "\<lambda>p. 0" "cnt scanned_row_count" "\<lambda>n. n < 2 ^ 31"
  by (rule counter_measure) (simp_all add: append_row_frame add_counts_def Data_init_def)

interpretation filtered_of: buffer_measure "cnt filtered_row_count" "\<lambda>p. 0" "cnt filtered_row_count" "\<lambda>n. n < 2 ^ 31"
  by (rule counter_measure) (simp_all add: append_row_frame add_counts_def Data_init_def)

section \<open>A run of the layer\<close>

text \<open>Results of any snippets, each taken by some worker, one after the other.\<close>

type_synonym call = "nat \<times> CsdResult"

definition project_all :: "call list \<Rightarrow> ProjectionState \<Rightarrow> ProjectionState exec" where
  "project_all calls st = fold_exec (\<lambda>(w, res). projectioning w res) calls st"

definition good_call :: "nat \<Rightarrow> (CsdResult \<Rightarrow> bytes list) \<Rightarrow> (CsdResult \<Rightarrow> bytes list) \<Rightarrow> call \<Rightarrow> bool" where
  "good_call n rows prows c \<longleftrightarrow> fst c < n \<and> projects (snd c) (rows (snd c)) (prows (snd c))"

definition mine :: "string \<Rightarrow> call list \<Rightarrow> CsdResult list" where
  "mine key calls = map snd (filter (\<lambda>c. key_of (snd c) = key) calls)"

text \<open>The block counter of one snippet: created by its first result, removed at zero.\<close>

definition counter_step :: "CsdResult \<Rightarrow> int option \<Rightarrow> int option" where
  "counter_step res c =
     (let c' = wrap32 (counter_at res c - current_block_count (data res)) in if c' = 0 then None else Some c')"

context buffer_measure
begin

lemma held_call:
  assumes "proj_inv st" "w < length (merge_buffer_list st)" and "projects res rows prows"
    and "k = key_of res \<Longrightarrow> ok (held mu k st + (sum_list (map per_row prows) + counted (data res)))"
  shows "\<exists>st'. value_of (projectioning w res st) = Some st' \<and> proj_inv st' \<and>
    length (merge_buffer_list st') = length (merge_buffer_list st) \<and>
    id_block_count_map st' = (id_block_count_map st)
      (key_of res := counter_step res (id_block_count_map st (key_of res))) \<and>
    held mu k st' = held mu k st +
      (if k = key_of res then sum_list (map per_row prows) + counted (data res) else 0)"
proof -
  let ?key = "key_of res" and ?n = "current_block_count (data res)"
  let ?c = "counter_at res (id_block_count_map st ?key)"
  obtain st3 where st3: "value_of (projectioning w res st) =
        Some (block_count_down_and_release_buffer ?key ?n st3)"
    "proj_inv st3" "length (merge_buffer_list st3) = length (merge_buffer_list st)"
    "id_block_count_map st3 = (id_block_count_map st)(?key \<mapsto> ?c)"
    "held mu k st3 = held mu k st +
      (if k = ?key then sum_list (map per_row prows) + counted (data res) else 0)"
    using held_projectioning [OF assms] by blast
  have c: "id_block_count_map st3 ?key = Some ?c" by (simp add: st3(4))
  note inv = proj_inv_count_down [OF st3(2) c, of ?n] and hd = held_count_down [OF st3(2) c, of mu k ?n]
  have "length (merge_buffer_list (block_count_down_and_release_buffer ?key ?n st3)) =
      length (merge_buffer_list st)"
    using block_count_down_cases [OF c, of ?n] st3(3) by (cases "wrap32 (?c - ?n) = 0") simp_all
  moreover have "id_block_count_map (block_count_down_and_release_buffer ?key ?n st3) =
      (id_block_count_map st)(?key := counter_step res (id_block_count_map st ?key))"
    using block_count_down_cases [OF c, of ?n] st3(4)
    by (cases "wrap32 (?c - ?n) = 0") (simp_all add: counter_step_def Let_def)
  ultimately show ?thesis using st3(1,5) inv hd by auto
qed

lemma held_run:
  assumes "proj_inv st" and "\<forall>c \<in> set calls. good_call (length (merge_buffer_list st)) rows prows c"
    and "ok (held mu k st +
      sum_list (map (\<lambda>res. sum_list (map per_row (prows res)) + counted (data res)) (mine k calls)))"
  shows "\<exists>st'. value_of (project_all calls st) = Some st' \<and> proj_inv st' \<and>
    id_block_count_map st' k = fold counter_step (mine k calls) (id_block_count_map st k) \<and>
    held mu k st' = held mu k st +
      sum_list (map (\<lambda>res. sum_list (map per_row (prows res)) + counted (data res)) (mine k calls))"
  using assms
proof (induction calls arbitrary: st)
  case Nil
  then show ?case by (simp add: project_all_def mine_def)
next
  case (Cons c calls)
  obtain w res where c: "c = (w, res)" by fastforce
  have g: "w < length (merge_buffer_list st)" "projects res (rows res) (prows res)"
    using Cons.prems(2) c by (simp_all add: good_call_def)
  have ok1: "ok (held mu k st + (sum_list (map per_row (prows res)) + counted (data res)))" if "k = key_of res"
    by (rule ok_part) (use Cons.prems(3) that c in \<open>simp add: mine_def add.assoc\<close>)
  obtain st1 where st1: "value_of (projectioning w res st) = Some st1" "proj_inv st1"
    "length (merge_buffer_list st1) = length (merge_buffer_list st)"
    "id_block_count_map st1 = (id_block_count_map st)
      (key_of res := counter_step res (id_block_count_map st (key_of res)))"
    "held mu k st1 = held mu k st +
      (if k = key_of res then sum_list (map per_row (prows res)) + counted (data res) else 0)"
    using held_call [OF Cons.prems(1) g ok1] by blast
  have ok2: "ok (held mu k st1 +
      sum_list (map (\<lambda>res. sum_list (map per_row (prows res)) + counted (data res)) (mine k calls)))"
    using Cons.prems(3) st1(5) c by (cases "k = key_of res") (simp_all add: mine_def add.assoc)
  have "\<forall>c \<in> set calls. good_call (length (merge_buffer_list st1)) rows prows c"
    using Cons.prems(2) st1(3) by simp
  from Cons.IH [OF st1(2) this ok2] obtain st' where st': "value_of (project_all calls st1) = Some st'"
    "proj_inv st'" "id_block_count_map st' k = fold counter_step (mine k calls) (id_block_count_map st1 k)"
    "held mu k st' = held mu k st1 +
      sum_list (map (\<lambda>res. sum_list (map per_row (prows res)) + counted (data res)) (mine k calls))"
    by blast
  have "value_of (project_all (c # calls) st) = Some st'"
    using st1(1) st'(1) by (simp add: project_all_def c value_of_bind)
  then show ?case using st' st1(4,5) c
    by (cases "k = key_of res") (simp_all add: mine_def add.assoc)
qed

end

text \<open>Whether a buffer is well formed is itself such a quantity: the number of those that are not.\<close>

interpretation ill_of: buffer_measure "\<lambda>d. if wf_buf d then 0 else 1 :: nat" "\<lambda>p. 0" "\<lambda>d. 0" "\<lambda>_. True"
  by unfold_locales (simp_all add: wf_add_counts)

lemma in_le_sum_list: "(x :: int) \<in> set ns \<Longrightarrow> \<forall>n \<in> set ns. 0 \<le> n \<Longrightarrow> x \<le> sum_list ns"
proof (induction ns)
  case (Cons n ns)
  have "0 \<le> sum_list ns" using Cons.prems(2) by (intro sum_list_nonneg_int) simp
  with Cons show ?case by auto
qed simp

lemma counter_reaches_zero:
  assumes "rs \<noteq> []" and "\<forall>r \<in> set rs. 0 \<le> current_block_count (data r)"
    and "0 < current_block_count (data (last rs))"
    and "\<forall>r \<in> set rs. csd_block_count (result_info (snippet r)) = total_blocks"
    and "sum_list (map (\<lambda>r. current_block_count (data r)) rs) =
      (case c of None \<Rightarrow> total_blocks | Some n \<Rightarrow> n)"
    and "sum_list (map (\<lambda>r. current_block_count (data r)) rs) < 2 ^ 31"
  shows "fold counter_step rs c = None"
  using assms
proof (induction rs arbitrary: c)
  case Nil
  then show ?case by simp
next
  case (Cons r rs)
  have at: "counter_at r c = (case c of None \<Rightarrow> total_blocks | Some n \<Rightarrow> n)"
    using Cons.prems(4) by (simp add: counter_at_def split: option.splits)
  show ?case
  proof (cases "rs = []")
    case True
    then show ?thesis using Cons.prems(5) at by (simp add: counter_step_def Let_def)
  next
    case False
    let ?s = "sum_list (map (\<lambda>r. current_block_count (data r)) rs)"
    have nn: "\<forall>n \<in> set (map (\<lambda>r. current_block_count (data r)) rs). 0 \<le> n"
      using Cons.prems(2) by simp
    have "current_block_count (data (last rs)) \<le> ?s"
      using False nn by (intro in_le_sum_list) simp_all
    then have pos: "0 < ?s" using Cons.prems(3) False by simp
    have small: "?s < 2 ^ 31" using Cons.prems(2,6) by simp
    have "counter_at r c - current_block_count (data r) = ?s" using Cons.prems(5) at by simp
    then have "counter_step r c = Some ?s"
      using pos small by (simp add: counter_step_def Let_def int32_ok_def)
    then show ?thesis using Cons.IH [of "Some ?s"] Cons.prems False small by simp
  qed
qed

lemma sum_list_zero: "\<forall>x \<in> set xs. f x = 0 \<Longrightarrow> sum_list (map f xs) = (0 :: 'a::comm_monoid_add)"
  by (induction xs) simp_all

lemma init_counter: "id_block_count_map (ProjectionState_init n) k = None"
  by (simp add: ProjectionState_init_def)

lemma sum_list_singletons: "sum_list (map (\<lambda>p. {#p#}) ps) = mset ps"
  by (induction ps) simp_all

lemma released_held:
  assumes "proj_inv st" "id_block_count_map st k = None"
  shows "\<forall>mb \<in> set (merge_buffer_list st). id_buffer_map mb k = None"
    and "held mu k st = delivered mu k (work (return_queue st))"
proof -
  show none: "\<forall>mb \<in> set (merge_buffer_list st). id_buffer_map mb k = None"
    using assms unfolding proj_inv_def by (metis option.exhaust)
  have "\<forall>mb \<in> set (merge_buffer_list st). buf_val mu k mb = 0" using none by (simp add: buf_val_def)
  then have "buffered mu k (merge_buffer_list st) = 0" by (simp add: buffered_def sum_list_zero)
  then show "held mu k st = delivered mu k (work (return_queue st))" by (simp add: held_def)
qed

lemma held_init: "held mu k (ProjectionState_init n) = 0"
proof -
  have "\<forall>mb \<in> set (replicate n MergeBuffer_init). buf_val mu k mb = 0"
    by (simp add: buf_val_def MergeBuffer_init_def)
  then show ?thesis
    by (simp add: held_def delivered_def buffered_def ProjectionState_init_def WorkQueue_init_def
        sum_list_zero del: map_replicate set_replicate)
qed

lemma run_from_init:
  assumes "\<forall>c \<in> set calls. good_call n rows prows c"
  shows "proj_inv (ProjectionState_init n)"
    and "\<forall>c \<in> set calls. good_call (length (merge_buffer_list (ProjectionState_init n))) rows prows c"
  using assms proj_inv_init by (simp_all add: ProjectionState_init_def)

lemma cnt_sum:
  assumes "\<forall>r \<in> set rs. 0 \<le> c (data r)"
  shows "int (sum_list (map (\<lambda>r. cnt c (data r)) rs)) = sum_list (map (\<lambda>r. c (data r)) rs)"
  using assms by (induction rs) (simp_all add: cnt_def)

lemma cnt_sum_less:
  assumes "\<forall>r \<in> set rs. 0 \<le> c (data r)" and "sum_list (map (\<lambda>r. c (data r)) rs) < 2 ^ 31"
  shows "sum_list (map (\<lambda>r. cnt c (data r)) rs) < 2 ^ 31"
proof -
  have "int (sum_list (map (\<lambda>r. cnt c (data r)) rs)) < int (2 ^ 31)"
    unfolding cnt_sum [OF assms(1)] using assms(2) by simp
  then show ?thesis by (simp only: of_nat_less_iff)
qed

lemma delivered_counter:
  assumes "delivered (cnt c) k rs = n" and "n < 2 ^ 31"
  shows "delivered c k rs = int n"
proof -
  have "cnt c (data r) < 2 ^ 31" if "r \<in> set rs" "key_of r = k" for r
  proof -
    have "cnt c (data r) \<in> set (map (\<lambda>r. cnt c (data r)) (filter (\<lambda>r. key_of r = k) rs))" using that by simp
    then have "cnt c (data r) \<le> n"
      using member_le_sum_list assms(1) unfolding delivered_def by blast
    then show ?thesis using assms(2) by (rule le_less_trans)
  qed
  then have "0 \<le> c (data r)" if "r \<in> set rs" "key_of r = k" for r
    using that by (force simp: cnt_def split: if_splits)
  then have "int (delivered (cnt c) k rs) = delivered c k rs"
    unfolding delivered_def by (intro cnt_sum) simp
  then show ?thesis using assms(1) by simp
qed

text \<open>
  C18: whatever results the projection workers take, in whatever order, every call returns and
  the layer's state stays well formed: every merge buffer lies under the key of its snippet,
  holds whole rows within the buffer size, and has a block counter.
\<close>

theorem projection_keeps_invariant:
  assumes "\<forall>c \<in> set calls. good_call n rows prows c"
  shows "\<exists>st. value_of (project_all calls (ProjectionState_init n)) = Some st \<and> proj_inv st"
  using rows_of.held_run [OF run_from_init [OF assms] TrueI] by blast

lemma snippet_delivered:
  assumes good: "\<forall>c \<in> set calls. good_call n rows prows c"
    and some: "mine k calls \<noteq> []"
    and nonneg: "\<forall>r \<in> set (mine k calls). 0 \<le> current_block_count (data r)"
    and final: "0 < current_block_count (data (last (mine k calls)))"
    and blocks: "\<forall>r \<in> set (mine k calls). csd_block_count (result_info (snippet r)) = total_blocks"
    and sum: "sum_list (map (\<lambda>r. current_block_count (data r)) (mine k calls)) = total_blocks"
    and counts: "\<forall>r \<in> set (mine k calls). 0 \<le> scanned_row_count (data r) \<and> 0 \<le> filtered_row_count (data r)"
    and range: "total_blocks < 2 ^ 31"
      "sum_list (map (\<lambda>r. scanned_row_count (data r)) (mine k calls)) < 2 ^ 31"
      "sum_list (map (\<lambda>r. filtered_row_count (data r)) (mine k calls)) < 2 ^ 31"
  shows "\<exists>st. value_of (project_all calls (ProjectionState_init n)) = Some st \<and>
    id_block_count_map st k = None \<and>
    (\<forall>mb \<in> set (merge_buffer_list st). id_buffer_map mb k = None) \<and>
    delivered (\<lambda>d. mset (buf_rows d)) k (work (return_queue st)) =
      sum_list (map (\<lambda>r. mset (prows r)) (mine k calls)) \<and>
    delivered current_block_count k (work (return_queue st)) = total_blocks \<and>
    delivered scanned_row_count k (work (return_queue st)) =
      sum_list (map (\<lambda>r. scanned_row_count (data r)) (mine k calls)) \<and>
    delivered filtered_row_count k (work (return_queue st)) =
      sum_list (map (\<lambda>r. filtered_row_count (data r)) (mine k calls)) \<and>
    (\<forall>r \<in> set (work (return_queue st)). key_of r = k \<longrightarrow> wf_buf (data r))"
proof -
  note init = run_from_init [OF good]
  obtain st where st: "value_of (project_all calls (ProjectionState_init n)) = Some st" "proj_inv st"
    "id_block_count_map st k = fold counter_step (mine k calls) None"
    "held (\<lambda>d. mset (buf_rows d)) k st = sum_list (map (\<lambda>r. mset (prows r)) (mine k calls))"
    using rows_of.held_run [OF init TrueI, of k]
    by (auto simp: held_init init_counter sum_list_singletons)
  have zero: "id_block_count_map st k = None"
    using counter_reaches_zero [OF some nonneg final blocks, of None] sum range(1) st(3) by simp
  note none = released_held(1) [OF st(2) zero] and gone = released_held(2) [OF st(2) zero]
  have total: "delivered c k (work (return_queue st)) = sum_list (map (\<lambda>r. c (data r)) (mine k calls))"
    if run: "held (cnt c) k st = sum_list (map (\<lambda>r. cnt c (data r)) (mine k calls))"
      and nn: "\<forall>r \<in> set (mine k calls). 0 \<le> c (data r)"
      and small: "sum_list (map (\<lambda>r. c (data r)) (mine k calls)) < 2 ^ 31" for c
  proof -
    let ?n = "sum_list (map (\<lambda>r. cnt c (data r)) (mine k calls))"
    note cnt_sum_less [OF nn small]
    moreover have "delivered (cnt c) k (work (return_queue st)) = ?n" using run gone [of "cnt c"] by simp
    ultimately show ?thesis using delivered_counter [of c k] cnt_sum [OF nn] by simp
  qed
  have b: "delivered current_block_count k (work (return_queue st)) = total_blocks"
  proof -
    have "sum_list (map (\<lambda>r. current_block_count (data r)) (mine k calls)) < 2 ^ 31" using sum range(1) by simp
    note small = cnt_sum_less [OF nonneg this] and t = total [OF _ nonneg this]
    show ?thesis
      using t blocks_of.held_run [OF init, of k] small st(1) sum by (simp add: held_init sum_list_0)
  qed
  have nn: "\<forall>r \<in> set (mine k calls). 0 \<le> scanned_row_count (data r)"
    "\<forall>r \<in> set (mine k calls). 0 \<le> filtered_row_count (data r)" using counts by simp_all
  have s: "delivered scanned_row_count k (work (return_queue st)) =
      sum_list (map (\<lambda>r. scanned_row_count (data r)) (mine k calls))"
    using total [OF _ nn(1) range(2)] scanned_of.held_run [OF init, of k] cnt_sum_less [OF nn(1) range(2)] st(1)
    by (simp add: held_init sum_list_0)
  have f: "delivered filtered_row_count k (work (return_queue st)) =
      sum_list (map (\<lambda>r. filtered_row_count (data r)) (mine k calls))"
    using total [OF _ nn(2) range(3)] filtered_of.held_run [OF init, of k] cnt_sum_less [OF nn(2) range(3)] st(1)
    by (simp add: held_init sum_list_0)
  have "delivered (\<lambda>d. if wf_buf d then 0 else 1 :: nat) k (work (return_queue st)) = 0"
    using ill_of.held_run [OF init TrueI, of k] st(1)
      gone [of "\<lambda>d. if wf_buf d then 0 else 1 :: nat"] by (auto simp: held_init sum_list_0)
  then have wf: "\<forall>r \<in> set (work (return_queue st)). key_of r = k \<longrightarrow> wf_buf (data r)"
    by (auto simp: delivered_def split: if_splits)
  show ?thesis
    using st(1,4) zero none b s f wf gone [of "\<lambda>d. mset (buf_rows d)"]
    by auto
qed

text \<open>
  C3: when the blocks of a snippet have all been accounted for, everything of it has been handed
  to the return layer exactly once, however its results were spread over the workers and mixed
  with other snippets: the projected rows as a multiset, the number of blocks, and the numbers of
  scanned and filtered rows; no buffer and no counter of it remains, and every buffer sent is
  within the buffer size. The counters are \<^verbatim>\<open>int\<close>, so this is for counts that are not negative
  and whose sums stay below \<^verbatim>\<open>2^31\<close>.
\<close>

theorem snippet_delivered_once:
  assumes good: "\<forall>c \<in> set calls. good_call n rows prows c"
    and some: "mine k calls \<noteq> []"
    and nonneg: "\<forall>r \<in> set (mine k calls). 0 \<le> current_block_count (data r)"
    and final: "0 < current_block_count (data (last (mine k calls)))"
    and blocks: "\<forall>r \<in> set (mine k calls). csd_block_count (result_info (snippet r)) = total_blocks"
    and sum: "sum_list (map (\<lambda>r. current_block_count (data r)) (mine k calls)) = total_blocks"
    and counts: "\<forall>r \<in> set (mine k calls). 0 \<le> scanned_row_count (data r) \<and> 0 \<le> filtered_row_count (data r)"
    and range: "total_blocks < 2 ^ 31"
      "sum_list (map (\<lambda>r. scanned_row_count (data r)) (mine k calls)) < 2 ^ 31"
      "sum_list (map (\<lambda>r. filtered_row_count (data r)) (mine k calls)) < 2 ^ 31"
  shows "\<exists>st. value_of (project_all calls (ProjectionState_init n)) = Some st \<and>
    id_block_count_map st k = None \<and>
    (\<forall>mb \<in> set (merge_buffer_list st). id_buffer_map mb k = None) \<and>
    delivered (\<lambda>d. mset (buf_rows d)) k (work (return_queue st)) =
      sum_list (map (\<lambda>r. mset (prows r)) (mine k calls)) \<and>
    delivered current_block_count k (work (return_queue st)) = total_blocks \<and>
    delivered scanned_row_count k (work (return_queue st)) =
      sum_list (map (\<lambda>r. scanned_row_count (data r)) (mine k calls)) \<and>
    delivered filtered_row_count k (work (return_queue st)) =
      sum_list (map (\<lambda>r. filtered_row_count (data r)) (mine k calls)) \<and>
    (\<forall>r \<in> set (work (return_queue st)). key_of r = k \<longrightarrow> wf_buf (data r))"
  using assms by (rule snippet_delivered)

section \<open>A concrete run\<close>

definition demo_prows :: "bytes list" where
  "demo_prows = [cell_bytes (DecimalCell (- 12345)), cell_bytes (DecimalCell 5)]"

lemma demo_projects: "projects demo_result demo_rows demo_prows"
proof -
  have p: "value_of (project_row demo_snippet (demo_rows ! 0)) = Some (demo_prows ! 0)"
    "value_of (project_row demo_snippet (demo_rows ! 1)) = Some (demo_prows ! 1)"
    by code_simp+
  have "snippet demo_result = demo_snippet" by (simp add: demo_result_def)
  moreover have "length demo_rows = 2" "length demo_prows = 2"
    by (simp_all add: demo_rows_def demo_prows_def)
  moreover have "\<forall>q \<in> set demo_prows. int (length q) \<le> BUFFER_SIZE"
    by (simp add: demo_prows_def BUFFER_SIZE_def NUM_OF_BLOCKS_def)
  ultimately show ?thesis
    using p demo_result_holds by (auto simp: projects_def less_Suc_eq numeral_2_eq_2)
qed

lemma demo_good:
  "\<forall>c \<in> set [(1, demo_result)]. good_call 2 (\<lambda>_. demo_rows) (\<lambda>_. demo_prows) c"
  using demo_projects by (simp add: good_call_def)

theorem projection_keeps_invariant_witness:
  "\<exists>st. value_of (project_all [(1, demo_result)] (ProjectionState_init 2)) = Some st \<and> proj_inv st"
  by (rule projection_keeps_invariant [OF demo_good])

theorem snippet_delivered_once_witness:
  "\<exists>st. value_of (project_all [(1, demo_result)] (ProjectionState_init 2)) = Some st \<and>
    delivered (\<lambda>d. mset (buf_rows d)) (make_map_key 3 1) (work (return_queue st)) = mset demo_prows \<and>
    delivered scanned_row_count (make_map_key 3 1) (work (return_queue st)) = 2"
proof -
  have "mine (make_map_key 3 1) [(1, demo_result)] = [demo_result]"
    by (simp add: mine_def key_of_def demo_result_def demo_snippet_def)
  moreover have "current_block_count (data demo_result) = 1" "scanned_row_count (data demo_result) = 2"
    "csd_block_count (result_info (snippet demo_result)) = 1" "filtered_row_count (data demo_result) = 0"
    by (simp_all add: demo_result_def demo_snippet_def)
  ultimately show ?thesis
    using snippet_delivered_once [OF demo_good, of "make_map_key 3 1" 1] by auto
qed

text \<open>
  C19: projecting a row to a list of columns yields the stored bytes of these columns, one after
  the other, for fixed and variable-length columns alike, whenever they fit into as many bytes as
  the row has.
\<close>

theorem projection_copies_columns:
  assumes "schema_wf (schema_info snip)" "row_ok (schema_info snip) cells"
    and "has_var_char (schema_info snip) \<or> MySQL_VARSTRING \<notin> set (column_type (schema_info snip))"
    and "projection (query_info snip) = map (column_projection \<circ> fst) xs"
    and "\<forall>x \<in> set xs. snd x < length cells \<and> column_index (schema_info snip) (fst x) = int (snd x)"
    and "length (concat (map (\<lambda>x. cells ! snd x) xs)) \<le> length (concat cells)"
  shows "project_row snip (concat cells) = ret (concat (map (\<lambda>x. cells ! snd x) xs))"
proof (rule project_row_columns [OF laid_out_rows [OF assms(1-3)] assms(4) _ assms(6)])
  have "length cells = length (column_type (schema_info snip))"
    using assms(1,2) by (simp add: schema_wf_def row_ok_def)
  then show "\<forall>x \<in> set xs. is_column (schema_info snip) cells
      (offsets_from 0 cells @ [int (length (concat cells))]) (fst x) (snd x)
      (column_type (schema_info snip) ! snd x)"
    using assms(5) by (simp add: is_column_def layout_def)
qed

theorem projection_copies_columns_witness:
  "project_row demo_snippet (concat demo_cells) = ret (cell_bytes (DecimalCell (- 12345)))"
proof -
  have wf: "schema_wf (schema_info demo_snippet)" "row_ok (schema_info demo_snippet) demo_cells"
    by (auto simp: schema_wf_def row_ok_def demo_snippet_def demo_schema_def demo_cells_def cell_ok_def
        less_Suc_eq bytes_of_def numeral_3_eq_3)
  show ?thesis
    using projection_copies_columns [OF wf, of "[(''price'', 1)]"]
    by (simp add: demo_snippet_def demo_schema_def column_projection_def column_index_def
        demo_cells_def bytes_of_def)
qed

end
