(* ===== verification/Return_Layer.thy ===== *)
theory Return_Layer
  imports Json Projection_Laws
begin

text \<open>
  The return layer, \<^verbatim>\<open>return.cc\<close>: one connection per result buffer. The document that
  describes the buffer is written by the events of a JSON writer; its text (\<open>render\<close>, what
  \<^verbatim>\<open>rapidjson\<close> makes of the events) goes out behind its length, the peer acknowledges, and the
  buffer follows behind the length of its content. A connection is what the system calls on its
  socket say (\<open>connection\<close>) and what went through it to the peer (\<open>transcript\<close>). None of the calls
  is checked but for a \<^verbatim>\<open>recv\<close> of 0: after a failed \<^verbatim>\<open>socket\<close> or \<^verbatim>\<open>connect\<close> the calls on the socket
  fail and nothing reaches the peer, and a short \<^verbatim>\<open>send\<close> is not repeated. A signal that a failed
  \<^verbatim>\<open>send\<close> raises is not modelled.
\<close>

section \<open>Sockets\<close>

record connection =
  connected :: bool             \<comment> \<open>\<^verbatim>\<open>socket\<close> and \<^verbatim>\<open>connect\<close> succeeded\<close>
  send_len :: "nat \<Rightarrow> int"      \<comment> \<open>what the first, second, \<dots> \<^verbatim>\<open>send\<close> returned, \<open>-1\<close> for a failure\<close>
  recv_len :: int               \<comment> \<open>what \<^verbatim>\<open>recv\<close> of the acknowledgement returned, \<open>-1\<close> for a failure\<close>

record transcript =
  sent :: "bytes list"
  closed :: bool

text \<open>What reaches the peer of the bytes given to \<^verbatim>\<open>send\<close> number \<open>i\<close>.\<close>

definition transmit :: "connection \<Rightarrow> nat \<Rightarrow> bytes \<Rightarrow> bytes" where
  "transmit con i bs = (if connected con then take (nat (send_len con i)) bs else [])"

definition size_field :: "int \<Rightarrow> bytes" where
  "size_field n = le_bytes 8 n"

section \<open>Sending a result\<close>

definition int_array :: "int list \<Rightarrow> json_event list" where
  "int_array ns = StartArray # map EvInt ns @ [EndArray]"

definition string_array :: "string list \<Rightarrow> json_event list" where
  "string_array ss = StartArray # map (\<lambda>s. EvString (c_string s)) ss @ [EndArray]"

text \<open>\<^verbatim>\<open>writer.Int\<close> takes an \<^verbatim>\<open>int\<close>; only the length is wider in the structure.\<close>

definition result_events :: "CsdResult \<Rightarrow> json_event list" where
  "result_events r =
     (let s = snippet r; d = data r; i = result_info s in
      [StartObject, Key ''query_id'', EvInt (query_id s), Key ''work_id'', EvInt (work_id s),
       Key ''row_count'', EvInt (row_count d), Key ''row_offset'']
      @ int_array (row_offset d)
      @ [Key ''length'', EvInt (wrap32 (data_length d)), Key ''return_column_type'']
      @ int_array (return_column_type i)
      @ [Key ''return_column_length'']
      @ int_array (return_column_length i)
      @ [Key ''current_block_count'', EvInt (current_block_count d),
         Key ''scanned_row_count'', EvInt (scanned_row_count d),
         Key ''filtered_row_count'', EvInt (filtered_row_count d), Key ''column_alias'']
      @ string_array (column_alias i)
      @ [Key ''total_block_count'', EvInt (total_block_count i),
         Key ''table_alias'', EvString (c_string (table_alias i)), EndObject])"

text \<open>
  \<open>memory\<close> is the content of the array \<^verbatim>\<open>raw_data\<close> behind \<^verbatim>\<open>data_length\<close>, which no
  constructor clears. A \<^verbatim>\<open>recv\<close> of 0 bytes returns before the socket is closed; a failed one
  goes on.
\<close>

definition send_data ::
  "(json_event list \<Rightarrow> string) \<Rightarrow> connection \<Rightarrow> bytes \<Rightarrow> CsdResult \<Rightarrow> transcript" where
  "send_data render con memory r =
     (let block_buf = c_string (render (result_events r));
          header = [transmit con 0 (size_field (int (length block_buf))), transmit con 1 (bytes_of block_buf)]
      in if recv_len con = 0 then \<lparr>sent = header, closed = False\<rparr>
         else \<lparr>sent = header @ [transmit con 2 (size_field (data_length (data r))),
                               transmit con 3 (take (nat BUFFER_SIZE) (raw_data (data r) @ memory))],
               closed = True\<rparr>)"


section \<open>What the peer receives\<close>

text \<open>The document a buffer stands for.\<close>

definition result_json :: "CsdResult \<Rightarrow> json" where
  "result_json r =
     (let s = snippet r; d = data r; i = result_info s in
      JObject
       [(''query_id'', JInt (query_id s)), (''work_id'', JInt (work_id s)),
        (''row_count'', JInt (row_count d)), (''row_offset'', JArray (map JInt (row_offset d))),
        (''length'', JInt (data_length d)),
        (''return_column_type'', JArray (map JInt (return_column_type i))),
        (''return_column_length'', JArray (map JInt (return_column_length i))),
        (''current_block_count'', JInt (current_block_count d)),
        (''scanned_row_count'', JInt (scanned_row_count d)),
        (''filtered_row_count'', JInt (filtered_row_count d)),
        (''column_alias'', JArray (map JString (column_alias i))),
        (''total_block_count'', JInt (total_block_count i)),
        (''table_alias'', JString (table_alias i))])"

definition alias_ok :: "ResultInfo \<Rightarrow> bool" where
  "alias_ok i \<longleftrightarrow> c_string_ok (table_alias i) \<and> (\<forall>s \<in> set (column_alias i). c_string_ok s)"

lemma string_array_events:
  "(\<forall>s \<in> set ss. c_string_ok s) \<Longrightarrow> string_array ss = events_of (JArray (map JString ss))"
  by (simp add: string_array_def cong: map_cong)

lemma result_events_document:
  assumes "int32_ok (data_length (data r))" and "alias_ok (result_info (snippet r))"
  shows "result_events r = events_of (result_json r)"
  using assms
  by (simp add: result_events_def result_json_def Let_def int_array_def alias_ok_def
      string_array_events)

text \<open>
  A peer that follows the protocol on the byte stream of a connection: a length, that many bytes
  of text, a length, the fixed-size buffer.
\<close>

definition receive_result :: "bytes \<Rightarrow> (string \<times> bytes \<times> bytes) option" where
  "receive_result s =
     (let n = nat (le_uint (take 8 s)); s1 = drop 8 s; txt = take n s1; s2 = drop n s1;
          k = nat (le_uint (take 8 s2)); s3 = drop 8 s2
      in if length s < 8 \<or> length s1 < n \<or> length s2 < 8 \<or> length s3 < nat BUFFER_SIZE then None
         else Some (text_of txt, take k s3, drop (nat BUFFER_SIZE) s3))"

lemma le_uint_size_field: "0 \<le> n \<Longrightarrow> n < 2 ^ 64 \<Longrightarrow> le_uint (size_field n) = n"
  by (simp add: size_field_def le_uint_le_bytes)

lemma length_size_field [simp]: "length (size_field n) = 8"
  by (simp add: size_field_def)

lemma receive_framed:
  assumes "length txt < 2 ^ 64" and "length buf = nat BUFFER_SIZE" and "k \<le> length buf"
  shows "receive_result (size_field (int (length txt)) @ bytes_of txt @ size_field (int k) @ buf @ rest)
    = Some (txt, take k buf, rest)"
proof -
  have "int (length txt) < 2 ^ 64" using assms(1) by simp
  moreover have "int k < 2 ^ 64"
    using assms(2,3) by (simp add: BUFFER_SIZE_def NUM_OF_BLOCKS_def)
  ultimately show ?thesis
    using assms(2,3) by (simp add: receive_result_def Let_def le_uint_size_field)
qed


text \<open>The four messages of a result, and a connection on which they all go through.\<close>

definition result_messages :: "(json_event list \<Rightarrow> string) \<Rightarrow> bytes \<Rightarrow> CsdResult \<Rightarrow> bytes list" where
  "result_messages render memory r =
     (let block_buf = c_string (render (result_events r)) in
      [size_field (int (length block_buf)), bytes_of block_buf, size_field (data_length (data r)),
       take (nat BUFFER_SIZE) (raw_data (data r) @ memory)])"

definition complete :: "connection \<Rightarrow> bytes list \<Rightarrow> bool" where
  "complete con msgs \<longleftrightarrow> connected con \<and> (\<forall>i < length msgs. length (msgs ! i) \<le> nat (send_len con i))"

lemma four_messages: "length (result_messages render memory r) = 4"
  by (simp add: result_messages_def Let_def)

lemma sent_messages:
  fixes render memory r
  defines "m \<equiv> \<lambda>i. result_messages render memory r ! i"
  shows "result_messages render memory r = [m 0, m 1, m 2, m 3]" "length (m 0) = 8" "length (m 2) = 8"
    "sent (send_data render con memory r) = (if recv_len con = 0 then [transmit con 0 (m 0), transmit con 1 (m 1)]
       else [transmit con 0 (m 0), transmit con 1 (m 1), transmit con 2 (m 2), transmit con 3 (m 3)])"
    "closed (send_data render con memory r) \<longleftrightarrow> recv_len con \<noteq> 0"
  by (simp_all add: m_def send_data_def result_messages_def Let_def numeral_3_eq_3)

lemma send_data_complete:
  assumes "complete con (result_messages render memory r)" and "recv_len con \<noteq> 0"
  shows "sent (send_data render con memory r) = result_messages render memory r" "closed (send_data render con memory r)"
proof -
  have "transmit con i (result_messages render memory r ! i) = result_messages render memory r ! i" if "i < 4" for i
    using assms(1) that by (simp add: complete_def four_messages transmit_def)
  then show "sent (send_data render con memory r) = result_messages render memory r" "closed (send_data render con memory r)"
    using assms(2) sent_messages(1) [of render memory r] sent_messages(4,5) [of render con memory r] by simp_all
qed

text \<open>A buffer with well-formed names whose document is a C string.\<close>

definition sendable :: "(json_event list \<Rightarrow> string) \<Rightarrow> bytes \<Rightarrow> CsdResult \<Rightarrow> bool" where
  "sendable render memory r \<longleftrightarrow>
     wf_buf (data r) \<and> alias_ok (result_info (snippet r)) \<and>
     length (render (events_of (result_json r))) < 2 ^ 64 \<and> c_string_ok (render (events_of (result_json r))) \<and>
     nat BUFFER_SIZE \<le> length (raw_data (data r)) + length memory"

lemma sendable_messages:
  assumes "sendable render memory r"
  shows "result_messages render memory r =
      [size_field (int (length (render (events_of (result_json r))))), bytes_of (render (events_of (result_json r))),
       size_field (int (length (concat (buf_rows (data r))))),
       take (nat BUFFER_SIZE) (concat (buf_rows (data r)) @ memory)]"
    and "length (concat (buf_rows (data r))) \<le> nat BUFFER_SIZE"
    and "nat BUFFER_SIZE \<le> length (concat (buf_rows (data r)) @ memory)"
proof -
  let ?d = "data r"
  have d: "raw_data ?d = concat (buf_rows ?d)" "data_length ?d = int (length (concat (buf_rows ?d)))"
    "data_length ?d \<le> BUFFER_SIZE"
    using assms by (auto simp: sendable_def wf_buf_def holds_rows_def)
  have "int32_ok (data_length ?d)"
    using d(2,3) by (simp add: int32_ok_def BUFFER_SIZE_def NUM_OF_BLOCKS_def)
  then have "result_events r = events_of (result_json r)"
    using assms by (intro result_events_document) (simp_all add: sendable_def)
  then show "result_messages render memory r =
      [size_field (int (length (render (events_of (result_json r))))), bytes_of (render (events_of (result_json r))),
       size_field (int (length (concat (buf_rows (data r))))),
       take (nat BUFFER_SIZE) (concat (buf_rows (data r)) @ memory)]"
    using assms d(1,2) by (simp add: result_messages_def Let_def sendable_def)
  show "length (concat (buf_rows ?d)) \<le> nat BUFFER_SIZE" using d(2,3) by linarith
  show "nat BUFFER_SIZE \<le> length (concat (buf_rows ?d) @ memory)" using assms d(1) by (simp add: sendable_def)
qed

text \<open>
  C17: on a connection that is established, on which every \<^verbatim>\<open>send\<close> takes all its bytes and the
  acknowledgement has at least one byte, the peer receives the text of the document that describes
  the buffer and, behind it, exactly the rows the buffer holds; nothing of the stream is left, and
  the socket is closed.
\<close>

theorem peer_receives_result:
  assumes "sendable render memory r" and "complete con (result_messages render memory r)" and "0 < recv_len con"
  shows "receive_result (concat (sent (send_data render con memory r)))
      = Some (render (events_of (result_json r)), concat (buf_rows (data r)), [])
    \<and> closed (send_data render con memory r)"
proof -
  let ?txt = "render (events_of (result_json r))" and ?rows = "concat (buf_rows (data r))"
  note m = sendable_messages [OF assms(1)]
  have "length ?txt < 2 ^ 64" using assms(1) by (simp add: sendable_def)
  then show ?thesis
    using send_data_complete [OF assms(2)] assms(3) m
      receive_framed [of ?txt "take (nat BUFFER_SIZE) (?rows @ memory)" "length ?rows" "[]"] by simp
qed



section \<open>A concrete connection\<close>

text \<open>A rendering that keeps the keys of a document, enough to run the protocol.\<close>

definition key_text :: "json_event list \<Rightarrow> string" where
  "key_text es = concat (map (\<lambda>e. case e of Key k \<Rightarrow> k @ '' '' | _ \<Rightarrow> []) es)"

definition demo_buffer :: CsdResult where
  "demo_buffer = \<lparr>snippet = demo_snippet,
     data = \<lparr>raw_data = [1, 2, 3], row_offset = [0, 1], data_length = 3, row_count = 2,
             current_block_count = 1, scanned_row_count = 2, filtered_row_count = 2\<rparr>\<rparr>"

definition demo_connection :: "int \<Rightarrow> connection" where
  "demo_connection n = \<lparr>connected = True, send_len = (\<lambda>i. BUFFER_SIZE), recv_len = n\<rparr>"

lemma demo_sendable:
  "sendable key_text (replicate (nat BUFFER_SIZE) 0) demo_buffer" "concat (buf_rows (data demo_buffer)) = [1, 2, 3]"
  "complete (demo_connection n) (result_messages key_text (replicate (nat BUFFER_SIZE) 0) demo_buffer)"
proof -
  have w: "wf_buf (data demo_buffer)"
    by (simp add: wf_buf_def demo_buffer_def buf_rows_def holds_rows_def BUFFER_SIZE_def NUM_OF_BLOCKS_def int32_ok_def)
  show rows: "concat (buf_rows (data demo_buffer)) = [1, 2, 3]" by (simp add: demo_buffer_def buf_rows_def)
  have a: "alias_ok (result_info (snippet demo_buffer))"
    by (simp add: alias_ok_def demo_buffer_def demo_snippet_def c_string_ok_def)
  have t: "length (key_text (events_of (result_json demo_buffer))) < 200"
    "c_string_ok (key_text (events_of (result_json demo_buffer)))"
    by code_simp+
  show s: "sendable key_text (replicate (nat BUFFER_SIZE) 0) demo_buffer"
    using w a t by (simp add: sendable_def)
  show "complete (demo_connection n) (result_messages key_text (replicate (nat BUFFER_SIZE) 0) demo_buffer)"
    unfolding complete_def
  proof (intro conjI allI impI)
    fix i
    assume "i < length (result_messages key_text (replicate (nat BUFFER_SIZE) 0) demo_buffer)"
    then have "i = 0 \<or> i = 1 \<or> i = 2 \<or> i = 3" by (simp add: four_messages) linarith
    then show "length (result_messages key_text (replicate (nat BUFFER_SIZE) 0) demo_buffer ! i) \<le> nat (send_len (demo_connection n) i)"
      unfolding sendable_messages(1) [OF s] using t(1)
      by (elim disjE) (simp_all add: demo_connection_def BUFFER_SIZE_def NUM_OF_BLOCKS_def numeral_3_eq_3)
  qed (simp add: demo_connection_def)
qed

theorem peer_receives_result_witness:
  "receive_result (concat (sent
      (send_data key_text (demo_connection 1) (replicate (nat BUFFER_SIZE) 0) demo_buffer)))
    = Some (key_text (events_of (result_json demo_buffer)), [1, 2, 3], [])"
  using peer_receives_result [OF demo_sendable(1,3), of 1] demo_sendable(2) by (simp add: demo_connection_def)


end
