(* ===== verification/Tmax_Block.thy ===== *)
theory Tmax_Block
  imports Cstd
begin

unbundle bit_operations_syntax

text \<open>
  Tibero data blocks and row pieces, \<^verbatim>\<open>tmax-lib/data_blk.cc\<close>, \<^verbatim>\<open>include/data_blk.h\<close> and
  the column macros of \<^verbatim>\<open>include/ex.h\<close>. A block is the byte array the worker read; the C
  structures are views of it, so a field is a little-endian read at its offset under the
  alignment rules of the target, and a pointer into the block is the suffix of the bytes that
  starts there.
\<close>

section \<open>Pointers into byte arrays\<close>

datatype ptr = Unset | Null | At bytes

definition deref :: "ptr \<Rightarrow> bytes exec" where
  "deref p = (case p of Unset \<Rightarrow> Abort Uninitialised | Null \<Rightarrow> Abort NullPointer | At s \<Rightarrow> ret s)"

definition read_at :: "nat \<Rightarrow> nat \<Rightarrow> bytes \<Rightarrow> bytes exec" where
  "read_at off n s = (if off + n \<le> length s then ret (take n (drop off s)) else Abort BadIndex)"

definition u8_at :: "nat \<Rightarrow> bytes \<Rightarrow> int exec" where
  "u8_at off s = bind_exec (read_at off 1 s) (\<lambda>b. ret (le_uint b))"

definition u16_at :: "nat \<Rightarrow> bytes \<Rightarrow> int exec" where
  "u16_at off s = bind_exec (read_at off 2 s) (\<lambda>b. ret (le_uint b))"

definition u32_at :: "nat \<Rightarrow> bytes \<Rightarrow> int exec" where
  "u32_at off s = bind_exec (read_at off 4 s) (\<lambda>b. ret (le_uint b))"

section \<open>Block layout\<close>

definition TABLE_BLOCK_TYPE :: int where
  "TABLE_BLOCK_TYPE = 13"

definition HEAD_ROW_PIECE :: int where
  "HEAD_ROW_PIECE = 0x20"

definition DELETED_ROW_PIECE :: int where
  "DELETED_ROW_PIECE = 0x10"

definition FIRSTPIECE_ROW_PIECE :: int where
  "FIRSTPIECE_ROW_PIECE = 0x08"

definition LASTPIECE_ROW_PIECE :: int where
  "LASTPIECE_ROW_PIECE = 0x04"

definition LASTCOL_CONT_ROW_PIECE :: int where
  "LASTCOL_CONT_ROW_PIECE = 0x01"

definition SKIP_TAIL_CHECK :: int where
  "SKIP_TAIL_CHECK = 0x10"

definition TAIL_CRC32 :: int where
  "TAIL_CRC32 = 0x02"

text \<open>The common header \<^verbatim>\<open>_blk_cl_t\<close>: 16 bytes.\<close>

definition cl_type :: "bytes \<Rightarrow> int exec" where
  "cl_type blk = u8_at 0 blk"

definition cl_dba :: "bytes \<Rightarrow> int exec" where
  "cl_dba blk = u32_at 4 blk"

definition cl_tsn_base :: "bytes \<Rightarrow> int exec" where
  "cl_tsn_base blk = u32_at 8 blk"

definition cl_seqno :: "bytes \<Rightarrow> int exec" where
  "cl_seqno blk = u8_at 14 blk"

definition cl_flag :: "bytes \<Rightarrow> int exec" where
  "cl_flag blk = u8_at 15 blk"

text \<open>
  The transaction layer: the sizes of its structures, two bytes of padding behind the wrap
  number of a time stamp included, and the offset of its first entry.
\<close>

definition sizeof_tsn :: nat where
  "sizeof_tsn = 4 + 2 + 2"

definition sizeof_tx :: nat where
  "sizeof_tx = 2 + 2 + 4"

definition sizeof_uea :: nat where
  "sizeof_uea = 4 + 2 + 2"

definition sizeof_itl :: nat where
  "sizeof_itl = sizeof_tx + sizeof_uea + 1 + 1 + 2 + 4"

definition sizeof_cl :: nat where
  "sizeof_cl = 1 + 3 + 4 + 4 + 2 + 1 + 1"

definition offset_itls :: nat where
  "offset_itls = 1 + 1 + 2 + 4 + 4 + sizeof_tsn"

text \<open>\<^verbatim>\<open>dblk_get_dl\<close>: the data layer follows the \<^verbatim>\<open>itlcnt\<close> entries of the transaction layer.\<close>

definition dblk_get_dl :: "bytes \<Rightarrow> bytes exec" where
  "dblk_get_dl blk =
     bind_exec (u8_at sizeof_cl blk) (\<lambda>itlcnt.
       ret (drop (sizeof_cl + offset_itls + sizeof_itl * nat itlcnt) blk))"

definition dl_rowcnt :: "bytes \<Rightarrow> int exec" where
  "dl_rowcnt dl = u16_at 4 dl"

definition dl_rowdir :: "bytes \<Rightarrow> nat \<Rightarrow> int exec" where
  "dl_rowdir dl rowno = u16_at (8 + 2 * rowno) dl"

section \<open>Verification of a block\<close>

text \<open>\<^verbatim>\<open>type << 24\<close> shifts an \<^verbatim>\<open>int\<close>; the disjunction becomes unsigned afterwards.\<close>

definition block_checksum :: "bytes \<Rightarrow> nat \<Rightarrow> bool exec" where
  "block_checksum blk blksize =
     bind_exec (cl_flag blk) (\<lambda>flag.
       if flag AND SKIP_TAIL_CHECK \<noteq> 0 then ret True
       else if flag AND TAIL_CRC32 \<noteq> 0 then Abort AssertFailed
       else bind_exec (cl_type blk) (\<lambda>type. bind_exec (cl_seqno blk) (\<lambda>seqno.
            bind_exec (cl_tsn_base blk) (\<lambda>tsn_base.
              let value = (push_bit 24 type OR push_bit 16 seqno OR (tsn_base AND 0xffff)) mod 2 ^ 32
              in if blksize < 4 then Abort BadIndex
                 else bind_exec (u32_at (blksize - 4) blk) (\<lambda>tail. ret (value = tail))))))"

definition table_block_verify :: "bytes \<Rightarrow> int \<Rightarrow> nat \<Rightarrow> bool exec" where
  "table_block_verify blk dba blksize =
     bind_exec (cl_type blk) (\<lambda>type.
       if type \<noteq> TABLE_BLOCK_TYPE then ret False
       else bind_exec (cl_dba blk) (\<lambda>d.
         if d \<noteq> dba then ret False else block_checksum blk blksize))"

section \<open>Row pieces\<close>

definition rp_flags :: "bytes \<Rightarrow> int exec" where
  "rp_flags rp = u8_at 0 rp"

definition rp_colcnt :: "bytes \<Rightarrow> int exec" where
  "rp_colcnt rp = u8_at 2 rp"

definition table_block_get_row_piece :: "bytes \<Rightarrow> nat \<Rightarrow> bytes option exec" where
  "table_block_get_row_piece blk rowno =
     bind_exec (dblk_get_dl blk) (\<lambda>dl.
     bind_exec (dl_rowdir dl rowno) (\<lambda>pos.
       if pos = 0 then ret None
       else let rp = drop (nat pos) blk in
         bind_exec (rp_flags rp) (\<lambda>flags.
           if flags AND HEAD_ROW_PIECE = 0 \<or> flags AND DELETED_ROW_PIECE \<noteq> 0 then ret None
           else ret (Some rp))))"

definition RP_HDRSIZE :: "bytes \<Rightarrow> nat exec" where
  "RP_HDRSIZE rp =
     bind_exec (rp_flags rp) (\<lambda>flags. ret (if flags AND LASTPIECE_ROW_PIECE \<noteq> 0 then 3 else 3 + 6))"

definition rp_get_data :: "bytes \<Rightarrow> bytes exec" where
  "rp_get_data rp = bind_exec (RP_HDRSIZE rp) (\<lambda>h. ret (drop h rp))"

section \<open>Columns\<close>

definition rpcol_get_size :: "bytes \<Rightarrow> int exec" where
  "rpcol_get_size col =
     bind_exec (u8_at 0 col) (\<lambda>b.
       if b \<le> 250 then ret b
       else bind_exec (u8_at 1 col) (\<lambda>hi. bind_exec (u8_at 2 col) (\<lambda>lo. ret (hi * 256 + lo))))"

definition rpcol_get_len :: "bytes \<Rightarrow> int exec" where
  "rpcol_get_len col =
     bind_exec (u8_at 0 col) (\<lambda>b.
       if b \<le> 250 then ret (b + 1)
       else bind_exec (u8_at 1 col) (\<lambda>hi. bind_exec (u8_at 2 col) (\<lambda>lo. ret (hi * 256 + lo + 3))))"

definition rpcol_get_data :: "bytes \<Rightarrow> bytes exec" where
  "rpcol_get_data col =
     bind_exec (u8_at 0 col) (\<lambda>b. if b \<le> 252 then ret (drop 1 col) else ret (drop 3 col))"

text \<open>
  The encoding the macros read: up to 250 bytes behind one length byte, longer values behind a
  marker and a big-endian length. The macros for length and content agree for the markers above
  252 only.
\<close>

definition col_enc :: "byte \<Rightarrow> bytes \<Rightarrow> bytes" where
  "col_enc marker v =
     (if length v \<le> 250 then word_of_nat (length v) # v
      else marker # word_of_nat (length v div 256) # word_of_nat (length v mod 256) # v)"

definition col_ok :: "byte \<Rightarrow> bytes \<Rightarrow> bool" where
  "col_ok marker v \<longleftrightarrow> 252 < uint marker \<and> length v < 65536"

lemma u8_at_0 [simp]: "u8_at 0 (b # s) = ret (uint b)"
  by (simp add: u8_at_def read_at_def)

lemma u8_at_Suc [simp]: "u8_at (Suc n) (b # s) = u8_at n s"
  by (simp add: u8_at_def read_at_def)

lemma u8_at_numeral [simp]:
  "u8_at 1 (a # b # s) = ret (uint b)" "u8_at 2 (a # b # c # s) = ret (uint c)"
  by (simp_all add: numeral_2_eq_2)

lemma uint_of_nat_byte: "n < 256 \<Longrightarrow> uint (word_of_nat n :: byte) = int n"
  by (simp add: unsigned_of_nat take_bit_nat_eq_self flip: of_nat_take_bit)

lemma col_enc_cases:
  assumes "col_ok m v"
  obtains (short) "length v \<le> 250" "col_enc m v = word_of_nat (length v) # v"
    | (long) "\<not> length v \<le> 250" "252 < uint m"
      "col_enc m v = m # word_of_nat (length v div 256) # word_of_nat (length v mod 256) # v"
  using assms by (auto simp: col_enc_def col_ok_def)

lemma long_length:
  assumes "length v < 65536"
  shows "uint (word_of_nat (length v div 256) :: byte) * 256
    + uint (word_of_nat (length v mod 256) :: byte) = int (length v)"
proof -
  have "length v div 256 < 256" "length v mod 256 < 256" using assms by simp_all
  then show ?thesis by (simp add: uint_of_nat_byte zdiv_int zmod_int)
qed

lemma rpcol_size_enc:
  assumes "col_ok m v"
  shows "rpcol_get_size (col_enc m v @ s) = ret (int (length v))"
  using assms
proof (cases rule: col_enc_cases)
  case short
  then show ?thesis by (simp add: rpcol_get_size_def uint_of_nat_byte)
next
  case long
  with assms long_length [of v] show ?thesis by (simp add: rpcol_get_size_def col_ok_def)
qed

lemma length_col_enc:
  "length (col_enc m v) = (if length v \<le> 250 then length v + 1 else length v + 3)"
  by (simp add: col_enc_def)

lemma rpcol_len_enc:
  assumes "col_ok m v"
  shows "rpcol_get_len (col_enc m v @ s) = ret (int (length (col_enc m v)))"
  using assms
proof (cases rule: col_enc_cases)
  case short
  then show ?thesis by (simp add: rpcol_get_len_def uint_of_nat_byte)
next
  case long
  with assms long_length [of v] show ?thesis by (simp add: rpcol_get_len_def col_ok_def)
qed

lemma rpcol_data_enc:
  assumes "col_ok m v"
  shows "rpcol_get_data (col_enc m v @ s) = ret (v @ s)"
  using assms
  by (cases rule: col_enc_cases) (simp_all add: rpcol_get_data_def uint_of_nat_byte)

text \<open>A value of 251 bytes or more behind the markers 251 and 252 is read with its two length
  bytes in front.\<close>

lemma rpcol_data_low_marker:
  assumes "250 < uint m" and "uint m \<le> 252" and "250 < length v"
  shows "rpcol_get_data (col_enc m v @ s) =
    ret (word_of_nat (length v div 256) # word_of_nat (length v mod 256) # v @ s)"
  using assms by (simp add: rpcol_get_data_def col_enc_def)

end
