(* ===== verification/Tmax_Expr.thy ===== *)
theory Tmax_Expr
  imports Tmax_Block
begin

unbundle bit_operations_syntax

text \<open>
  The Tibero filter, \<^verbatim>\<open>tmax-lib/ex.cc\<close>: the filter description sent by the server, the
  evaluation of its conditions on a row piece, and the chunks that collect the rows that pass.
  Memory from \<^verbatim>\<open>malloc\<close> that was never written is \<open>Unset\<close> (pointers) or \<open>None\<close> (numbers
  and bytes); an access outside an allocation stops the execution, except that a copy past the
  end of a chunk is a logged overrun.
\<close>

section \<open>Data\<close>

datatype exp_op_type =
    EXP_OP_NONE | EXP_OP_OR | EXP_OP_AND | EXP_OP_NOT | EXP_OP_EQUAL | EXP_OP_NE | EXP_OP_GT
  | EXP_OP_LT | EXP_OP_GE | EXP_OP_LE | EXP_OP_MAX | EXP_OP_other int

definition op_type_of_int :: "int \<Rightarrow> exp_op_type" where
  "op_type_of_int n =
     (if n = 0 then EXP_OP_NONE else if n = 1 then EXP_OP_OR else if n = 2 then EXP_OP_AND
      else if n = 3 then EXP_OP_NOT else if n = 4 then EXP_OP_EQUAL else if n = 5 then EXP_OP_NE
      else if n = 6 then EXP_OP_GT else if n = 7 then EXP_OP_LT else if n = 8 then EXP_OP_GE
      else if n = 9 then EXP_OP_LE else if n = 10 then EXP_OP_MAX else EXP_OP_other n)"

record filter_info =
  exp_cnt :: int
  col_cnt :: int
  use_cols :: "bool list option"
  use_col_cnt :: int
  all_max_colno :: int
  where_max_colno :: int
  is_char_type :: "bool list"
  op_types :: "exp_op_type list"
  exp_l_nos :: "int list"
  exp_r_nos :: "int list"
  const_vals :: "bytes list"

record exp_ctx =
  column_vals :: "ptr list"
  column_val_lens :: "int option list"

definition RES_CHUNK_SIZE :: nat where
  "RES_CHUNK_SIZE = 65536 - 3"

record chunk_t =
  chunk_buf :: "byte option list"
  used :: nat

record chunk_list =
  res_chunk :: "chunk_t list"
  chained_chunk :: "chunk_t list"

definition NULL_COLUMN :: bytes where
  "NULL_COLUMN = [0, 0, 0, 0]"

section \<open>The filter description\<close>

definition take_bytes :: "int \<Rightarrow> bytes \<Rightarrow> (bytes \<times> bytes) exec" where
  "take_bytes n pos =
     (if n < 0 then Abort BadSize
      else if length pos < nat n then Abort BadIndex
      else ret (take (nat n) pos, drop (nat n) pos))"

definition take_int :: "bytes \<Rightarrow> (int \<times> bytes) exec" where
  "take_int pos = bind_exec (take_bytes 4 pos) (\<lambda>(b, pos). ret (le_int32 b, pos))"

fun groups :: "nat \<Rightarrow> nat \<Rightarrow> bytes \<Rightarrow> bytes list" where
  "groups w 0 s = []"
| "groups w (Suc n) s = take w s # groups w n (drop w s)"

definition bool_array :: "bytes \<Rightarrow> bool list" where
  "bool_array b = map (\<lambda>x. x \<noteq> 0) b"

definition int16_of :: "bytes \<Rightarrow> int" where
  "int16_of b = (le_uint b + 2 ^ 15) mod 2 ^ 16 - 2 ^ 15"

text \<open>The constant values: each as long as its own length says.\<close>

fun read_consts :: "nat \<Rightarrow> bytes \<Rightarrow> bytes list exec" where
  "read_consts 0 pos = ret []"
| "read_consts (Suc n) pos =
     bind_exec (rpcol_get_len pos) (\<lambda>rp_len.
     bind_exec (take_bytes rp_len pos) (\<lambda>(v, pos).
     bind_exec (read_consts n pos) (\<lambda>vs. ret (v # vs))))"

definition deserialize_filter_info :: "bytes \<Rightarrow> filter_info exec" where
  "deserialize_filter_info data =
     bind_exec (take_int data) (\<lambda>(e_cnt, pos).
     bind_exec (take_int pos) (\<lambda>(c_cnt, pos).
     bind_exec (take_bytes c_cnt pos) (\<lambda>(cols, pos).
     bind_exec (take_int pos) (\<lambda>(u_cnt, pos).
     bind_exec (take_int pos) (\<lambda>(all_max, pos).
     bind_exec (take_int pos) (\<lambda>(where_max, pos).
     bind_exec (take_bytes e_cnt pos) (\<lambda>(chars, pos).
     bind_exec (take_bytes (4 * e_cnt) pos) (\<lambda>(ops, pos).
     bind_exec (take_bytes (2 * e_cnt) pos) (\<lambda>(l_nos, pos).
     bind_exec (take_bytes (2 * e_cnt) pos) (\<lambda>(r_nos, pos).
     bind_exec (take_int pos) (\<lambda>(v_cnt, pos).
     bind_exec (read_consts (nat v_cnt) pos) (\<lambda>vals.
       ret \<lparr>exp_cnt = e_cnt, col_cnt = c_cnt, use_cols = Some (bool_array cols),
            use_col_cnt = u_cnt, all_max_colno = all_max, where_max_colno = where_max,
            is_char_type = bool_array chars,
            op_types = map (\<lambda>b. op_type_of_int (le_uint b)) (groups 4 (nat e_cnt) ops),
            exp_l_nos = map int16_of (groups 2 (nat e_cnt) l_nos),
            exp_r_nos = map int16_of (groups 2 (nat e_cnt) r_nos),
            const_vals = vals\<rparr>))))))))))))"

section \<open>The columns of a row piece\<close>

definition exp_ctx_init :: "int \<Rightarrow> exp_ctx exec" where
  "exp_ctx_init n =
     (if n < 0 then Abort BadSize
      else ret \<lparr>column_vals = replicate (nat n) Unset, column_val_lens = replicate (nat n) None\<rparr>)"

definition set_column :: "nat \<Rightarrow> ptr \<Rightarrow> int \<Rightarrow> exp_ctx \<Rightarrow> exp_ctx exec" where
  "set_column i p len ctx =
     (if i < length (column_vals ctx) \<and> i < length (column_val_lens ctx)
      then ret \<lparr>column_vals = (column_vals ctx)[i := p],
                column_val_lens = (column_val_lens ctx)[i := Some (len mod 65536)]\<rparr>
      else Abort BadIndex)"

text \<open>The loop over all columns, taken without a list of used columns.\<close>

definition build_all_step :: "nat \<Rightarrow> bytes \<times> exp_ctx \<Rightarrow> (bytes \<times> exp_ctx) exec" where
  "build_all_step i acc =
     (let (rp_data, ctx) = acc in
      bind_exec (rpcol_get_len rp_data) (\<lambda>n.
      bind_exec (set_column i (At rp_data) n ctx) (\<lambda>ctx. ret (drop (nat n) rp_data, ctx))))"

text \<open>The loop with a list of used columns; it returns once all of them are found.\<close>

fun build_used :: "nat list \<Rightarrow> bool list \<Rightarrow> int \<Rightarrow> int \<Rightarrow> bytes \<Rightarrow> exp_ctx \<Rightarrow> exp_ctx exec" where
  "build_used [] usecols rp_col_cnt remained rp_data ctx = ret ctx"
| "build_used (i # is) usecols rp_col_cnt remained rp_data ctx =
     bind_exec (nth_exec usecols (int i)) (\<lambda>u.
     bind_exec (if u then bind_exec (rpcol_get_len rp_data) (\<lambda>n.
                          bind_exec (set_column i (At rp_data) n ctx) (\<lambda>ctx. ret (ctx, remained - 1)))
                else ret (ctx, remained)) (\<lambda>(ctx, remained).
       if remained \<le> 0 then ret ctx
       else if int i < rp_col_cnt - 1
       then bind_exec (rpcol_get_len rp_data) (\<lambda>n.
              build_used is usecols rp_col_cnt remained (drop (nat n) rp_data) ctx)
       else build_used is usecols rp_col_cnt remained rp_data ctx))"

definition build_data ::
  "exp_ctx \<Rightarrow> bytes \<Rightarrow> int \<Rightarrow> int \<Rightarrow> bool list option \<Rightarrow> int \<Rightarrow> exp_ctx exec" where
  "build_data ctx rp_data cols rp_col_cnt usecols usecol_cnt =
     (case usecols of
        None \<Rightarrow>
          (let m = min cols rp_col_cnt in
           bind_exec (fold_exec build_all_step [0..<nat m] (rp_data, ctx)) (\<lambda>(_, ctx).
             fold_exec (\<lambda>i. set_column i Null 1) [nat m..<nat cols] ctx))
      | Some us \<Rightarrow> build_used [0..<nat cols] us rp_col_cnt usecol_cnt rp_data ctx)"

section \<open>Conditions\<close>

text \<open>The sign of \<^verbatim>\<open>memcmp\<close>.\<close>

fun memcmp_sign :: "bytes \<Rightarrow> bytes \<Rightarrow> int" where
  "memcmp_sign (a # as) (b # bs) = (if a < b then - 1 else if b < a then 1 else memcmp_sign as bs)"
| "memcmp_sign [] bs = 0"
| "memcmp_sign (a # as) [] = 0"

definition read_prefix :: "int \<Rightarrow> bytes \<Rightarrow> bytes exec" where
  "read_prefix n s = read_at 0 (nat n) s"

definition cmp_holds :: "exp_op_type \<Rightarrow> int \<Rightarrow> bool" where
  "cmp_holds op cmp =
     (case op of EXP_OP_EQUAL \<Rightarrow> cmp = 0 | EXP_OP_NE \<Rightarrow> cmp \<noteq> 0 | EXP_OP_GT \<Rightarrow> cmp > 0
      | EXP_OP_LT \<Rightarrow> cmp < 0 | EXP_OP_GE \<Rightarrow> \<not> cmp < 0 | EXP_OP_LE \<Rightarrow> \<not> cmp > 0 | _ \<Rightarrow> False)"

text \<open>The loop over the longer operand of a character comparison.\<close>

definition any_nonblank :: "bytes \<Rightarrow> bool" where
  "any_nonblank s = list_ex (\<lambda>b. b \<noteq> 32) s"

definition exp_eval_condition :: "bytes \<Rightarrow> bytes \<Rightarrow> exp_op_type \<Rightarrow> bool \<Rightarrow> bool exec" where
  "exp_eval_condition vals_l vals_r op is_char =
     bind_exec (rpcol_get_size vals_l) (\<lambda>l_size.
     bind_exec (rpcol_get_size vals_r) (\<lambda>r_size.
     let minsize = min l_size r_size in
     if minsize = 0 then ret False
     else
       bind_exec (rpcol_get_data vals_l) (\<lambda>l_data.
       bind_exec (rpcol_get_data vals_r) (\<lambda>r_data.
       bind_exec (read_prefix minsize l_data) (\<lambda>l_pre.
       bind_exec (read_prefix minsize r_data) (\<lambda>r_pre.
       let prefix_cmp = memcmp_sign l_pre r_pre in
       bind_exec
         (if \<not> is_char then ret (if prefix_cmp \<noteq> 0 then prefix_cmp else l_size - r_size)
          else if prefix_cmp \<noteq> 0 then ret prefix_cmp
          else if l_size < r_size
          then bind_exec (read_prefix r_size r_data) (\<lambda>str.
                 ret (if any_nonblank (drop (nat l_size) str) then - 1 else 0))
          else if l_size > r_size
          then bind_exec (read_prefix l_size l_data) (\<lambda>str.
                 ret (if any_nonblank (drop (nat r_size) str) then 1 else 0))
          else ret 0) (\<lambda>cmp. ret (cmp_holds op cmp))))))))"

text \<open>An operand of a condition: a column, or the next constant.\<close>

definition exp_operand :: "filter_info \<Rightarrow> exp_ctx \<Rightarrow> int \<Rightarrow> nat \<Rightarrow> (bytes \<times> nat) exec" where
  "exp_operand fi ctx exp_nos const_idx =
     (if exp_nos \<noteq> -1
      then bind_exec (nth_exec (column_vals ctx) exp_nos) (\<lambda>p.
             bind_exec (deref p) (\<lambda>v. ret (v, const_idx)))
      else if const_vals fi = [] then Abort NullPointer
      else bind_exec (nth_exec (const_vals fi) (int const_idx)) (\<lambda>v. ret (v, const_idx + 1)))"

fun check_loop :: "filter_info \<Rightarrow> exp_ctx \<Rightarrow> nat list \<Rightarrow> nat \<Rightarrow> bool exec" where
  "check_loop fi ctx [] const_idx = ret True"
| "check_loop fi ctx (i # is) const_idx =
     bind_exec (nth_exec (exp_l_nos fi) (int i)) (\<lambda>l_no.
     bind_exec (exp_operand fi ctx l_no const_idx) (\<lambda>(vals_l, const_idx).
     bind_exec (nth_exec (exp_r_nos fi) (int i)) (\<lambda>r_no.
     bind_exec (exp_operand fi ctx r_no const_idx) (\<lambda>(vals_r, const_idx).
     bind_exec (rpcol_get_size vals_l) (\<lambda>l_size.
     if l_size = 0 then ret False
     else bind_exec (rpcol_get_size vals_r) (\<lambda>r_size.
       if r_size = 0 then ret False
       else bind_exec (nth_exec (op_types fi) (int i)) (\<lambda>op.
         bind_exec (nth_exec (is_char_type fi) (int i)) (\<lambda>is_char.
         bind_exec (exp_eval_condition vals_l vals_r op is_char) (\<lambda>b.
           if \<not> b then ret False else check_loop fi ctx is const_idx)))))))))"

definition exp_eval_and_check_true :: "filter_info \<Rightarrow> exp_ctx \<Rightarrow> bool exec" where
  "exp_eval_and_check_true fi ctx = check_loop fi ctx [0..<nat (exp_cnt fi)] 0"

section \<open>Chunks\<close>

definition create_chunk :: chunk_t where
  "create_chunk = \<lparr>chunk_buf = [], used = 0\<rparr>"

definition create_chunk_list :: chunk_list where
  "create_chunk_list = \<lparr>res_chunk = [], chained_chunk = []\<rparr>"

definition add_chunk :: "chunk_list \<Rightarrow> bool \<Rightarrow> chunk_list" where
  "add_chunk cl is_chained =
     (if is_chained then cl\<lparr>chained_chunk := chained_chunk cl @ [create_chunk]\<rparr>
      else cl\<lparr>res_chunk := res_chunk cl @ [create_chunk]\<rparr>)"

text \<open>\<^verbatim>\<open>memcpy(chunk->buf + off, src, n)\<close>, with the bytes past the end of the allocation dropped.\<close>

definition put_at :: "nat \<Rightarrow> bytes \<Rightarrow> byte option list \<Rightarrow> byte option list" where
  "put_at off src b =
     (let b' = b @ replicate (off - length b) None
      in take RES_CHUNK_SIZE (take off b' @ map Some src @ drop (off + length src) b'))"

definition chunk_copy :: "nat \<Rightarrow> bytes \<Rightarrow> int \<Rightarrow> chunk_t \<Rightarrow> chunk_t exec" where
  "chunk_copy off src n c =
     bind_exec (read_prefix n src) (\<lambda>b.
     Done (c\<lparr>chunk_buf := put_at off b (chunk_buf c)\<rparr>)
       (if RES_CHUNK_SIZE < off + length b
        then [Overrun (min (length b) (off + length b - RES_CHUNK_SIZE))] else []))"

definition column_ptr :: "exp_ctx \<Rightarrow> nat \<Rightarrow> bytes exec" where
  "column_ptr ctx i = bind_exec (nth_exec (column_vals ctx) (int i)) deref"

text \<open>One column of a row: at the end of the last result chunk.\<close>

definition res_copy_step :: "exp_ctx \<Rightarrow> nat \<Rightarrow> chunk_list \<Rightarrow> chunk_list exec" where
  "res_copy_step ctx i cl =
     bind_exec (column_ptr ctx i) (\<lambda>v.
     bind_exec (rpcol_get_len v) (\<lambda>col_len.
     let c = last (res_chunk cl) in
     bind_exec (chunk_copy (used c) v col_len c) (\<lambda>c.
       ret (cl\<lparr>res_chunk := butlast (res_chunk cl) @ [c\<lparr>used := used c + nat col_len\<rparr>]\<rparr>))))"

definition serialize_rpcols_to_chunk :: "exp_ctx \<Rightarrow> int \<Rightarrow> chunk_list \<Rightarrow> int \<Rightarrow> chunk_list exec" where
  "serialize_rpcols_to_chunk ctx cols cl total_len =
     (let cl = (if res_chunk cl = [] \<or>
                   int (used (last (res_chunk cl))) + total_len > int RES_CHUNK_SIZE
                then add_chunk cl False else cl)
      in fold_exec (res_copy_step ctx) [0..<nat cols] cl)"

text \<open>One column of a chained row: always at the start of the last chained chunk.\<close>

definition chained_copy_step :: "exp_ctx \<Rightarrow> nat \<Rightarrow> chunk_list \<Rightarrow> chunk_list exec" where
  "chained_copy_step ctx i cl =
     bind_exec (nth_exec (column_val_lens ctx) (int i)) (\<lambda>l.
     bind_exec (get_exec l) (\<lambda>col_len.
     bind_exec (column_ptr ctx i) (\<lambda>v.
     let c = last (chained_chunk cl) in
     bind_exec (chunk_copy 0 v col_len c) (\<lambda>c.
       ret (cl\<lparr>chained_chunk := butlast (chained_chunk cl) @ [c\<lparr>used := used c + nat col_len\<rparr>]\<rparr>)))))"

definition serialize_rpcols_to_chained_chunk ::
  "exp_ctx \<Rightarrow> int \<Rightarrow> chunk_list \<Rightarrow> int \<Rightarrow> chunk_list exec" where
  "serialize_rpcols_to_chained_chunk ctx cols cl total_len =
     (let cl = (if chained_chunk cl = [] \<or>
                   int (used (last (chained_chunk cl))) + total_len > int RES_CHUNK_SIZE
                then add_chunk cl True else cl)
      in fold_exec (chained_copy_step ctx) [0..<nat cols] cl)"

text \<open>\<^verbatim>\<open>set_col_out\<close>: the columns that are not needed become the null column.\<close>

definition keep_column :: "nat \<Rightarrow> int \<times> exp_ctx \<Rightarrow> (int \<times> exp_ctx) exec" where
  "keep_column i acc =
     (let (total_len, ctx) = acc in
      bind_exec (nth_exec (column_vals ctx) (int i)) (\<lambda>p.
      bind_exec (deref p) (\<lambda>v.
      bind_exec (rpcol_get_len v) (\<lambda>n.
      bind_exec (set_column i p n ctx) (\<lambda>ctx. ret (total_len + n mod 65536, ctx))))))"

definition drop_column :: "nat \<Rightarrow> int \<times> exp_ctx \<Rightarrow> (int \<times> exp_ctx) exec" where
  "drop_column i acc =
     (let (total_len, ctx) = acc in
      bind_exec (set_column i (At NULL_COLUMN) 1 ctx) (\<lambda>ctx. ret (total_len + 1, ctx)))"

definition out_column :: "bool list option \<Rightarrow> int \<Rightarrow> nat \<Rightarrow> int \<times> exp_ctx \<Rightarrow> (int \<times> exp_ctx) exec" where
  "out_column usecols usecol_cnt i acc =
     (case usecols of
        None \<Rightarrow> if usecol_cnt = 0 then drop_column i acc else keep_column i acc
      | Some us \<Rightarrow> bind_exec (nth_exec us (int i)) (\<lambda>u. if u then keep_column i acc else drop_column i acc))"

definition set_col_out :: "exp_ctx \<Rightarrow> int \<Rightarrow> bool list option \<Rightarrow> int \<Rightarrow> (int \<times> exp_ctx) exec" where
  "set_col_out ctx cols usecols usecol_cnt =
     fold_exec (out_column usecols usecol_cnt) [0..<nat cols] (0, ctx)"

section \<open>Row pieces of a block\<close>

text \<open>\<open>None\<close> is the answer \<^verbatim>\<open>false\<close>: the piece holds every column that is needed.\<close>

definition process_chained_row ::
  "exp_ctx \<Rightarrow> bytes \<Rightarrow> chunk_list \<Rightarrow> filter_info \<Rightarrow> (exp_ctx \<times> chunk_list) option exec" where
  "process_chained_row ctx rp cl fi =
     bind_exec (rp_colcnt rp) (\<lambda>rp_col_cnt.
     bind_exec (rp_flags rp) (\<lambda>flags.
     let normal_col_cnt = (if flags AND LASTCOL_CONT_ROW_PIECE \<noteq> 0 then rp_col_cnt - 1 else rp_col_cnt)
     in if all_max_colno fi < normal_col_cnt then ret None
        else
          bind_exec (rp_get_data rp) (\<lambda>rp_data.
          bind_exec (build_data ctx rp_data rp_col_cnt rp_col_cnt (use_cols fi)
            (if rp_col_cnt > use_col_cnt fi then use_col_cnt fi else rp_col_cnt)) (\<lambda>ctx.
          bind_exec (if exp_cnt fi > 0 \<and> where_max_colno fi < normal_col_cnt
                     then exp_eval_and_check_true fi ctx else ret True) (\<lambda>pass.
          if \<not> pass then ret (Some (ctx, cl))
          else
            bind_exec (set_col_out ctx rp_col_cnt (use_cols fi) (use_col_cnt fi)) (\<lambda>(total_len, ctx).
            bind_exec (serialize_rpcols_to_chained_chunk ctx rp_col_cnt cl total_len) (\<lambda>cl.
              ret (Some (ctx, cl)))))))))"

text \<open>A row piece that is handled on its own.\<close>

definition process_row ::
  "exp_ctx \<Rightarrow> bytes \<Rightarrow> chunk_list \<Rightarrow> filter_info \<Rightarrow> (exp_ctx \<times> chunk_list) exec" where
  "process_row ctx rp cl fi =
     bind_exec (rp_get_data rp) (\<lambda>rp_data.
     bind_exec (rp_colcnt rp) (\<lambda>rp_col_cnt.
     bind_exec (build_data ctx rp_data (col_cnt fi) rp_col_cnt (use_cols fi) (use_col_cnt fi)) (\<lambda>ctx.
     bind_exec (if exp_cnt fi > 0 then exp_eval_and_check_true fi ctx else ret True) (\<lambda>pass.
       if \<not> pass then ret (ctx, cl)
       else bind_exec (set_col_out ctx (col_cnt fi) (use_cols fi) (use_col_cnt fi)) (\<lambda>(total_len, ctx).
            bind_exec (serialize_rpcols_to_chunk ctx (col_cnt fi) cl total_len) (\<lambda>cl.
              ret (ctx, cl)))))))"

definition csd_row_step ::
  "bytes \<Rightarrow> filter_info \<Rightarrow> nat \<Rightarrow> exp_ctx \<times> chunk_list \<Rightarrow> (exp_ctx \<times> chunk_list) exec" where
  "csd_row_step blk fi rowno acc =
     (let (ctx, cl) = acc in
      bind_exec (table_block_get_row_piece blk rowno) (\<lambda>piece.
        case piece of
          None \<Rightarrow> ret (ctx, cl)
        | Some rp \<Rightarrow>
            bind_exec (rp_flags rp) (\<lambda>flags.
              if flags AND FIRSTPIECE_ROW_PIECE = 0 \<or> flags AND LASTPIECE_ROW_PIECE = 0
              then bind_exec (process_chained_row ctx rp cl fi) (\<lambda>r.
                     case r of Some acc \<Rightarrow> ret acc | None \<Rightarrow> process_row ctx rp cl fi)
              else process_row ctx rp cl fi)))"

definition csd_filter_and_eval_out :: "bytes \<Rightarrow> filter_info \<Rightarrow> chunk_list \<Rightarrow> chunk_list exec" where
  "csd_filter_and_eval_out blk fi cl =
     bind_exec (dblk_get_dl blk) (\<lambda>dl.
     bind_exec (dl_rowcnt dl) (\<lambda>rpcnt.
     bind_exec (exp_ctx_init (col_cnt fi)) (\<lambda>ctx.
     bind_exec (fold_exec (csd_row_step blk fi) [0..<nat rpcnt] (ctx, cl)) (\<lambda>(_, cl). ret cl))))"

section \<open>Writing chunks to the result buffer\<close>

text \<open>
  The buffer is the list of the bytes written so far: every write goes to \<^verbatim>\<open>*total_len\<close>, the
  end of it. The result is the flag, the index to go on at, and the buffer.
\<close>

definition chunk_at :: "chunk_list \<Rightarrow> nat \<Rightarrow> (chunk_t \<times> byte) exec" where
  "chunk_at cl i =
     (if i < length (res_chunk cl) then ret (res_chunk cl ! i, 0)
      else bind_exec (nth_exec (chained_chunk cl) (int i)) (\<lambda>c. ret (c, 1)))"

definition chunk_bytes :: "chunk_t \<Rightarrow> byte option list" where
  "chunk_bytes c = take (used c) (chunk_buf c @ replicate (used c) None)"

definition chunk_frame :: "chunk_t \<Rightarrow> byte \<Rightarrow> byte option list" where
  "chunk_frame c chunk_flag =
     Some (word_of_nat (used c div 256)) # Some (word_of_nat (used c)) # Some chunk_flag # chunk_bytes c"

fun write_chunks ::
  "chunk_list \<Rightarrow> int \<Rightarrow> nat list \<Rightarrow> nat \<Rightarrow> byte option list
   \<Rightarrow> (bool \<times> nat \<times> byte option list) exec" where
  "write_chunks cl big_chunk_size [] idx big_chunk = ret (True, idx, big_chunk)"
| "write_chunks cl big_chunk_size (i # is) idx big_chunk =
     bind_exec (chunk_at cl i) (\<lambda>(c, chunk_flag).
       if int (length big_chunk) + int (used c) + 3 > big_chunk_size then ret (False, i, big_chunk)
       else write_chunks cl big_chunk_size is idx (big_chunk @ chunk_frame c chunk_flag))"

definition write_chunk_list_to_buffer ::
  "chunk_list \<Rightarrow> int \<Rightarrow> nat \<Rightarrow> byte option list \<Rightarrow> (bool \<times> nat \<times> byte option list) exec" where
  "write_chunk_list_to_buffer cl big_chunk_size idx big_chunk =
     write_chunks cl big_chunk_size
       [idx..<length (res_chunk cl) + length (chained_chunk cl)] idx big_chunk"

end
