(* ===== verification/Tmax_Laws.thy ===== *)
theory Tmax_Laws
  imports Tmax_Expr
begin

text \<open>
  What the Tibero filter computes. Values are byte strings; a column stores one in the encoding
  \<open>col_enc\<close>. The laws go from the filter description and a single condition over the columns of
  a row piece to a whole block.
\<close>

section \<open>The filter description\<close>

text \<open>The byte stream the server sends for a description whose constants are the values \<open>vs\<close>.\<close>

definition op_type_to_int :: "exp_op_type \<Rightarrow> int" where
  "op_type_to_int t =
     (case t of EXP_OP_NONE \<Rightarrow> 0 | EXP_OP_OR \<Rightarrow> 1 | EXP_OP_AND \<Rightarrow> 2 | EXP_OP_NOT \<Rightarrow> 3
      | EXP_OP_EQUAL \<Rightarrow> 4 | EXP_OP_NE \<Rightarrow> 5 | EXP_OP_GT \<Rightarrow> 6 | EXP_OP_LT \<Rightarrow> 7 | EXP_OP_GE \<Rightarrow> 8
      | EXP_OP_LE \<Rightarrow> 9 | EXP_OP_MAX \<Rightarrow> 10 | EXP_OP_other n \<Rightarrow> n)"

definition bool_bytes :: "bool list \<Rightarrow> bytes" where
  "bool_bytes bs = map (\<lambda>b. if b then 1 else 0) bs"

definition filter_stream :: "filter_info \<Rightarrow> bytes" where
  "filter_stream fi =
     le_bytes 4 (exp_cnt fi) @ le_bytes 4 (col_cnt fi) @ bool_bytes (the (use_cols fi))
     @ le_bytes 4 (use_col_cnt fi) @ le_bytes 4 (all_max_colno fi) @ le_bytes 4 (where_max_colno fi)
     @ bool_bytes (is_char_type fi)
     @ concat (map (\<lambda>t. le_bytes 4 (op_type_to_int t)) (op_types fi))
     @ concat (map (le_bytes 2) (exp_l_nos fi)) @ concat (map (le_bytes 2) (exp_r_nos fi))
     @ le_bytes 4 (int (length (const_vals fi))) @ concat (const_vals fi)"

definition int16_ok :: "int \<Rightarrow> bool" where
  "int16_ok z \<longleftrightarrow> - (2 ^ 15) \<le> z \<and> z < 2 ^ 15"

definition filter_ok :: "byte \<Rightarrow> filter_info \<Rightarrow> bool" where
  "filter_ok mk fi \<longleftrightarrow>
     0 \<le> exp_cnt fi \<and> int32_ok (exp_cnt fi) \<and> 0 \<le> col_cnt fi \<and> int32_ok (col_cnt fi) \<and>
     (\<exists>us. use_cols fi = Some us \<and> int (length us) = col_cnt fi) \<and>
     int32_ok (use_col_cnt fi) \<and> int32_ok (all_max_colno fi) \<and> int32_ok (where_max_colno fi) \<and>
     int (length (is_char_type fi)) = exp_cnt fi \<and> int (length (op_types fi)) = exp_cnt fi \<and>
     (\<forall>t \<in> set (op_types fi). \<forall>n. t \<noteq> EXP_OP_other n) \<and>
     int (length (exp_l_nos fi)) = exp_cnt fi \<and> (\<forall>n \<in> set (exp_l_nos fi). int16_ok n) \<and>
     int (length (exp_r_nos fi)) = exp_cnt fi \<and> (\<forall>n \<in> set (exp_r_nos fi). int16_ok n) \<and>
     int32_ok (int (length (const_vals fi))) \<and>
     (\<exists>vs. const_vals fi = map (col_enc mk) vs \<and> (\<forall>v \<in> set vs. col_ok mk v))"

lemma take_bytes_append [simp]: "n = int (length b) \<Longrightarrow> take_bytes n (b @ s) = ret (b, s)"
  by (simp add: take_bytes_def)

lemma take_int_append [simp]: "int32_ok n \<Longrightarrow> take_int (le_bytes 4 n @ s) = ret (n, s)"
  by (simp add: take_int_def)

lemma groups_concat:
  assumes "\<forall>x \<in> set xs. length (f x) = w"
  shows "groups w (length xs) (concat (map f xs)) = map f xs"
  using assms by (induction xs) simp_all

lemma bool_array_bytes [simp]: "bool_array (bool_bytes bs) = bs"
  by (induction bs) (simp_all add: bool_array_def bool_bytes_def)

lemma length_bool_bytes [simp]: "length (bool_bytes bs) = length bs"
  by (simp add: bool_bytes_def)

lemma op_type_round [simp]:
  "(\<forall>n. t \<noteq> EXP_OP_other n) \<Longrightarrow> op_type_of_int (le_uint (le_bytes 4 (op_type_to_int t))) = t"
  by (cases t) (simp_all add: op_type_to_int_def op_type_of_int_def le_uint_le_bytes)

lemma int16_round [simp]: "int16_ok n \<Longrightarrow> int16_of (le_bytes 2 n) = n"
  by (simp add: int16_of_def int16_ok_def le_uint_le_bytes mod_add_left_eq)

lemma read_consts_enc:
  assumes "\<forall>v \<in> set vs. col_ok mk v"
  shows "read_consts (length vs) (concat (map (col_enc mk) vs) @ s) = ret (map (col_enc mk) vs)"
  using assms
proof (induction vs)
  case Nil
  then show ?case by simp
next
  case (Cons v vs)
  then show ?case by (simp add: rpcol_len_enc)
qed

lemma take_group:
  assumes "length xs = n"
  shows "take_bytes (int w * int n) (concat (map (\<lambda>x. le_bytes w (f x)) xs) @ s) =
    ret (concat (map (\<lambda>x. le_bytes w (f x)) xs), s)"
proof -
  have "length (concat (map (\<lambda>x. le_bytes w (f x)) xs)) = w * length xs"
    by (induction xs) simp_all
  with assms show ?thesis by (simp del: length_concat)
qed

text \<open>
  C28: the filter description that the server serialises is what the worker reconstructs, field
  by field, constants with their length prefixes included.
\<close>

theorem filter_description_roundtrip:
  assumes "filter_ok mk fi"
  shows "deserialize_filter_info (filter_stream fi) = ret fi"
proof -
  obtain us vs where us: "use_cols fi = Some us" "int (length us) = col_cnt fi"
    and vs: "const_vals fi = map (col_enc mk) vs" "\<forall>v \<in> set vs. col_ok mk v"
    using assms by (auto simp: filter_ok_def)
  have ops: "map (\<lambda>b. op_type_of_int (le_uint b)) (groups 4 (length (op_types fi))
      (concat (map (\<lambda>t. le_bytes 4 (op_type_to_int t)) (op_types fi)))) = op_types fi"
    using assms by (simp add: groups_concat filter_ok_def comp_def map_idI)
  have nos: "map int16_of (groups 2 (length ns) (concat (map (le_bytes 2) ns))) = ns"
    if "\<forall>n \<in> set ns. int16_ok n" for ns
    using that by (simp add: groups_concat comp_def map_idI)
  have n: "nat (exp_cnt fi) = length (op_types fi)" "length (exp_l_nos fi) = length (op_types fi)"
    "length (exp_r_nos fi) = length (op_types fi)" "length (is_char_type fi) = length (op_types fi)"
    "exp_cnt fi = int (length (op_types fi))"
    using assms unfolding filter_ok_def by linarith+
  note nos' = nos [of "exp_l_nos fi"] nos [of "exp_r_nos fi"]
  have rc: "read_consts (length vs) (concat (map (col_enc mk) vs)) = ret (map (col_enc mk) vs)"
    using read_consts_enc [OF vs(2), of "[]"] by simp
  show ?thesis
    using assms us vs(1) ops nos' n rc take_group [where w = 4 and f = op_type_to_int]
      take_group [where w = 2 and f = "\<lambda>z. z"]
    by (simp add: deserialize_filter_info_def filter_stream_def filter_ok_def)
qed

theorem filter_description_roundtrip_witness:
  "let fi = \<lparr>exp_cnt = 1, col_cnt = 3, use_cols = Some [True, False, True], use_col_cnt = 2,
     all_max_colno = 2, where_max_colno = 0, is_char_type = [False], op_types = [EXP_OP_GT],
     exp_l_nos = [0], exp_r_nos = [-1], const_vals = [[1, 5]]\<rparr>
   in deserialize_filter_info (filter_stream fi) = ret fi"
proof -
  let ?fi = "\<lparr>exp_cnt = 1, col_cnt = 3, use_cols = Some [True, False, True], use_col_cnt = 2,
     all_max_colno = 2, where_max_colno = 0, is_char_type = [False], op_types = [EXP_OP_GT],
     exp_l_nos = [0], exp_r_nos = [-1], const_vals = [[1, 5]]\<rparr>"
  have "\<exists>vs. [[1, 5]] = map (col_enc 255) vs \<and> (\<forall>v \<in> set vs. col_ok 255 v)"
    by (rule exI [of _ "[[5]]"]) (simp add: col_enc_def col_ok_def)
  then have "filter_ok 255 ?fi"
    by (simp add: filter_ok_def int32_ok_def int16_ok_def)
  then show ?thesis unfolding Let_def by (rule filter_description_roundtrip)
qed

section \<open>A single condition\<close>

text \<open>
  Bytes compare as unsigned numbers and byte strings lexicographically. Character values compare
  as if the shorter one were padded with blanks.
\<close>

definition pad_blank :: "nat \<Rightarrow> bytes \<Rightarrow> bytes" where
  "pad_blank n v = v @ replicate (n - length v) 32"

definition op_spec :: "exp_op_type \<Rightarrow> bytes \<Rightarrow> bytes \<Rightarrow> bool" where
  "op_spec op v w =
     (case op of EXP_OP_EQUAL \<Rightarrow> v = w | EXP_OP_NE \<Rightarrow> v \<noteq> w | EXP_OP_GT \<Rightarrow> w < v
      | EXP_OP_LT \<Rightarrow> v < w | EXP_OP_GE \<Rightarrow> w \<le> v | EXP_OP_LE \<Rightarrow> v \<le> w | _ \<Rightarrow> False)"

definition cond_holds :: "exp_op_type \<Rightarrow> bool \<Rightarrow> bytes \<Rightarrow> bytes \<Rightarrow> bool" where
  "cond_holds op is_char v w \<longleftrightarrow>
     v \<noteq> [] \<and> w \<noteq> [] \<and>
     (if is_char then let n = max (length v) (length w) in op_spec op (pad_blank n v) (pad_blank n w)
      else op_spec op v w)"

definition printable :: "bytes \<Rightarrow> bool" where
  "printable v \<longleftrightarrow> (\<forall>b \<in> set v. 32 \<le> b)"

definition lex_cmp :: "bytes \<Rightarrow> bytes \<Rightarrow> int" where
  "lex_cmp v w = (if memcmp_sign v w \<noteq> 0 then memcmp_sign v w else int (length v) - int (length w))"

definition blank_cmp :: "bytes \<Rightarrow> bytes \<Rightarrow> int" where
  "blank_cmp v w =
     (if memcmp_sign v w \<noteq> 0 then memcmp_sign v w
      else if any_nonblank (drop (length v) w) then - 1
      else if any_nonblank (drop (length w) v) then 1 else 0)"

lemma memcmp_sign_take:
  "memcmp_sign (take (min (length v) (length w)) v) (take (min (length v) (length w)) w) =
   memcmp_sign v w"
  by (induction v w rule: memcmp_sign.induct) simp_all

lemma lex_cmp_Cons:
  "lex_cmp (a # as) (b # bs) = (if a < b then - 1 else if b < a then 1 else lex_cmp as bs)"
  by (simp add: lex_cmp_def)

lemma lex_cmp_order:
  "(lex_cmp v w < 0 \<longleftrightarrow> v < w) \<and> (lex_cmp v w = 0 \<longleftrightarrow> v = w)"
proof (induction v w rule: memcmp_sign.induct)
  case (1 a as b bs)
  then show ?case by (auto simp: lex_cmp_Cons)
next
  case (2 w)
  then show ?case by (cases w) (simp_all add: lex_cmp_def)
next
  case (3 a v)
  then show ?case by (simp add: lex_cmp_def)
qed

lemma blanks_least:
  assumes "printable w"
  shows "(replicate (length w + k) 32 < w @ replicate k 32 \<longleftrightarrow> any_nonblank w) \<and>
    (replicate (length w + k) 32 = w @ replicate k 32 \<longleftrightarrow> \<not> any_nonblank w) \<and>
    \<not> w @ replicate k 32 < replicate (length w + k) 32"
  using assms
  by (induction w) (auto simp: any_nonblank_def printable_def not_less order.order_iff_strict)

lemma pad_blank_Cons: "pad_blank (Suc n) (a # as) = a # pad_blank n as"
  by (simp add: pad_blank_def)

lemma pad_blank_Nil: "pad_blank n [] = replicate n 32"
  by (simp add: pad_blank_def)

lemma blank_cmp_Cons:
  "blank_cmp (a # as) (b # bs) = (if a < b then - 1 else if b < a then 1 else blank_cmp as bs)"
  by (simp add: blank_cmp_def)

lemma blank_cmp_order:
  assumes "printable v" and "printable w" and "length v \<le> n" and "length w \<le> n"
  shows "(blank_cmp v w < 0 \<longleftrightarrow> pad_blank n v < pad_blank n w) \<and>
    (blank_cmp v w = 0 \<longleftrightarrow> pad_blank n v = pad_blank n w)"
  using assms
proof (induction v w arbitrary: n rule: memcmp_sign.induct)
  case (1 a as b bs)
  then obtain m where "n = Suc m" by (cases n) simp_all
  with 1 show ?case by (auto simp: blank_cmp_Cons pad_blank_Cons printable_def)
next
  case (2 w)
  then show ?case
    using blanks_least [of w "n - length w"]
    by (auto simp: blank_cmp_def pad_blank_Nil) (auto simp: pad_blank_def any_nonblank_def)
next
  case (3 a as)
  then show ?case
    using blanks_least [of "a # as" "n - length (a # as)"]
    by (auto simp: blank_cmp_def pad_blank_Nil) (auto simp: pad_blank_def any_nonblank_def)
qed

lemma cmp_holds_spec:
  assumes "(c < 0 \<longleftrightarrow> v < w) \<and> (c = 0 \<longleftrightarrow> v = w)"
  shows "cmp_holds op c = op_spec op v w"
  using assms by (cases op) (auto simp: cmp_holds_def op_spec_def)

lemma read_prefix_append [simp]:
  "n \<le> int (length v) \<Longrightarrow> read_prefix n (v @ s) = ret (take (nat n) v)"
  by (simp add: read_prefix_def read_at_def)

lemma eval_condition_cmp:
  assumes "col_ok mk v" and "col_ok mk' w"
  shows "exp_eval_condition (col_enc mk v @ s) (col_enc mk' w @ t) op is_char =
    ret (v \<noteq> [] \<and> w \<noteq> [] \<and> cmp_holds op (if is_char then blank_cmp v w else lex_cmp v w))"
proof -
  note e = rpcol_size_enc [OF assms(1)] rpcol_size_enc [OF assms(2)]
    rpcol_data_enc [OF assms(1)] rpcol_data_enc [OF assms(2)]
  have m: "nat (min (int (length v)) (int (length w))) = min (length v) (length w)" by simp
  have d: "length v \<le> length w \<Longrightarrow> \<not> any_nonblank (drop (length w) v)" for v w
    by (simp add: any_nonblank_def)
  consider (less) "length v < length w" | (eq) "length v = length w" | (greater) "length w < length v"
    by linarith
  then show ?thesis
  proof cases
    case less
    then show ?thesis using d [of v w] memcmp_sign_take [of v w]
      by (auto simp: exp_eval_condition_def e m Let_def lex_cmp_def blank_cmp_def)
  next
    case eq
    then show ?thesis using memcmp_sign_take [of v w]
      by (auto simp: exp_eval_condition_def e m Let_def lex_cmp_def blank_cmp_def any_nonblank_def)
  next
    case greater
    then show ?thesis using d [of w v] memcmp_sign_take [of v w]
      by (auto simp: exp_eval_condition_def e m Let_def lex_cmp_def blank_cmp_def)
  qed
qed

lemma eval_condition_spec:
  assumes "col_ok mk v" and "col_ok mk' w" and "is_char \<Longrightarrow> printable v \<and> printable w"
  shows "exp_eval_condition (col_enc mk v @ s) (col_enc mk' w @ t) op is_char =
    ret (cond_holds op is_char v w)"
proof (cases is_char)
  case True
  then have "printable v" "printable w" using assms(3) by simp_all
  then have "cmp_holds op (blank_cmp v w) =
      op_spec op (pad_blank (max (length v) (length w)) v) (pad_blank (max (length v) (length w)) w)"
    by (intro cmp_holds_spec blank_cmp_order) simp_all
  then show ?thesis
    using True by (simp add: eval_condition_cmp [OF assms(1,2)] cond_holds_def Let_def)
next
  case False
  have "cmp_holds op (lex_cmp v w) = op_spec op v w"
    by (rule cmp_holds_spec) (rule lex_cmp_order)
  then show ?thesis
    using False by (simp add: eval_condition_cmp [OF assms(1,2)] cond_holds_def)
qed

end
