(* ===== verification/Tmax_Rows.thy ===== *)
theory Tmax_Rows
  imports Tmax_Laws
begin

unbundle bit_operations_syntax

text \<open>
  The rows of a Tibero block: which bytes the column pointers of a row piece reach, when a row
  passes the filter, and what the result chunks hold after a block.
\<close>

section \<open>Column pointers\<close>

text \<open>
  \<open>col_at\<close>: the bytes from column \<open>j\<close> of a row piece on. The loop stops advancing at the last
  stored column, so a column the piece does not store reads the last one.
\<close>

definition stored :: "bytes list \<Rightarrow> nat \<Rightarrow> nat" where
  "stored vals j = min j (length vals - 1)"

definition col_at :: "byte \<Rightarrow> bytes list \<Rightarrow> bytes \<Rightarrow> nat \<Rightarrow> bytes" where
  "col_at mk vals rest j = concat (map (col_enc mk) (drop (stored vals j) vals)) @ rest"

definition piece_ok :: "byte \<Rightarrow> bytes list \<Rightarrow> bool" where
  "piece_ok mk vals \<longleftrightarrow> vals \<noteq> [] \<and> (\<forall>v \<in> set vals. col_ok mk v)"

definition ctx_size :: "nat \<Rightarrow> exp_ctx \<Rightarrow> bool" where
  "ctx_size n ctx \<longleftrightarrow> length (column_vals ctx) = n \<and> length (column_val_lens ctx) = n"

lemma stored_less: "vals \<noteq> [] \<Longrightarrow> stored vals j < length vals"
  by (cases vals) (simp_all add: stored_def)

lemma col_at_split:
  assumes "piece_ok mk vals"
  shows "\<exists>s. col_at mk vals rest j = col_enc mk (vals ! stored vals j) @ s \<and>
    col_ok mk (vals ! stored vals j)"
proof -
  have "stored vals j < length vals" using assms by (simp add: piece_ok_def stored_less)
  then show ?thesis
    using assms by (auto simp: col_at_def piece_ok_def Cons_nth_drop_Suc [symmetric])
qed

lemma col_at_len:
  assumes "piece_ok mk vals"
  shows "rpcol_get_len (col_at mk vals rest j) = ret (int (length (col_enc mk (vals ! stored vals j))))"
  using col_at_split [OF assms, of rest j] rpcol_len_enc by auto

lemma col_at_advance:
  assumes "piece_ok mk vals" and "int j < int (length vals) - 1"
  shows "drop (length (col_enc mk (vals ! stored vals j))) (col_at mk vals rest j) =
    col_at mk vals rest (Suc j)"
proof -
  have "stored vals j = j" "stored vals (Suc j) = Suc j" "j < length vals"
    using assms(2) by (auto simp: stored_def)
  then show ?thesis by (simp add: col_at_def Cons_nth_drop_Suc [symmetric])
qed

lemma col_at_stop: "\<not> int j < int (length vals) - 1 \<Longrightarrow> col_at mk vals rest (Suc j) = col_at mk vals rest j"
proof -
  assume "\<not> int j < int (length vals) - 1"
  then have "stored vals (Suc j) = stored vals j" by (auto simp: stored_def)
  then show ?thesis by (simp add: col_at_def)
qed

lemma set_column_ok:
  "ctx_size n ctx \<Longrightarrow> i < n \<Longrightarrow> set_column i p len ctx =
   ret \<lparr>column_vals = (column_vals ctx)[i := p], column_val_lens = (column_val_lens ctx)[i := Some (len mod 65536)]\<rparr>"
  by (simp add: set_column_def ctx_size_def)

definition used_between :: "bool list \<Rightarrow> nat \<Rightarrow> nat \<Rightarrow> nat" where
  "used_between us i n = length (filter (\<lambda>j. us ! j) [i..<n])"

lemma used_between_step:
  "i < n \<Longrightarrow> used_between us i n = (if us ! i then 1 else 0) + used_between us (Suc i) n"
  by (simp add: used_between_def upt_conv_Cons)

lemma used_between_none: "used_between us i n = 0 \<Longrightarrow> i \<le> j \<Longrightarrow> j < n \<Longrightarrow> \<not> us ! j"
  by (simp add: used_between_def filter_empty_conv)

lemma build_used_row:
  assumes "piece_ok mk vals" and "ctx_size n ctx" and "n \<le> length us" and "i \<le> n"
    and "int (used_between us i n) \<le> remained"
  shows "\<exists>ctx'. build_used [i..<n] us (int (length vals)) remained (col_at mk vals rest i) ctx = ret ctx' \<and>
    ctx_size n ctx' \<and>
    (\<forall>j < n. column_vals ctx' ! j =
       (if i \<le> j \<and> us ! j then At (col_at mk vals rest j) else column_vals ctx ! j))"
  using assms(2-5)
proof (induction "n - i" arbitrary: i ctx remained)
  case 0
  then show ?case by auto
next
  case (Suc k)
  then have i: "i < n" and k: "k = n - Suc i" by simp_all
  let ?p = "col_at mk vals rest i" and ?n = "int (length (col_enc mk (vals ! stored vals i)))"
  define ctx1 where "ctx1 = (if us ! i then \<lparr>column_vals = (column_vals ctx)[i := At ?p],
      column_val_lens = (column_val_lens ctx)[i := Some (?n mod 65536)]\<rparr> else ctx)"
  define rem1 where "rem1 = (if us ! i then remained - 1 else remained)"
  have c1: "ctx_size n ctx1" "\<forall>j < n. column_vals ctx1 ! j = (if j = i \<and> us ! i then At ?p else column_vals ctx ! j)"
    using Suc.prems(1) i by (auto simp: ctx1_def ctx_size_def)
  have r1: "int (used_between us (Suc i) n) \<le> rem1"
    using Suc.prems(4) used_between_step [OF i, of us] by (auto simp: rem1_def)
  have tail: "build_used (i # [Suc i..<n]) us (int (length vals)) remained ?p ctx =
    (if rem1 \<le> 0 then ret ctx1
     else build_used [Suc i..<n] us (int (length vals)) rem1 (col_at mk vals rest (Suc i)) ctx1)"
    using Suc.prems(1,2) i col_at_len [OF assms(1), of rest i] col_at_advance [OF assms(1), of i rest]
      col_at_stop [of i vals mk rest]
    by (simp add: ctx1_def rem1_def set_column_ok)
  show ?case
  proof (cases "rem1 \<le> 0")
    case True
    then have none: "\<not> us ! j" if "Suc i \<le> j" "j < n" for j
      using r1 used_between_none [of us "Suc i" n j] that by simp
    have "\<forall>j < n. column_vals ctx1 ! j =
        (if i \<le> j \<and> us ! j then At (col_at mk vals rest j) else column_vals ctx ! j)"
    proof (intro allI impI)
      fix j
      assume "j < n"
      then show "column_vals ctx1 ! j =
          (if i \<le> j \<and> us ! j then At (col_at mk vals rest j) else column_vals ctx ! j)"
        using c1(2) none [of j] by (cases "j = i") auto
    qed
    then show ?thesis using True c1(1) i tail by (simp add: upt_conv_Cons)
  next
    case False
    obtain ctx2 where "build_used [Suc i..<n] us (int (length vals)) rem1 (col_at mk vals rest (Suc i)) ctx1 = ret ctx2"
      "ctx_size n ctx2" "\<forall>j < n. column_vals ctx2 ! j =
        (if Suc i \<le> j \<and> us ! j then At (col_at mk vals rest j) else column_vals ctx1 ! j)"
      using Suc.hyps(1) [OF k c1(1) Suc.prems(2) _ r1] i by auto
    moreover have "(Suc i \<le> j \<or> j = i) \<longleftrightarrow> i \<le> j" for j by auto
    ultimately show ?thesis using False c1(2) i tail by (auto simp: upt_conv_Cons)
  qed
qed

section \<open>The conditions of a row\<close>

text \<open>A column number, or \<open>-1\<close> for the next constant; \<open>k\<close> constants are consumed so far.\<close>

definition operand_spec :: "bytes list \<Rightarrow> (nat \<Rightarrow> bytes) \<Rightarrow> int \<Rightarrow> nat \<Rightarrow> bytes \<times> nat" where
  "operand_spec cvals col no k = (if no \<noteq> -1 then (col (nat no), k) else (cvals ! k, Suc k))"

fun conds_hold :: "filter_info \<Rightarrow> bytes list \<Rightarrow> (nat \<Rightarrow> bytes) \<Rightarrow> nat list \<Rightarrow> nat \<Rightarrow> bool" where
  "conds_hold fi cvals col [] k \<longleftrightarrow> True"
| "conds_hold fi cvals col (i # is) k \<longleftrightarrow>
     (let (l, k1) = operand_spec cvals col (exp_l_nos fi ! i) k;
          (r, k2) = operand_spec cvals col (exp_r_nos fi ! i) k1
      in cond_holds (op_types fi ! i) (is_char_type fi ! i) l r \<and> conds_hold fi cvals col is k2)"

definition consts_needed :: "filter_info \<Rightarrow> nat list \<Rightarrow> nat" where
  "consts_needed fi is =
     (\<Sum>i\<leftarrow>is. (if exp_l_nos fi ! i = -1 then 1 else 0) + (if exp_r_nos fi ! i = -1 then 1 else 0))"

definition col_ref_ok :: "bool list \<Rightarrow> int \<Rightarrow> bool" where
  "col_ref_ok us no \<longleftrightarrow> no \<noteq> -1 \<longrightarrow> 0 \<le> no \<and> nat no < length us \<and> us ! nat no"

text \<open>
  A description that fits its use: the arrays have their sizes, conditions name used columns,
  the constants suffice, and values of character conditions are printable.
\<close>

definition filter_fits :: "byte \<Rightarrow> bool list \<Rightarrow> bytes list \<Rightarrow> filter_info \<Rightarrow> bool" where
  "filter_fits mk us cvals fi \<longleftrightarrow>
     use_cols fi = Some us \<and> col_cnt fi = int (length us) \<and>
     use_col_cnt fi = int (used_between us 0 (length us)) \<and> 0 \<le> exp_cnt fi \<and>
     const_vals fi = map (col_enc mk) cvals \<and> (\<forall>v \<in> set cvals. col_ok mk v) \<and>
     length (is_char_type fi) = nat (exp_cnt fi) \<and> length (op_types fi) = nat (exp_cnt fi) \<and>
     length (exp_l_nos fi) = nat (exp_cnt fi) \<and> length (exp_r_nos fi) = nat (exp_cnt fi) \<and>
     (\<forall>no \<in> set (exp_l_nos fi) \<union> set (exp_r_nos fi). col_ref_ok us no) \<and>
     consts_needed fi [0..<nat (exp_cnt fi)] \<le> length cvals \<and>
     (True \<in> set (is_char_type fi) \<longrightarrow> (\<forall>v \<in> set cvals. printable v))"

definition row_fits :: "byte \<Rightarrow> filter_info \<Rightarrow> bytes list \<Rightarrow> bool" where
  "row_fits mk fi vals \<longleftrightarrow>
     piece_ok mk vals \<and> (True \<in> set (is_char_type fi) \<longrightarrow> (\<forall>v \<in> set vals. printable v))"

definition columns_set :: "byte \<Rightarrow> bool list \<Rightarrow> bytes list \<Rightarrow> bytes \<Rightarrow> exp_ctx \<Rightarrow> bool" where
  "columns_set mk us vals rest ctx \<longleftrightarrow>
     ctx_size (length us) ctx \<and>
     (\<forall>j < length us. us ! j \<longrightarrow> column_vals ctx ! j = At (col_at mk vals rest j))"

text \<open>What the column pointers make of column \<open>j\<close>.\<close>

abbreviation read_col :: "bytes list \<Rightarrow> nat \<Rightarrow> bytes" where
  "read_col vals j \<equiv> vals ! stored vals j"

lemma read_col_in: "piece_ok mk vals \<Longrightarrow> read_col vals j \<in> set vals"
  by (simp add: piece_ok_def stored_less)

lemma exp_operand_spec:
  assumes "filter_fits mk us cvals fi" and "row_fits mk fi vals" and "columns_set mk us vals rest ctx"
    and "col_ref_ok us no" and "no = -1 \<Longrightarrow> k < length cvals"
  obtains s where "exp_operand fi ctx no k =
      ret (col_enc mk (fst (operand_spec cvals (read_col vals) no k)) @ s,
           snd (operand_spec cvals (read_col vals) no k))"
    and "col_ok mk (fst (operand_spec cvals (read_col vals) no k))"
    and "True \<in> set (is_char_type fi) \<Longrightarrow> printable (fst (operand_spec cvals (read_col vals) no k))"
proof (cases "no = -1")
  case True
  with assms(5) have k: "k < length cvals" by simp
  then have "cvals ! k \<in> set cvals" by simp
  with True k assms(1) show ?thesis
    by (intro that [of "[]"]) (auto simp: exp_operand_def operand_spec_def filter_fits_def)
next
  case False
  with assms(4) have no: "0 \<le> no" "nat no < length us" "us ! nat no" by (auto simp: col_ref_ok_def)
  then have "nth_exec (column_vals ctx) no = ret (At (col_at mk vals rest (nat no)))"
    using assms(3) by (simp add: columns_set_def ctx_size_def)
  moreover have p: "piece_ok mk vals" using assms(2) by (simp add: row_fits_def)
  moreover obtain s where "col_at mk vals rest (nat no) = col_enc mk (read_col vals (nat no)) @ s"
    "col_ok mk (read_col vals (nat no))"
    using col_at_split [OF p] by blast
  ultimately show ?thesis
    using False read_col_in [OF p] assms(2)
    by (intro that [of s]) (auto simp: exp_operand_def operand_spec_def deref_def row_fits_def)
qed

lemma cond_holds_Nil [simp]: "\<not> cond_holds op ch [] w" "\<not> cond_holds op ch v []"
  by (simp_all add: cond_holds_def)

lemma check_loop_spec:
  assumes "filter_fits mk us cvals fi" and "row_fits mk fi vals" and "columns_set mk us vals rest ctx"
    and "\<forall>i \<in> set is. i < nat (exp_cnt fi)" and "k + consts_needed fi is \<le> length cvals"
  shows "check_loop fi ctx is k = ret (conds_hold fi cvals (read_col vals) is k)"
  using assms(4,5)
proof (induction "is" arbitrary: k)
  case Nil
  then show ?case by simp
next
  case (Cons i "is")
  obtain l k1 where l: "operand_spec cvals (read_col vals) (exp_l_nos fi ! i) k = (l, k1)"
    by (cases "operand_spec cvals (read_col vals) (exp_l_nos fi ! i) k")
  obtain r k2 where r: "operand_spec cvals (read_col vals) (exp_r_nos fi ! i) k1 = (r, k2)"
    by (cases "operand_spec cvals (read_col vals) (exp_r_nos fi ! i) k1")
  have i: "i < length (exp_l_nos fi)" "i < length (exp_r_nos fi)" "i < length (op_types fi)"
    "i < length (is_char_type fi)"
    using Cons.prems(1) assms(1) by (simp_all add: filter_fits_def)
  have ref: "col_ref_ok us (exp_l_nos fi ! i)" "col_ref_ok us (exp_r_nos fi ! i)"
    using assms(1) i by (simp_all add: filter_fits_def)
  have need: "exp_l_nos fi ! i = -1 \<Longrightarrow> k < length cvals" "exp_r_nos fi ! i = -1 \<Longrightarrow> k1 < length cvals"
    and rest: "k2 + consts_needed fi is \<le> length cvals"
    using Cons.prems(2) l r by (auto simp: consts_needed_def operand_spec_def split: if_splits)
  obtain s where lo: "exp_operand fi ctx (exp_l_nos fi ! i) k = ret (col_enc mk l @ s, k1)"
    "col_ok mk l" "True \<in> set (is_char_type fi) \<Longrightarrow> printable l"
    using exp_operand_spec [OF assms(1-3) ref(1) need(1)] unfolding l fst_conv snd_conv by blast
  obtain t where ro: "exp_operand fi ctx (exp_r_nos fi ! i) k1 = ret (col_enc mk r @ t, k2)"
    "col_ok mk r" "True \<in> set (is_char_type fi) \<Longrightarrow> printable r"
    using exp_operand_spec [OF assms(1-3) ref(2) need(2)] unfolding r fst_conv snd_conv by blast
  have "is_char_type fi ! i \<Longrightarrow> printable l \<and> printable r"
    using i(4) lo(3) ro(3) by (metis nth_mem)
  note e = eval_condition_spec [OF lo(2) ro(2) this]
  have IH: "check_loop fi ctx is k2 = ret (conds_hold fi cvals (read_col vals) is k2)"
    using Cons.IH [OF _ rest] Cons.prems(1) by simp
  have "check_loop fi ctx (i # is) k =
      (if l = [] then ret False else if r = [] then ret False
       else if \<not> cond_holds (op_types fi ! i) (is_char_type fi ! i) l r then ret False
       else check_loop fi ctx is k2)"
    using i by (simp add: lo(1) ro(1) rpcol_size_enc [OF lo(2)] rpcol_size_enc [OF ro(2)] e)
  then show ?case by (simp add: IH l r)
qed

section \<open>The output of a row\<close>

definition out_col :: "byte \<Rightarrow> bool list \<Rightarrow> (nat \<Rightarrow> bytes) \<Rightarrow> nat \<Rightarrow> bytes" where
  "out_col mk us col j = (if us ! j then col_enc mk (col j) else [0])"

definition out_row :: "byte \<Rightarrow> bool list \<Rightarrow> (nat \<Rightarrow> bytes) \<Rightarrow> bytes" where
  "out_row mk us col = concat (map (out_col mk us col) [0..<length us])"

definition out_part :: "byte \<Rightarrow> bool list \<Rightarrow> (nat \<Rightarrow> bytes) \<Rightarrow> nat \<Rightarrow> bytes" where
  "out_part mk us col m = concat (map (out_col mk us col) [0..<m])"

definition columns_out :: "byte \<Rightarrow> bool list \<Rightarrow> bytes list \<Rightarrow> bytes \<Rightarrow> nat \<Rightarrow> exp_ctx \<Rightarrow> bool" where
  "columns_out mk us vals rest m ctx \<longleftrightarrow>
     (\<forall>j < m. \<not> us ! j \<longrightarrow> column_vals ctx ! j = At NULL_COLUMN)"

lemma out_part_all: "out_part mk us col (length us) = out_row mk us col"
  by (simp add: out_part_def out_row_def)

lemma out_part_Suc: "out_part mk us col (Suc m) = out_part mk us col m @ out_col mk us col m"
  by (simp add: out_part_def)

lemma out_part_le:
  assumes "m \<le> length us"
  shows "length (out_part mk us col m) \<le> length (out_row mk us col)"
proof -
  have "[0..<length us] = [0..<m] @ [m..<length us]"
    using assms upt_add_eq_append [of 0 m "length us - m"] by simp
  then show ?thesis by (simp add: out_part_def out_row_def)
qed

lemma out_col_le: "j < length us \<Longrightarrow> length (out_col mk us col j) \<le> length (out_row mk us col)"
  using out_part_le [of "Suc j" us mk col] by (simp add: out_part_Suc)

lemma set_col_out_row:
  assumes "piece_ok mk vals" and "columns_set mk us vals rest ctx"
    and "length (out_row mk us (read_col vals)) \<le> RES_CHUNK_SIZE"
  shows "\<exists>ctx'. set_col_out ctx (int (length us)) (Some us) c =
      ret (int (length (out_row mk us (read_col vals))), ctx') \<and>
    columns_set mk us vals rest ctx' \<and> columns_out mk us vals rest (length us) ctx'"
proof -
  let ?P = "\<lambda>m (acc :: int \<times> exp_ctx). fst acc = int (length (out_part mk us (read_col vals) m)) \<and>
    columns_set mk us vals rest (snd acc) \<and> columns_out mk us vals rest m (snd acc)"
  have "\<exists>acc. fold_exec (out_column (Some us) c) [0..<length us] (0, ctx) = ret acc \<and> ?P (length us) acc"
  proof (rule fold_exec_upt_ret)
    show "?P 0 (0, ctx)" using assms(2) by (simp add: out_part_def columns_out_def)
    fix j and acc :: "int \<times> exp_ctx"
    assume j: "j < length us" and P: "?P j acc"
    obtain total ctx1 where acc: "acc = (total, ctx1)" by (cases acc)
    have cs: "ctx_size (length us) ctx1" using P acc by (simp add: columns_set_def)
    show "\<exists>acc'. out_column (Some us) c j acc = ret acc' \<and> ?P (Suc j) acc'"
    proof (cases "us ! j")
      case True
      then have p: "column_vals ctx1 ! j = At (col_at mk vals rest j)"
        using P acc j by (simp add: columns_set_def)
      have "length (col_enc mk (read_col vals j)) < 65536"
        using out_col_le [OF j, of mk "read_col vals"] True assms(3)
        by (simp add: out_col_def RES_CHUNK_SIZE_def)
      then show ?thesis
        using True P acc j p cs col_at_len [OF assms(1), of rest j]
        by (auto simp: out_column_def keep_column_def deref_def ctx_size_def set_column_def out_part_Suc
            out_col_def columns_set_def columns_out_def less_Suc_eq nth_list_update)
    next
      case False
      then show ?thesis
        using P acc j cs
        by (auto simp: out_column_def drop_column_def ctx_size_def set_column_def out_part_Suc
            out_col_def columns_set_def columns_out_def less_Suc_eq nth_list_update)
    qed
  qed
  then show ?thesis by (auto simp: set_col_out_def out_part_all)
qed

section \<open>Result chunks\<close>

text \<open>\<open>c\<close> holds exactly the bytes \<open>b\<close>, all of them written, within its allocation.\<close>

definition chunk_holds :: "chunk_t \<Rightarrow> bytes \<Rightarrow> bool" where
  "chunk_holds c b \<longleftrightarrow> chunk_buf c = map Some b \<and> used c = length b \<and> length b \<le> RES_CHUNK_SIZE"

lemma chunk_copy_holds:
  assumes "chunk_holds c b" and "length b + length v \<le> RES_CHUNK_SIZE"
  shows "chunk_copy (used c) (v @ s) (int (length v)) c = ret (c\<lparr>chunk_buf := map Some (b @ v)\<rparr>)"
  using assms by (simp add: chunk_copy_def chunk_holds_def put_at_def Let_def)

lemma column_ptr_out:
  assumes "columns_set mk us vals rest ctx" and "columns_out mk us vals rest (length us) ctx"
    and "piece_ok mk vals" and "j < length us"
  shows "\<exists>s. column_ptr ctx j = ret (out_col mk us (read_col vals) j @ s) \<and>
    rpcol_get_len (out_col mk us (read_col vals) j @ s) = ret (int (length (out_col mk us (read_col vals) j)))"
proof (cases "us ! j")
  case True
  then have "column_ptr ctx j = ret (col_at mk vals rest j)"
    using assms(1,4) by (simp add: column_ptr_def columns_set_def ctx_size_def deref_def)
  then show ?thesis
    using True col_at_split [OF assms(3), of rest j] rpcol_len_enc by (fastforce simp: out_col_def)
next
  case False
  then have "column_ptr ctx j = ret ([0] @ [0, 0, 0])"
    using assms(1,2,4)
    by (simp add: column_ptr_def columns_set_def columns_out_def ctx_size_def deref_def NULL_COLUMN_def)
  moreover have "rpcol_get_len ([0] @ [0, 0, 0]) = ret 1" by (simp add: rpcol_get_len_def)
  ultimately show ?thesis using False by (intro exI [of _ "[0, 0, 0]"]) (simp add: out_col_def)
qed

lemma serialize_last:
  assumes "columns_set mk us vals rest ctx" and "columns_out mk us vals rest (length us) ctx"
    and "piece_ok mk vals" and "res_chunk cl = cs @ [c]" and "chunk_holds c b"
    and "length b + length (out_row mk us (read_col vals)) \<le> RES_CHUNK_SIZE"
  shows "\<exists>c'. fold_exec (res_copy_step ctx) [0..<length us] cl = ret (cl\<lparr>res_chunk := cs @ [c']\<rparr>) \<and>
    chunk_holds c' (b @ out_row mk us (read_col vals))"
proof -
  let ?o = "out_part mk us (read_col vals)"
  let ?P = "\<lambda>m cl'. \<exists>c'. cl' = cl\<lparr>res_chunk := cs @ [c']\<rparr> \<and> chunk_holds c' (b @ ?o m)"
  have "\<exists>cl'. fold_exec (res_copy_step ctx) [0..<length us] cl = ret cl' \<and> ?P (length us) cl'"
  proof (rule fold_exec_upt_ret)
    show "?P 0 cl" using assms(4,5) by (intro exI [of _ c]) (simp add: out_part_def)
    fix j cl1
    assume j: "j < length us" and "?P j cl1"
    then obtain c1 where cl1: "cl1 = cl\<lparr>res_chunk := cs @ [c1]\<rparr>" and c1: "chunk_holds c1 (b @ ?o j)"
      by blast
    let ?v = "out_col mk us (read_col vals) j"
    obtain s where s: "column_ptr ctx j = ret (?v @ s)" "rpcol_get_len (?v @ s) = ret (int (length ?v))"
      using column_ptr_out [OF assms(1-3) j] by blast
    have fit: "length (b @ ?o j) + length ?v \<le> RES_CHUNK_SIZE"
      using out_part_le [of "Suc j" us mk "read_col vals"] j assms(6) by (simp add: out_part_Suc)
    have "res_copy_step ctx j cl1 = ret (cl\<lparr>res_chunk := cs @ [\<lparr>chunk_buf = map Some ((b @ ?o j) @ ?v),
        used = used c1 + length ?v\<rparr>]\<rparr>)"
      by (simp add: res_copy_step_def s cl1 Let_def chunk_copy_holds [OF c1 fit])
    moreover have "chunk_holds \<lparr>chunk_buf = map Some ((b @ ?o j) @ ?v), used = used c1 + length ?v\<rparr>
        (b @ ?o (Suc j))"
      using c1 fit by (simp add: chunk_holds_def out_part_Suc)
    ultimately show "\<exists>cl2. res_copy_step ctx j cl1 = ret cl2 \<and> ?P (Suc j) cl2" by blast
  qed
  then show ?thesis by (auto simp: out_part_all)
qed

text \<open>The chunks as groups of rows: each row lies in one chunk.\<close>

definition chunks_hold :: "chunk_list \<Rightarrow> bytes list list \<Rightarrow> bool" where
  "chunks_hold cl gs \<longleftrightarrow>
     chained_chunk cl = [] \<and> list_all2 chunk_holds (res_chunk cl) (map concat gs) \<and> [] \<notin> set gs"

lemma serialize_row:
  assumes "columns_set mk us vals rest ctx" and "columns_out mk us vals rest (length us) ctx"
    and "piece_ok mk vals" and "chunks_hold cl gs"
    and "length (out_row mk us (read_col vals)) \<le> RES_CHUNK_SIZE"
  shows "\<exists>cl' gs'. serialize_rpcols_to_chunk ctx (int (length us)) cl
      (int (length (out_row mk us (read_col vals)))) = ret cl' \<and>
    chunks_hold cl' gs' \<and> concat gs' = concat gs @ [out_row mk us (read_col vals)]"
proof -
  let ?o = "out_row mk us (read_col vals)"
  let ?new = "res_chunk cl = [] \<or> int (used (last (res_chunk cl))) + int (length ?o) > int RES_CHUNK_SIZE"
  show ?thesis
  proof (cases ?new)
    case True
    have "res_chunk (add_chunk cl False) = res_chunk cl @ [create_chunk]" "chunk_holds create_chunk []"
      by (simp_all add: add_chunk_def create_chunk_def chunk_holds_def)
    from serialize_last [OF assms(1-3) this] assms(5)
    obtain c' where c': "fold_exec (res_copy_step ctx) [0..<length us] (add_chunk cl False) =
        ret ((add_chunk cl False)\<lparr>res_chunk := res_chunk cl @ [c']\<rparr>)" "chunk_holds c' ?o"
      by auto
    then have "chunks_hold ((add_chunk cl False)\<lparr>res_chunk := res_chunk cl @ [c']\<rparr>) (gs @ [[?o]])"
      using assms(4) by (simp add: chunks_hold_def add_chunk_def list_all2_appendI)
    then show ?thesis using True c'(1) by (auto simp: serialize_rpcols_to_chunk_def Let_def)
  next
    case False
    then obtain cs c where cl: "res_chunk cl = cs @ [c]" by (metis append_butlast_last_id)
    then obtain hs g where gs: "gs = hs @ [g]" "list_all2 chunk_holds cs (map concat hs)"
      "chunk_holds c (concat g)"
      using assms(4) by (auto simp: chunks_hold_def list_all2_append1 map_eq_append_conv list_all2_Cons1
          Cons_eq_map_conv)
    have "length (concat g) + length ?o \<le> RES_CHUNK_SIZE"
      using False cl gs(3) by (simp add: chunk_holds_def)
    from serialize_last [OF assms(1-3) cl gs(3) this]
    obtain c' where c': "fold_exec (res_copy_step ctx) [0..<length us] cl = ret (cl\<lparr>res_chunk := cs @ [c']\<rparr>)"
      "chunk_holds c' (concat g @ ?o)" by auto
    then have "chunks_hold (cl\<lparr>res_chunk := cs @ [c']\<rparr>) (hs @ [g @ [?o]])"
      using assms(4) gs(1,2) by (simp add: chunks_hold_def list_all2_appendI)
    then show ?thesis using False c'(1) gs(1) by (auto simp: serialize_rpcols_to_chunk_def Let_def)
  qed
qed

section \<open>Blocks\<close>

text \<open>
  \<open>piece_at\<close>: what a slot of the row directory leads to: nothing (an empty slot, a piece that is
  not a head or that is deleted), or a whole row in one piece with the values \<open>vals\<close>.
\<close>

definition whole_piece :: "byte \<Rightarrow> bytes \<Rightarrow> bytes list \<Rightarrow> bool" where
  "whole_piece mk rp vals \<longleftrightarrow>
     (\<exists>flags rest. rp_flags rp = ret flags \<and> flags AND FIRSTPIECE_ROW_PIECE \<noteq> 0 \<and>
        flags AND LASTPIECE_ROW_PIECE \<noteq> 0 \<and> rp_colcnt rp = ret (int (length vals)) \<and>
        rp_get_data rp = ret (concat (map (col_enc mk) vals) @ rest))"

definition piece_at :: "byte \<Rightarrow> bytes \<Rightarrow> nat \<Rightarrow> bytes list option \<Rightarrow> bool" where
  "piece_at mk blk i row \<longleftrightarrow>
     (case row of
        None \<Rightarrow> table_block_get_row_piece blk i = ret None
      | Some vals \<Rightarrow> \<exists>rp. table_block_get_row_piece blk i = ret (Some rp) \<and> whole_piece mk rp vals)"

definition block_holds :: "byte \<Rightarrow> bytes \<Rightarrow> bytes list option list \<Rightarrow> bool" where
  "block_holds mk blk rows \<longleftrightarrow>
     (\<exists>dl. dblk_get_dl blk = ret dl \<and> dl_rowcnt dl = ret (int (length rows))) \<and>
     (\<forall>i < length rows. piece_at mk blk i (rows ! i))"

text \<open>
  What the rows mean: a column that a row piece does not store is null, and a condition on a null is
  false. The pointers of \<^verbatim>\<open>build_data\<close> agree with this on rows that store every used column.
\<close>

definition row_col :: "bytes list \<Rightarrow> nat \<Rightarrow> bytes" where
  "row_col vals j = (if j < length vals then vals ! j else [])"

definition stores_used :: "bool list \<Rightarrow> bytes list \<Rightarrow> bool" where
  "stores_used us vals \<longleftrightarrow> (\<forall>j < length us. us ! j \<longrightarrow> j < length vals)"

lemma read_col_stored: "stores_used us vals \<Longrightarrow> j < length us \<Longrightarrow> us ! j \<Longrightarrow> read_col vals j = row_col vals j"
  by (auto simp: stores_used_def row_col_def stored_def min_def)

lemma operand_read_col:
  "stores_used us vals \<Longrightarrow> col_ref_ok us no \<Longrightarrow> operand_spec cvals (read_col vals) no k = operand_spec cvals (row_col vals) no k"
  using read_col_stored [of us vals "nat no"] by (auto simp: operand_spec_def col_ref_ok_def)

lemma conds_read_col:
  assumes "filter_fits mk us cvals fi" and "stores_used us vals" and "\<forall>i \<in> set is. i < nat (exp_cnt fi)"
  shows "conds_hold fi cvals (read_col vals) is k = conds_hold fi cvals (row_col vals) is k"
  using assms(3)
proof (induction "is" arbitrary: k)
  case Nil
  then show ?case by simp
next
  case (Cons i "is")
  then have "col_ref_ok us (exp_l_nos fi ! i)" "col_ref_ok us (exp_r_nos fi ! i)"
    using assms(1) by (simp_all add: filter_fits_def)
  note ops = this [THEN operand_read_col [OF assms(2)]]
  show ?case using Cons by (simp add: ops split_beta)
qed

lemma out_read_col: "stores_used us vals \<Longrightarrow> out_row mk us (read_col vals) = out_row mk us (row_col vals)"
  unfolding out_row_def
  by (rule arg_cong [where f = concat], rule map_cong) (auto simp: out_col_def read_col_stored)

definition passes :: "filter_info \<Rightarrow> bytes list \<Rightarrow> bytes list \<Rightarrow> bool" where
  "passes fi cvals vals = conds_hold fi cvals (row_col vals) [0..<nat (exp_cnt fi)] 0"

definition selected :: "byte \<Rightarrow> bool list \<Rightarrow> filter_info \<Rightarrow> bytes list \<Rightarrow> bytes list option list \<Rightarrow> bytes list" where
  "selected mk us fi cvals rows =
     map (\<lambda>vals. out_row mk us (row_col vals)) (filter (passes fi cvals) (map the (filter (\<lambda>r. r \<noteq> None) rows)))"

definition row_in_reach :: "byte \<Rightarrow> bool list \<Rightarrow> filter_info \<Rightarrow> bytes list \<Rightarrow> bool" where
  "row_in_reach mk us fi vals \<longleftrightarrow>
     row_fits mk fi vals \<and> stores_used us vals \<and> length (out_row mk us (row_col vals)) \<le> RES_CHUNK_SIZE"

lemma process_row_spec:
  assumes fits: "filter_fits mk us cvals fi" and reach: "row_in_reach mk us fi vals"
    and rp: "whole_piece mk rp vals" and ctx: "ctx_size (length us) ctx" and cl: "chunks_hold cl gs"
  shows "\<exists>ctx' cl' gs'. process_row ctx rp cl fi = ret (ctx', cl') \<and> ctx_size (length us) ctx' \<and>
    chunks_hold cl' gs' \<and>
    concat gs' = concat gs @ (if passes fi cvals vals then [out_row mk us (row_col vals)] else [])"
proof -
  have st: "stores_used us vals" using reach by (simp add: row_in_reach_def)
  note o = out_read_col [OF st, of mk]
  have row: "row_fits mk fi vals" and p: "piece_ok mk vals"
    and small: "length (out_row mk us (read_col vals)) \<le> RES_CHUNK_SIZE"
    using reach by (simp_all add: row_in_reach_def row_fits_def o)
  obtain rest where rest: "rp_get_data rp = ret (col_at mk vals rest 0)" "rp_colcnt rp = ret (int (length vals))"
    using rp by (auto simp: whole_piece_def col_at_def stored_def)
  have fi: "use_cols fi = Some us" "col_cnt fi = int (length us)"
    "int (used_between us 0 (length us)) \<le> use_col_cnt fi"
    using fits by (simp_all add: filter_fits_def)
  obtain ctx1 where ctx1: "build_data ctx (col_at mk vals rest 0) (int (length us)) (int (length vals))
      (Some us) (use_col_cnt fi) = ret ctx1" and cs1: "columns_set mk us vals rest ctx1"
    using build_used_row [OF p ctx order_refl _ fi(3), of rest]
    by (auto simp: build_data_def columns_set_def)
  have chk: "exp_eval_and_check_true fi ctx1 = ret (passes fi cvals vals)"
    using check_loop_spec [OF fits row cs1, of "[0..<nat (exp_cnt fi)]" 0] fits
      conds_read_col [OF fits st, of "[0..<nat (exp_cnt fi)]" 0]
    by (simp add: exp_eval_and_check_true_def passes_def filter_fits_def)
  have pass: "(if exp_cnt fi > 0 then exp_eval_and_check_true fi ctx1 else ret True) =
      ret (passes fi cvals vals)"
    using chk by (auto simp: passes_def)
  show ?thesis
  proof (cases "passes fi cvals vals")
    case True
    obtain ctx2 where ctx2: "set_col_out ctx1 (int (length us)) (Some us) (use_col_cnt fi) =
        ret (int (length (out_row mk us (read_col vals))), ctx2)"
      "columns_set mk us vals rest ctx2" "columns_out mk us vals rest (length us) ctx2"
      using set_col_out_row [OF p cs1 small] by blast
    obtain cl' gs' where s: "serialize_rpcols_to_chunk ctx2 (int (length us)) cl
        (int (length (out_row mk us (read_col vals)))) = ret cl'" "chunks_hold cl' gs'"
      "concat gs' = concat gs @ [out_row mk us (read_col vals)]"
      using serialize_row [OF ctx2(2,3) p cl small] by blast
    have "process_row ctx rp cl fi = ret (ctx2, cl')"
      using True by (simp add: process_row_def rest fi ctx1 pass ctx2(1) s(1))
    then show ?thesis using True ctx2(2) s(2,3) by (auto simp: columns_set_def o)
  next
    case False
    then have "process_row ctx rp cl fi = ret (ctx1, cl)"
      by (simp add: process_row_def rest fi ctx1 pass)
    then show ?thesis using False cs1 cl by (auto simp: columns_set_def)
  qed
qed

lemma csd_row_step_spec:
  assumes fits: "filter_fits mk us cvals fi" and at: "piece_at mk blk i row"
    and reach: "\<And>vals. row = Some vals \<Longrightarrow> row_in_reach mk us fi vals"
    and ctx: "ctx_size (length us) ctx" and cl: "chunks_hold cl gs"
  shows "\<exists>ctx' cl' gs'. csd_row_step blk fi i (ctx, cl) = ret (ctx', cl') \<and> ctx_size (length us) ctx' \<and>
    chunks_hold cl' gs' \<and> concat gs' = concat gs @ selected mk us fi cvals [row]"
proof (cases row)
  case None
  then show ?thesis using at ctx cl by (auto simp: csd_row_step_def piece_at_def selected_def)
next
  case (Some vals)
  then obtain rp where rp: "table_block_get_row_piece blk i = ret (Some rp)" "whole_piece mk rp vals"
    using at by (auto simp: piece_at_def)
  then have "csd_row_step blk fi i (ctx, cl) = process_row ctx rp cl fi"
    by (auto simp: csd_row_step_def whole_piece_def)
  moreover have "selected mk us fi cvals [row] =
      (if passes fi cvals vals then [out_row mk us (row_col vals)] else [])"
    using Some by (simp add: selected_def)
  ultimately show ?thesis
    using process_row_spec [OF fits reach [OF Some] rp(2) ctx cl] by (simp only:)
qed

lemma selected_take_Suc:
  "i < length rows \<Longrightarrow>
   selected mk us fi cvals (take (Suc i) rows) =
   selected mk us fi cvals (take i rows) @ selected mk us fi cvals [rows ! i]"
  by (simp add: selected_def take_Suc_conv_app_nth)

lemma block_filter_rows:
  assumes "filter_fits mk us cvals fi" and "block_holds mk blk rows"
    and "\<forall>vals. Some vals \<in> set rows \<longrightarrow> row_in_reach mk us fi vals"
  shows "\<exists>cl gs. csd_filter_and_eval_out blk fi create_chunk_list = ret cl \<and> chunks_hold cl gs \<and>
    concat gs = selected mk us fi cvals rows"
proof -
  obtain dl where dl: "dblk_get_dl blk = ret dl" "dl_rowcnt dl = ret (int (length rows))"
    and at: "\<forall>i < length rows. piece_at mk blk i (rows ! i)"
    using assms(2) by (auto simp: block_holds_def)
  let ?ctx0 = "\<lparr>column_vals = replicate (length us) Unset, column_val_lens = replicate (length us) None\<rparr>"
  let ?P = "\<lambda>i (acc :: exp_ctx \<times> chunk_list). \<exists>gs. ctx_size (length us) (fst acc) \<and>
    chunks_hold (snd acc) gs \<and> concat gs = selected mk us fi cvals (take i rows)"
  have "\<exists>acc. fold_exec (csd_row_step blk fi) [0..<length rows] (?ctx0, create_chunk_list) = ret acc \<and>
    ?P (length rows) acc"
  proof (rule fold_exec_upt_ret)
    show "?P 0 (?ctx0, create_chunk_list)"
      by (intro exI [of _ "[]"]) (simp add: ctx_size_def chunks_hold_def create_chunk_list_def selected_def)
    fix i and acc :: "exp_ctx \<times> chunk_list"
    assume i: "i < length rows" and P: "?P i acc"
    have "row_in_reach mk us fi vals" if "rows ! i = Some vals" for vals
      using assms(3) i that by (metis nth_mem)
    with P at i show "\<exists>acc'. csd_row_step blk fi i acc = ret acc' \<and> ?P (Suc i) acc'"
      using csd_row_step_spec [OF assms(1), of blk i "rows ! i" "fst acc" "snd acc"]
      by (fastforce simp: selected_take_Suc)
  qed
  moreover have "exp_ctx_init (col_cnt fi) = ret ?ctx0"
    using assms(1) by (simp add: exp_ctx_init_def filter_fits_def)
  ultimately show ?thesis by (auto simp: csd_filter_and_eval_out_def dl)
qed

text \<open>
  C16: for a block whose rows each lie in one piece that stores every used column, with an output that
  fits a chunk and printable values where conditions compare characters, the result chunks
  hold exactly the rows that pass all conditions, in the order of the row directory: the used columns in their encoding, the others
  as one zero byte. Every row lies within one chunk, and no chunk exceeds its allocation.
\<close>

theorem block_filter_selects_rows:
  assumes "filter_fits mk us cvals fi" and "block_holds mk blk rows"
    and "\<forall>vals. Some vals \<in> set rows \<longrightarrow> row_in_reach mk us fi vals"
  shows "\<exists>cl gs. csd_filter_and_eval_out blk fi create_chunk_list = ret cl \<and> chunks_hold cl gs \<and>
    concat gs = selected mk us fi cvals rows"
  by (rule block_filter_rows [OF assms])

section \<open>A concrete block\<close>

text \<open>
  Three slots: a row \<open>7, 1, (2 3)\<close>, an empty slot, a row \<open>4, 1, (2 3)\<close>. The filter keeps rows
  whose first column exceeds \<open>5\<close> and returns the first and the third column.
\<close>

definition demo_fi :: filter_info where
  "demo_fi = \<lparr>exp_cnt = 1, col_cnt = 3, use_cols = Some [True, False, True], use_col_cnt = 2,
     all_max_colno = 2, where_max_colno = 0, is_char_type = [False], op_types = [EXP_OP_GT],
     exp_l_nos = [0], exp_r_nos = [-1], const_vals = [[1, 5]]\<rparr>"

definition demo_block :: bytes where
  "demo_block =
     [13, 0, 0, 0,  1, 0, 0, 0,  0, 0, 0, 0,  0, 0, 0, 16,
      0, 0, 0, 0,  0, 0, 0, 0,  0, 0, 0, 0,  0, 0, 0, 0,  0, 0, 0, 0,
      0, 0, 0, 0, 3, 0, 0, 0,  50, 0, 0, 0, 60, 0,
      44, 0, 3, 1, 7, 1, 1, 2, 2, 3,
      44, 0, 3, 1, 4, 1, 1, 2, 2, 3]"

definition demo_slots :: "bytes list option list" where
  "demo_slots = [Some [[7], [1], [2, 3]], None, Some [[4], [1], [2, 3]]]"

lemma demo_fi_fits: "filter_fits 255 [True, False, True] [[5]] demo_fi"
  by (simp add: filter_fits_def demo_fi_def used_between_def col_enc_def col_ok_def col_ref_ok_def
      consts_needed_def upt_rec)

lemma demo_block_holds: "block_holds 255 demo_block demo_slots"
proof -
  have "dblk_get_dl demo_block = ret (drop 36 demo_block)" "dl_rowcnt (drop 36 demo_block) = ret 3"
    by code_simp+
  moreover have "whole_piece 255 (drop 50 demo_block) [[7], [1], [2, 3]]"
    unfolding whole_piece_def
    by (intro exI [of _ 44] exI [of _ "drop 60 demo_block"] conjI) (code_simp+)
  moreover have "whole_piece 255 (drop 60 demo_block) [[4], [1], [2, 3]]"
    unfolding whole_piece_def
    by (intro exI [of _ 44] exI [of _ "[]"] conjI) (code_simp+)
  moreover have "table_block_get_row_piece demo_block 0 = ret (Some (drop 50 demo_block))"
    "table_block_get_row_piece demo_block 1 = ret None"
    "table_block_get_row_piece demo_block 2 = ret (Some (drop 60 demo_block))"
    by code_simp+
  ultimately show ?thesis
    by (auto simp: block_holds_def demo_slots_def piece_at_def less_Suc_eq numeral_3_eq_3 numeral_2_eq_2)
qed

lemma demo_in_reach: "\<forall>vals. Some vals \<in> set demo_slots \<longrightarrow> row_in_reach 255 [True, False, True] demo_fi vals"
  by (auto simp: demo_slots_def row_in_reach_def row_fits_def piece_ok_def col_ok_def demo_fi_def
      out_row_def out_col_def row_col_def stores_used_def less_Suc_eq numeral_3_eq_3 col_enc_def RES_CHUNK_SIZE_def upt_rec)

lemma demo_selected: "selected 255 [True, False, True] demo_fi [[5]] demo_slots = [[1, 7, 0, 2, 2, 3]]"
  by code_simp

theorem block_filter_selects_rows_witness:
  "\<exists>cl gs. csd_filter_and_eval_out demo_block demo_fi create_chunk_list = ret cl \<and> chunks_hold cl gs \<and>
    concat gs = [[1, 7, 0, 2, 2, 3]]"
  using block_filter_selects_rows [OF demo_fi_fits demo_block_holds demo_in_reach]
  by (simp only: demo_selected)

text \<open>
  A row piece that stores fewer columns than the filter uses: the last stored column is read for the
  missing ones, although they are null.
\<close>

lemma missing_column_reads_last:
  "read_col [[7], [1]] 2 = [1]" "row_col [[7], [1]] 2 = []"
  "out_row 255 [True, False, True] (read_col [[7], [1]]) = [1, 7, 0, 1, 1]"
  by (simp_all add: stored_def row_col_def out_row_def out_col_def col_enc_def upt_rec)

end
