(* ===== verification/Tmax_Worker.thy ===== *)
theory Tmax_Worker
  imports Tmax_Rows Json Work_Queue Monitoring
begin

unbundle bit_operations_syntax

text \<open>
  The Tibero worker, \<^verbatim>\<open>worker.cc\<close> and \<^verbatim>\<open>worker.h\<close>: the Base64 decoder, the thread that filters
  the blocks of a request and hands out result buffers, and the thread that sends them. The
  block file is given by its content, or its absence when it cannot be opened; a read delivers
  the bytes the file has.
\<close>

section \<open>Base64\<close>

definition decode_table :: "int list" where
  "decode_table =
    [-1, -1, -1, -1, -1, -1, -1, -1, -1, -1, -1, -1, -1, -1, -1, -1,
     -1, -1, -1, -1, -1, -1, -1, -1, -1, -1, -1, -1, -1, -1, -1, -1,
     -1, -1, -1, -1, -1, -1, -1, -1, -1, -1, -1, 62, -1, -1, -1, 63,
     52, 53, 54, 55, 56, 57, 58, 59, 60, 61, -1, -1, -1,  0, -1, -1,
     -1,  0,  1,  2,  3,  4,  5,  6,  7,  8,  9, 10, 11, 12, 13, 14,
     15, 16, 17, 18, 19, 20, 21, 22, 23, 24, 25, -1, -1, -1, -1, -1,
     -1, 26, 27, 28, 29, 30, 31, 32, 33, 34, 35, 36, 37, 38, 39, 40,
     41, 42, 43, 44, 45, 46, 47, 48, 49, 50, 51, -1, -1, -1, -1, -1]"

text \<open>
  The loop over the characters: the accumulator is an \<^verbatim>\<open>int\<close> that is shifted without being
  masked, so it overflows after the fifth character of a long input.
\<close>

fun base64_loop :: "bytes \<Rightarrow> int \<Rightarrow> nat \<Rightarrow> bytes \<Rightarrow> bytes exec" where
  "base64_loop [] buffer bits out = ret out"
| "base64_loop (c # cs) buffer bits out =
     (if is_space (chr c) then base64_loop cs buffer bits out
      else if c = 61 then ret out
      else if c > 127 \<or> decode_table ! unat c = -1 then Abort InvalidArgument
      else bind_exec (arith32 (push_bit 6 buffer OR (decode_table ! unat c))) (\<lambda>buffer.
        let bits = bits + 6 in
        if bits \<ge> 8
        then base64_loop cs buffer (bits - 8) (out @ [word_of_int (drop_bit (bits - 8) buffer AND 0xFF)])
        else base64_loop cs buffer bits out))"

definition Base64Decode :: "string \<Rightarrow> bytes exec" where
  "Base64Decode input = base64_loop (bytes_of input) 0 0 []"

section \<open>Requests and results\<close>

record chunk =
  chunk_offset :: int
  chunk_length :: int

record tSnippet =
  t_id :: int
  block_size :: int
  buffer_size :: int
  chunks :: "chunk list"
  filter_text :: string
  file_name :: string

text \<open>
  A result: \<^verbatim>\<open>data\<close> holds the bytes written so far, \<^verbatim>\<open>length\<close> is their number. The member
  \<^verbatim>\<open>last\<close> is never set. A copy takes the first \<^verbatim>\<open>length\<close> bytes.
\<close>

record t_result =
  r_id :: int
  r_data :: "byte option list"
  chunk_count :: int

definition result_init :: "int \<Rightarrow> int \<Rightarrow> t_result exec" where
  "result_init i bsize =
     (if bsize < 0 then Abort BadSize else ret \<lparr>r_id = i, r_data = [], chunk_count = 0\<rparr>)"

definition init_result :: "t_result \<Rightarrow> t_result" where
  "init_result r = r\<lparr>r_data := [], chunk_count := 0\<rparr>"

definition enqueue_worker :: "tSnippet \<Rightarrow> tSnippet WorkQueue \<Rightarrow> tSnippet WorkQueue" where
  "enqueue_worker s q = snd (push_work s q)"

definition t_enqueue_return :: "t_result \<Rightarrow> t_result WorkQueue \<Rightarrow> t_result WorkQueue" where
  "t_enqueue_return r q = snd (push_work r q)"

section \<open>The working thread\<close>

text \<open>
  \<^verbatim>\<open>while(!finished)\<close>: a full buffer is handed out and writing goes on at the chunk that did not
  fit. \<open>None\<close> is a loop that never ends.
\<close>

partial_function (option) flush_chunks ::
  "chunk_list \<Rightarrow> int \<Rightarrow> nat \<Rightarrow> t_result \<Rightarrow> t_result WorkQueue
   \<Rightarrow> (t_result \<times> t_result WorkQueue) exec option" where
  "flush_chunks cl bsize idx r q =
     (case write_chunk_list_to_buffer cl bsize idx (r_data r) of
        Abort e \<Rightarrow> Some (Abort e)
      | Done (finished, idx', big) l \<Rightarrow>
          (if finished then Some (Done (r\<lparr>r_data := big\<rparr>, q) l)
           else flush_chunks cl bsize idx' (init_result r) (t_enqueue_return (r\<lparr>r_data := big\<rparr>) q)))"

definition flushed ::
  "chunk_list \<Rightarrow> int \<Rightarrow> t_result \<Rightarrow> t_result WorkQueue \<Rightarrow> (t_result \<times> t_result WorkQueue) exec" where
  "flushed cl bsize r q = (case flush_chunks cl bsize 0 r q of None \<Rightarrow> Abort NoReturn | Some m \<Rightarrow> m)"

text \<open>
  One block: the position, the read (a failure closes the descriptor and goes on), an empty
  block, the filter, the buffers.
\<close>

definition tmax_block ::
  "bytes \<Rightarrow> filter_info \<Rightarrow> tSnippet \<Rightarrow> int \<Rightarrow> nat \<Rightarrow> bool \<times> t_result \<times> t_result WorkQueue
   \<Rightarrow> (bool \<times> t_result \<times> t_result WorkQueue) exec" where
  "tmax_block file fi sn offset j st =
     (let (fd_open, r, q) = st in
      bind_exec (arith32 (block_size sn * int j)) (\<lambda>rel.
      let c_offset = (offset + rel) mod 2 ^ 64; c_length = nat (block_size sn);
          blk = take c_length (drop (nat c_offset) file)
      in if \<not> fd_open \<or> 2 ^ 63 \<le> c_offset then ret (False, r, q)
         else if length blk \<noteq> c_length then ret (False, r, q)
         else bind_exec (dblk_get_dl blk) (\<lambda>dl.
              bind_exec (dl_rowcnt dl) (\<lambda>rowcnt.
                if rowcnt = 0 then ret (fd_open, r\<lparr>chunk_count := chunk_count r + 1\<rparr>, q)
                else bind_exec (csd_filter_and_eval_out blk fi create_chunk_list) (\<lambda>cl.
                     bind_exec (flushed cl (buffer_size sn) r q) (\<lambda>(r, q).
                       ret (fd_open, r, q)))))))"

record TmaxState =
  fd_ok :: bool
  t_res :: t_result
  t_queue :: "t_result WorkQueue"
  t_monitor :: MonitoringManager

definition tmax_blocks :: "bytes \<Rightarrow> filter_info \<Rightarrow> tSnippet \<Rightarrow> chunk \<Rightarrow> TmaxState \<Rightarrow> TmaxState exec" where
  "tmax_blocks file fi sn c st =
     (if block_size sn = 0 then Abort DivideByZero
      else let n = wrap32 (chunk_length c div (block_size sn mod 2 ^ 64)) in
        bind_exec (fold_exec (tmax_block file fi sn (chunk_offset c)) [0..<nat n]
                     (fd_ok st, t_res st, t_queue st)) (\<lambda>(f, r, q).
          ret (st\<lparr>fd_ok := f, t_res := r, t_queue := q\<rparr>)))"

definition tmax_chunk :: "bytes \<Rightarrow> filter_info \<Rightarrow> tSnippet \<Rightarrow> chunk \<Rightarrow> TmaxState \<Rightarrow> TmaxState exec" where
  "tmax_chunk file fi sn c st =
     bind_exec (tmax_blocks file fi sn c st) (\<lambda>st.
       ret (st\<lparr>t_monitor := t_addBlockCount (chunk_count (t_res st)) (t_monitor st),
               t_res := (t_res st)\<lparr>chunk_count := chunk_count (t_res st) + 1\<rparr>\<rparr>))"

text \<open>One turn of \<^verbatim>\<open>tmax_working\<close> for the request it took from the queue.\<close>

definition tmax_working ::
  "(string \<Rightarrow> bytes option) \<Rightarrow> tSnippet \<Rightarrow> t_result WorkQueue \<Rightarrow> MonitoringManager
   \<Rightarrow> (t_result WorkQueue \<times> MonitoringManager) exec" where
  "tmax_working open_file sn q mon =
     (let mon = t_addWorkingId (t_id sn) mon in
      bind_exec (result_init (t_id sn) (buffer_size sn)) (\<lambda>r.
      case open_file (''/home/ngd/storage/new_tmax/'' @ file_name sn) of
        None \<Rightarrow> ret (q, mon)
      | Some file \<Rightarrow>
          bind_exec (Base64Decode (filter_text sn)) (\<lambda>decoded.
          bind_exec (deserialize_filter_info decoded) (\<lambda>fi.
          bind_exec (fold_exec (tmax_chunk file fi sn) (chunks sn)
                       \<lparr>fd_ok = True, t_res = r, t_queue = q, t_monitor = mon\<rparr>) (\<lambda>st.
            ret (t_enqueue_return (t_res st) (t_queue st),
                 t_removeWorkingId (t_id sn)
                   (t_addBlockCount (chunk_count (t_res st)) (t_monitor st))))))))"

definition tmax_worker ::
  "(string \<Rightarrow> bytes option) \<Rightarrow> tSnippet WorkQueue \<Rightarrow> t_result WorkQueue \<Rightarrow> MonitoringManager
   \<Rightarrow> (tSnippet WorkQueue \<times> t_result WorkQueue \<times> MonitoringManager) exec option" where
  "tmax_worker open_file wq rq mon =
     map_option (\<lambda>(sn, wq). bind_exec (tmax_working open_file sn rq mon) (\<lambda>(rq, mon). ret (wq, rq, mon)))
       (wait_and_pop wq)"

section \<open>The returning thread\<close>

definition t_result_events :: "t_result \<Rightarrow> json_event list" where
  "t_result_events r =
     [StartObject, Key ''id'', EvInt (r_id r), Key ''length'', EvInt (int (length (r_data r))),
      Key ''chunk_count'', EvInt (chunk_count r), EndObject]"

text \<open>What is sent; without an acknowledgement (\<open>recv\<close> of 0 bytes) the socket stays open.\<close>

definition tmax_return ::
  "(json_event list \<Rightarrow> string) \<Rightarrow> int \<Rightarrow> t_result \<Rightarrow> byte option list list \<times> bool" where
  "tmax_return render recv_len r =
     (let block_buf = c_string (render (t_result_events r));
          header = [map Some (le_bytes 8 (int (length block_buf))), map Some (bytes_of block_buf)]
      in if recv_len = 0 then (header, False)
         else (header @ [map Some (le_bytes 8 (int (length (r_data r)))), r_data r], True))"

end
