(* ===== verification/Tmax_Worker_Laws.thy ===== *)
theory Tmax_Worker_Laws
  imports Tmax_Worker
begin

unbundle bit_operations_syntax

text \<open>
  The laws of the Tibero worker: the decoder inverts the Base64 encoding of the server, the
  loop that packs chunks into buffers ends when every chunk fits and loses nothing, and what
  goes wrong when a chunk does not fit or a chained chunk has to be written.
\<close>

section \<open>Base64\<close>

definition sextet :: "nat \<Rightarrow> byte" where
  "sextet n = (if n < 26 then 65 + of_nat n else if n < 52 then 71 + of_nat n
               else if n < 62 then of_nat n - 4 else if n = 62 then 43 else 47)"

text \<open>The encoding of RFC 4648, three bytes at a time.\<close>

fun base64_encode :: "bytes \<Rightarrow> bytes" where
  "base64_encode [] = []"
| "base64_encode [a] = [sextet (unat a div 4), sextet (unat a mod 4 * 16), 61, 61]"
| "base64_encode [a, b] =
     [sextet (unat a div 4), sextet (unat a mod 4 * 16 + unat b div 16), sextet (unat b mod 16 * 4), 61]"
| "base64_encode (a # b # c # bs) =
     sextet (unat a div 4) # sextet (unat a mod 4 * 16 + unat b div 16)
     # sextet (unat b mod 16 * 4 + unat c div 64) # sextet (unat c mod 64) # base64_encode bs"

lemma sextet_table:
  "list_all (\<lambda>n. \<not> is_space (chr (sextet n)) \<and> sextet n \<noteq> 61 \<and> \<not> sextet n > 127 \<and>
     decode_table ! unat (sextet n) = int n) [0..<64]"
  by (simp add: upt_rec sextet_def decode_table_def is_space_def)

lemma sextet_decodes:
  assumes "n < 64"
  shows "\<not> is_space (chr (sextet n))" "sextet n \<noteq> 61" "\<not> sextet n > 127"
    "decode_table ! unat (sextet n) = int n"
  using sextet_table assms by (auto simp: list_all_iff)

lemma shift_or_sextet:
  assumes "n < 64"
  shows "push_bit 6 z OR int n = 64 * z + int n"
proof -
  have "take_bit 6 (int n) = int n" using assms by (simp add: take_bit_eq_mod)
  then have "push_bit 6 z OR int n = concat_bit 6 (int n) z"
    by (simp add: concat_bit_def or.commute)
  also have "\<dots> = 64 * z + int n"
    using \<open>take_bit 6 (int n) = int n\<close> by (simp add: concat_bit_eq push_bit_eq_mult)
  finally show ?thesis .
qed

lemma wrap32_low: "wrap32 z mod 65536 = z mod 65536"
proof -
  define m where "m = - (65536 * ((z + 2 ^ 31) div 2 ^ 32))"
  have "wrap32 z = z + 65536 * m"
    unfolding wrap32_def m_def by (simp add: minus_mult_div_eq_mod [symmetric])
  then show ?thesis by simp
qed

lemma take_drop_low:
  assumes "k \<le> 8"
  shows "take_bit 8 (drop_bit k z) = drop_bit k (take_bit (8 + k) (take_bit 16 (z :: int)))"
  using assms by (simp add: drop_bit_take_bit)

lemma byte_of_low:
  assumes "buf mod 65536 = x mod 65536" and "k \<le> 8"
  shows "(word_of_int (drop_bit k buf AND 0xFF) :: byte) = word_of_int (x div 2 ^ k)"
proof -
  have "take_bit 16 buf = take_bit 16 x" using assms(1) by (simp add: take_bit_eq_mod)
  then have "take_bit 8 (drop_bit k buf) = take_bit 8 (drop_bit k x)"
    by (simp only: take_drop_low [OF assms(2)])
  moreover have "drop_bit k buf AND 0xFF = take_bit 8 (drop_bit k buf)"
    by (simp add: take_bit_eq_mask mask_eq_exp_minus_1)
  moreover have "(word_of_int (take_bit 8 z) :: byte) = word_of_int z" for z
    by (simp add: word_of_int_eq_iff)
  ultimately show ?thesis by (metis drop_bit_eq_div)
qed

text \<open>One character: the value of the loop, with the accumulator known modulo \<open>2 ^ 16\<close>.\<close>

lemma base64_step:
  assumes "n < 64" and "buf mod 65536 = x mod 65536" and "bits \<le> 6"
  shows "\<exists>buf'. buf' mod 65536 = (64 * x + int n) mod 65536 \<and>
    value_of (base64_loop (sextet n # cs) buf bits out) =
    value_of (if bits < 2 then base64_loop cs buf' (bits + 6) out
              else base64_loop cs buf' (bits - 2)
                     (out @ [word_of_int ((64 * x + int n) div 2 ^ (bits - 2))]))"
proof -
  let ?b = "wrap32 (64 * buf + int n)"
  have low: "?b mod 65536 = (64 * x + int n) mod 65536"
    using assms(2) by (metis wrap32_low mod_add_left_eq mod_mult_right_eq)
  have e: "bits + 6 - 8 = bits - 2" by simp
  have "(word_of_int (drop_bit (bits - 2) ?b AND 0xFF) :: byte) = word_of_int ((64 * x + int n) div 2 ^ (bits - 2))"
    by (rule byte_of_low [OF low]) (use assms(3) in simp)
  then have "value_of (base64_loop (sextet n # cs) buf bits out) =
    value_of (if bits < 2 then base64_loop cs ?b (bits + 6) out
              else base64_loop cs ?b (bits - 2)
                     (out @ [word_of_int ((64 * x + int n) div 2 ^ (bits - 2))]))"
    using sextet_decodes [OF assms(1)] shift_or_sextet [OF assms(1), of buf]
    by (simp add: arith32_def value_of_bind e Let_def)
  with low show ?thesis by blast
qed

declare base64_loop.simps(2) [simp del]

lemma base64_padding: "base64_loop (61 # cs) buf bits out = ret out"
proof -
  have "\<not> is_space (chr 61)" by code_simp
  then show ?thesis by (simp add: base64_loop.simps(2))
qed

lemma byte_word: "(word_of_int (256 * y + int (unat b)) :: byte) = b"
proof -
  have "(word_of_int (256 * y + int (unat b)) :: byte) = word_of_int 256 * word_of_int y + word_of_int (int (unat b))"
    by (simp only: wi_hom_mult wi_hom_add)
  also have "(word_of_int 256 :: byte) = 0" by simp
  finally show ?thesis by simp
qed

lemma unat_byte_less: "unat (b :: byte) < 256"
proof -
  have "unat b < 2 ^ LENGTH(8)" by (rule unsigned_less)
  then show ?thesis by simp
qed

text \<open>The first two characters of a group deliver its first byte, the next two one byte each.\<close>

lemma base64_first:
  assumes "r < 16"
  shows "\<exists>buf'. buf' mod 65536 = (16 * (256 * buf + int (unat a)) + int r) mod 65536 \<and>
    value_of (base64_loop (sextet (unat a div 4) # sextet (unat a mod 4 * 16 + r) # cs) buf 0 out) =
    value_of (base64_loop cs buf' 4 (out @ [a]))"
proof -
  have s: "unat a div 4 < 64" "unat a mod 4 * 16 + r < 64"
    using unat_byte_less [of a] assms by linarith+
  obtain b1 where b1: "b1 mod 65536 = (64 * buf + int (unat a div 4)) mod 65536"
    "value_of (base64_loop (sextet (unat a div 4) # sextet (unat a mod 4 * 16 + r) # cs) buf 0 out) =
     value_of (base64_loop (sextet (unat a mod 4 * 16 + r) # cs) b1 6 out)"
    using base64_step [OF s(1) refl, of 0 buf "sextet (unat a mod 4 * 16 + r) # cs" out] by auto
  have x: "64 * (64 * buf + int (unat a div 4)) + int (unat a mod 4 * 16 + r) =
      16 * (256 * buf + int (unat a)) + int r"
    by (simp only: of_nat_add of_nat_mult zdiv_int zmod_int of_nat_numeral) presburger
  have "(16 * (256 * buf + int (unat a)) + int r) div 16 = 256 * buf + int (unat a)"
    using assms by simp
  then show ?thesis
    using base64_step [OF s(2) b1(1), of 6 cs out] b1(2) byte_word [of buf a] unfolding x by auto
qed

lemma base64_second:
  assumes "q < 4" and "buf mod 65536 = (16 * y + int (unat b div 16)) mod 65536"
  shows "\<exists>buf'. buf' mod 65536 = (4 * (256 * y + int (unat b)) + int q) mod 65536 \<and>
    value_of (base64_loop (sextet (unat b mod 16 * 4 + q) # cs) buf 4 out) =
    value_of (base64_loop cs buf' 2 (out @ [b]))"
proof -
  have s: "unat b mod 16 * 4 + q < 64" using assms(1) by linarith
  have x: "64 * (16 * y + int (unat b div 16)) + int (unat b mod 16 * 4 + q) =
      4 * (256 * y + int (unat b)) + int q"
    by (simp only: of_nat_add of_nat_mult zdiv_int zmod_int of_nat_numeral) presburger
  have "(4 * (256 * y + int (unat b)) + int q) div 4 = 256 * y + int (unat b)"
    using assms(1) by simp
  then show ?thesis
    using base64_step [OF s assms(2), of 4 cs out] byte_word [of y b] unfolding x by auto
qed

lemma base64_third:
  assumes "buf mod 65536 = (4 * z + int (unat c div 64)) mod 65536"
  shows "\<exists>buf'. value_of (base64_loop (sextet (unat c mod 64) # cs) buf 2 out) =
    value_of (base64_loop cs buf' 0 (out @ [c]))"
proof -
  have s: "unat c mod 64 < 64" by simp
  have x: "64 * (4 * z + int (unat c div 64)) + int (unat c mod 64) = 256 * z + int (unat c)"
    by (simp only: of_nat_add of_nat_mult zdiv_int zmod_int of_nat_numeral) presburger
  show ?thesis
    using base64_step [OF s assms, of 2 cs out] byte_word [of z c] unfolding x by auto
qed

lemma base64_loop_encode: "value_of (base64_loop (base64_encode bs) buf 0 out) = Some (out @ bs)"
proof (induction bs arbitrary: buf out rule: base64_encode.induct)
  case 1
  then show ?case by simp
next
  case (2 a)
  show ?case using base64_first [of 0 buf a "[61, 61]" out] by (auto simp: base64_padding)
next
  case (3 a b)
  have "unat b div 16 < 16" using unat_byte_less [of b] by simp
  then obtain b1 where b1: "b1 mod 65536 = (16 * (256 * buf + int (unat a)) + int (unat b div 16)) mod 65536"
    "value_of (base64_loop (base64_encode [a, b]) buf 0 out) =
     value_of (base64_loop [sextet (unat b mod 16 * 4), 61] b1 4 (out @ [a]))"
    using base64_first [of "unat b div 16" buf a "[sextet (unat b mod 16 * 4), 61]" out] by auto
  show ?case
    using base64_second [of 0, OF _ b1(1), of "[61]" "out @ [a]"] b1(2) by (auto simp: base64_padding)
next
  case (4 a b c bs)
  have r: "unat b div 16 < 16" "unat c div 64 < 4"
    using unat_byte_less [of b] unat_byte_less [of c] by simp_all
  let ?t2 = "sextet (unat c mod 64) # base64_encode bs"
  let ?t1 = "sextet (unat b mod 16 * 4 + unat c div 64) # ?t2"
  obtain b1 where b1: "b1 mod 65536 = (16 * (256 * buf + int (unat a)) + int (unat b div 16)) mod 65536"
    "value_of (base64_loop (base64_encode (a # b # c # bs)) buf 0 out) =
     value_of (base64_loop ?t1 b1 4 (out @ [a]))"
    using base64_first [OF r(1), of buf a ?t1 out] by auto
  obtain b2 where b2: "b2 mod 65536 = (4 * (256 * (256 * buf + int (unat a)) + int (unat b)) + int (unat c div 64)) mod 65536"
    "value_of (base64_loop ?t1 b1 4 (out @ [a])) = value_of (base64_loop ?t2 b2 2 (out @ [a, b]))"
    using base64_second [OF r(2) b1(1), of ?t2 "out @ [a]"] by auto
  obtain b3 where "value_of (base64_loop ?t2 b2 2 (out @ [a, b])) =
      value_of (base64_loop (base64_encode bs) b3 0 (out @ [a, b, c]))"
    using base64_third [OF b2(1), of "base64_encode bs" "out @ [a, b]"] by auto
  with b1(2) b2(2) 4 show ?case by simp
qed

text \<open>
  C29: decoding the Base64 text of any byte string delivers that string, although the
  accumulator overflows on the way.
\<close>

theorem base64_roundtrip: "value_of (Base64Decode (text_of (base64_encode bs))) = Some bs"
  using base64_loop_encode [of bs 0 "[]"] by (simp add: Base64Decode_def)

text \<open>The overflow is real: eight characters shift a one into the sign bit and past it.\<close>

lemma base64_overflows: "faults_of (Base64Decode ''////////'') \<noteq> []"
  by code_simp

section \<open>Packing chunks into buffers\<close>

text \<open>A chunk in a buffer: two length bytes, the flag, the content; and reading a sequence back.\<close>

definition frame :: "bytes \<Rightarrow> bytes" where
  "frame b = word_of_nat (length b div 256) # word_of_nat (length b) # 0 # b"

fun unframe :: "bytes \<Rightarrow> bytes list option" where
  "unframe [] = Some []"
| "unframe (hi # lo # fl # rest) =
     (let n = 256 * unat hi + unat lo in
      if length rest < n then None else map_option (Cons (take n rest)) (unframe (drop n rest)))"
| "unframe _ = None"

lemma frame_size:
  assumes "length b < 65536"
  shows "256 * unat (word_of_nat (length b div 256) :: byte) + unat (word_of_nat (length b) :: byte) = length b"
proof -
  have "length b div 256 < 256" using assms by simp
  then have "unat (word_of_nat (length b div 256) :: byte) = length b div 256"
    by (simp add: unsigned_of_nat take_bit_nat_eq_self)
  moreover have "unat (word_of_nat (length b) :: byte) = length b mod 256"
    by (simp add: unsigned_of_nat take_bit_eq_mod)
  ultimately show ?thesis by simp
qed

lemma unframe_frames: "(\<forall>b \<in> set bs. length b < 65536) \<Longrightarrow> unframe (concat (map frame bs)) = Some bs"
proof (induction bs)
  case Nil
  then show ?case by simp
next
  case (Cons b bs)
  then have "unframe (frame b @ concat (map frame bs)) = Some (b # bs)"
    using frame_size [of b] by (simp add: frame_def [of b] Let_def)
  then show ?case by simp
qed

lemma chunk_frame_holds: "chunk_holds c b \<Longrightarrow> chunk_frame c 0 = map Some (frame b)"
  by (simp add: chunk_frame_def chunk_holds_def frame_def chunk_bytes_def)

text \<open>The chunks of a block without chained rows, as byte strings.\<close>

definition chunk_contents :: "chunk_list \<Rightarrow> bytes list \<Rightarrow> bool" where
  "chunk_contents cl bs \<longleftrightarrow> chained_chunk cl = [] \<and> list_all2 chunk_holds (res_chunk cl) bs"

lemma contents_nth:
  assumes "chunk_contents cl bs" and "i < length bs"
  shows "\<exists>c. chunk_at cl i = ret (c, 0) \<and> chunk_holds c (bs ! i)"
  using assms by (auto simp: chunk_contents_def chunk_at_def list_all2_conv_all_nth)

lemma contents_length: "chunk_contents cl bs \<Longrightarrow> length (res_chunk cl) + length (chained_chunk cl) = length bs"
  by (auto simp: chunk_contents_def dest: list_all2_lengthD)

text \<open>One call: it writes the chunks \<open>i ..< m\<close> and stops at the end or at one that does not fit.\<close>

lemma write_chunks_run:
  assumes "chunk_contents cl bs" and "i \<le> length bs"
  shows "\<exists>fin m. i \<le> m \<and> m \<le> length bs \<and>
    write_chunks cl bsize [i..<length bs] idx big =
      ret (fin, if fin then idx else m, big @ map Some (concat (map frame (take (m - i) (drop i bs))))) \<and>
    (fin \<longrightarrow> m = length bs) \<and>
    (\<not> fin \<longrightarrow> m < length bs \<and>
       int (length big) + int (length (concat (map frame (take (m - i) (drop i bs))))) +
         int (length (bs ! m)) + 3 > bsize) \<and>
    (int (length big) \<le> bsize \<longrightarrow>
       int (length big) + int (length (concat (map frame (take (m - i) (drop i bs))))) \<le> bsize)"
  using assms(2)
proof (induction "length bs - i" arbitrary: i big)
  case 0
  then show ?case by (intro exI [of _ True] exI [of _ "length bs"]) simp
next
  case (Suc k)
  then have i: "i < length bs" and k: "k = length bs - Suc i" by simp_all
  obtain c where c: "chunk_at cl i = ret (c, 0)" "chunk_holds c (bs ! i)"
    using contents_nth [OF assms(1) i] by blast
  have u: "used c = length (bs ! i)" using c(2) by (simp add: chunk_holds_def)
  show ?case
  proof (cases "int (length big) + int (length (bs ! i)) + 3 > bsize")
    case True
    then show ?thesis
      using i c(1) u by (intro exI [of _ False] exI [of _ i]) (simp add: upt_conv_Cons)
  next
    case False
    let ?big = "big @ map Some (frame (bs ! i))"
    obtain fin m where m: "Suc i \<le> m" "m \<le> length bs" "write_chunks cl bsize [Suc i..<length bs] idx ?big =
      ret (fin, if fin then idx else m, ?big @ map Some (concat (map frame (take (m - Suc i) (drop (Suc i) bs)))))"
      "fin \<longrightarrow> m = length bs"
      "\<not> fin \<longrightarrow> m < length bs \<and>
       int (length ?big) + int (length (concat (map frame (take (m - Suc i) (drop (Suc i) bs))))) +
         int (length (bs ! m)) + 3 > bsize"
      "int (length ?big) \<le> bsize \<longrightarrow>
       int (length ?big) + int (length (concat (map frame (take (m - Suc i) (drop (Suc i) bs))))) \<le> bsize"
      using Suc.hyps(1) [OF k, of ?big] i by auto
    have t: "take (m - i) (drop i bs) = bs ! i # take (m - Suc i) (drop (Suc i) bs)"
      using i m(1) by (simp add: Cons_nth_drop_Suc [symmetric] take_Cons' Suc_diff_le)
    have "length ?big = length big + length (bs ! i) + 3" by (simp add: frame_def)
    then show ?thesis
      using False i m c(1) u chunk_frame_holds [OF c(2)]
      by (intro exI [of _ fin] exI [of _ m]) (auto simp: upt_conv_Cons t frame_def)
  qed
qed

text \<open>
  The loop as a whole, from chunk \<open>i\<close> on with \<open>cur\<close> in the buffer.
\<close>

lemma flush_chunks_from:
  assumes "chunk_contents cl bs" and "\<forall>b \<in> set bs. int (length b) + 3 \<le> bsize"
    and "i \<le> length bs" and "length (r_data r) \<le> nat bsize"
  shows "\<exists>r' q' outs. flush_chunks cl bsize i r q = Some (ret (r', q')) \<and> work q' = work q @ outs \<and>
    concat (map r_data (outs @ [r'])) = r_data r @ map Some (concat (map frame (drop i bs))) \<and>
    (\<forall>x \<in> set (outs @ [r']). length (r_data x) \<le> nat bsize \<and> r_id x = r_id r) \<and>
    (outs = [] \<longrightarrow> chunk_count r' = chunk_count r)"
  using assms(3,4)
proof (induction "2 * (length bs - i) + (if r_data r = [] then 0 else 1)" arbitrary: i r q rule: less_induct)
  case less
  have len: "length (res_chunk cl) + length (chained_chunk cl) = length bs"
    by (rule contents_length [OF assms(1)])
  have fits: "int (length (bs ! j)) + 3 \<le> bsize" if "j < length bs" for j
    using assms(2) that by simp
  let ?w = "\<lambda>m. concat (map frame (take (m - i) (drop i bs)))"
  obtain fin m where m: "i \<le> m" "m \<le> length bs"
    "write_chunk_list_to_buffer cl bsize i (r_data r) = ret (fin, if fin then i else m, r_data r @ map Some (?w m))"
    "fin \<longrightarrow> m = length bs"
    "\<not> fin \<longrightarrow> m < length bs \<and> int (length (r_data r)) + int (length (?w m)) + int (length (bs ! m)) + 3 > bsize"
    "int (length (r_data r)) \<le> bsize \<longrightarrow> int (length (r_data r)) + int (length (?w m)) \<le> bsize"
    using write_chunks_run [OF assms(1) less.prems(1), of bsize i "r_data r"]
    by (auto simp: write_chunk_list_to_buffer_def len)
  have small: "length (r_data r @ map Some (?w m)) \<le> nat bsize"
  proof (cases "m = i")
    case True
    then show ?thesis using less.prems(2) by simp
  next
    case False
    then have "0 \<le> bsize" using fits [of i] m(1,2) by linarith
    then show ?thesis using m(6) less.prems(2) by (simp del: length_concat) linarith
  qed
  show ?case
  proof (cases fin)
    case True
    then have "flush_chunks cl bsize i r q = Some (ret (r\<lparr>r_data := r_data r @ map Some (?w m)\<rparr>, q))"
      using m(3) by (subst flush_chunks.simps) simp
    then show ?thesis
      using True m(4) small by (intro exI [of _ "r\<lparr>r_data := r_data r @ map Some (?w m)\<rparr>"] exI [of _ q] exI [of _ "[]"]) simp
  next
    case False
    let ?r1 = "r\<lparr>r_data := r_data r @ map Some (?w m)\<rparr>"
    have e: "flush_chunks cl bsize i r q = flush_chunks cl bsize m (init_result r) (t_enqueue_return ?r1 q)"
      using m(3) False by (subst flush_chunks.simps) simp
    have "m \<noteq> i \<or> r_data r \<noteq> []"
      using m(5) False fits [of m] by auto
    then have dec: "2 * (length bs - m) + (if r_data (init_result r) = [] then 0 else 1)
        < 2 * (length bs - i) + (if r_data r = [] then 0 else 1)"
      using m(1,2) m(5) False by (auto simp: init_result_def)
    obtain r' q' outs where R: "flush_chunks cl bsize m (init_result r) (t_enqueue_return ?r1 q) = Some (ret (r', q'))"
      "work q' = work (t_enqueue_return ?r1 q) @ outs"
      "concat (map r_data (outs @ [r'])) = r_data (init_result r) @ map Some (concat (map frame (drop m bs)))"
      "\<forall>x \<in> set (outs @ [r']). length (r_data x) \<le> nat bsize \<and> r_id x = r_id (init_result r)"
      using less.hyps [OF dec m(2), of "t_enqueue_return ?r1 q"] by (auto simp: init_result_def)
    have split: "drop i bs = take (m - i) (drop i bs) @ drop m bs"
      using m(1) by (metis append_take_drop_id drop_drop le_add_diff_inverse2)
    have "map Some (concat (map frame (drop i bs))) = map Some (?w m) @ map Some (concat (map frame (drop m bs)))"
      by (subst split) simp
    then show ?thesis
      using R small e
      by (intro exI [of _ r'] exI [of _ q'] exI [of _ "?r1 # outs"])
        (auto simp: t_enqueue_return_def push_work_def init_result_def Let_def)
  qed
qed

lemma chunks_hold_contents: "chunks_hold cl gs \<Longrightarrow> chunk_contents cl (map concat gs)"
  by (simp add: chunks_hold_def chunk_contents_def)

text \<open>
  C11: with a buffer size of at least 65536 bytes, a block whose rows each lie in one piece that stores
  every used column is filtered and packed without end or loss: the buffers handed to
  the returning thread and the one still being filled continue what the buffer held before by
  the frames of chunks, and these chunks, read back, hold exactly the selected rows. No buffer
  exceeds the size the request asked for.
\<close>

theorem tmax_block_delivers:
  assumes fits: "filter_fits mk us cvals fi" and rows: "block_holds mk blk rows" "rows \<noteq> []"
    and reach: "\<forall>vals. Some vals \<in> set rows \<longrightarrow> row_in_reach mk us fi vals"
    and big: "int RES_CHUNK_SIZE + 3 \<le> buffer_size sn"
    and blk: "length blk = nat (block_size sn)" "take (length blk) (drop (nat (offset + block_size sn * int j)) file) = blk"
    and pos: "int32_ok (block_size sn * int j)" "0 \<le> offset + block_size sn * int j"
      "offset + block_size sn * int j < 2 ^ 63"
    and r: "int (length (r_data r)) \<le> buffer_size sn"
  shows "\<exists>r' q' outs stream gs. tmax_block file fi sn offset j (True, r, q) = ret (True, r', q') \<and>
    work q' = work q @ outs \<and> concat (map r_data (outs @ [r'])) = r_data r @ map Some stream \<and>
    unframe stream = Some (map concat gs) \<and> concat gs = selected mk us fi cvals rows \<and>
    (\<forall>x \<in> set (outs @ [r']). int (length (r_data x)) \<le> buffer_size sn \<and> r_id x = r_id r)"
proof -
  obtain cl gs where cl: "csd_filter_and_eval_out blk fi create_chunk_list = ret cl" "chunks_hold cl gs"
    "concat gs = selected mk us fi cvals rows"
    using block_filter_rows [OF fits rows(1) reach] by blast
  have small: "length b \<le> RES_CHUNK_SIZE" if "b \<in> set (map concat gs)" for b
    using cl(2) that by (auto simp: chunks_hold_def chunk_holds_def list_all2_conv_all_nth in_set_conv_nth)
  have bound: "length b < 65536" "int (length b) + 3 \<le> buffer_size sn" if "b \<in> set (map concat gs)" for b
    using small [OF that] big by (simp_all add: RES_CHUNK_SIZE_def)
  have len: "length (r_data r) \<le> nat (buffer_size sn)" using r by linarith
  have "unframe (concat (map frame (map concat gs))) = Some (map concat gs)"
    by (intro unframe_frames ballI bound(1))
  moreover obtain r' q' outs where f: "flush_chunks cl (buffer_size sn) 0 r q = Some (ret (r', q'))"
    "work q' = work q @ outs"
    "concat (map r_data (outs @ [r'])) = r_data r @ map Some (concat (map frame (map concat gs)))"
    "\<forall>x \<in> set (outs @ [r']). length (r_data x) \<le> nat (buffer_size sn) \<and> r_id x = r_id r"
    using flush_chunks_from [OF chunks_hold_contents [OF cl(2)] ballI [OF bound(2)] le0 len, of q]
    unfolding drop_0 by blast
  moreover obtain dl where "dblk_get_dl blk = ret dl" "dl_rowcnt dl = ret (int (length rows))"
    using rows(1) by (auto simp: block_holds_def)
  then have "tmax_block file fi sn offset j (True, r, q) = ret (True, r', q')"
    using blk pos rows(2) by (simp add: tmax_block_def Let_def cl(1) flushed_def f(1))
  moreover have "\<forall>x \<in> set (outs @ [r']). int (length (r_data x)) \<le> buffer_size sn \<and> r_id x = r_id r"
    using f(4) big by (auto simp: nat_le_iff le_nat_iff)
  ultimately show ?thesis using cl(3) by blast
qed

definition demo_request :: tSnippet where
  "demo_request = \<lparr>t_id = 9, block_size = 70, buffer_size = 100000, chunks = [\<lparr>chunk_offset = 10, chunk_length = 140\<rparr>],
     filter_text = [], file_name = ''t''\<rparr>"

definition demo_t_result :: t_result where
  "demo_t_result = \<lparr>r_id = 9, r_data = [Some 4], chunk_count = 0\<rparr>"

theorem tmax_block_delivers_witness:
  "\<exists>r' q' outs stream gs. tmax_block (replicate 80 0 @ demo_block) demo_fi demo_request 10 1
      (True, demo_t_result, \<lparr>work = []\<rparr>) = ret (True, r', q') \<and>
    work q' = outs \<and> concat (map r_data (outs @ [r'])) = Some 4 # map Some stream \<and>
    unframe stream = Some (map concat gs) \<and> concat gs = [[1, 7, 0, 2, 2, 3]]"
proof -
  have "length demo_block = 70" by (simp add: demo_block_def)
  then have "length demo_block = nat (block_size demo_request)"
    "take (length demo_block) (drop (nat (10 + block_size demo_request * int 1)) (replicate 80 0 @ demo_block)) = demo_block"
    by (simp_all add: demo_request_def)
  moreover have "int RES_CHUNK_SIZE + 3 \<le> buffer_size demo_request" "int32_ok (block_size demo_request * int 1)"
    "0 \<le> 10 + block_size demo_request * int 1" "10 + block_size demo_request * int 1 < 2 ^ 63"
    "int (length (r_data demo_t_result)) \<le> buffer_size demo_request" "demo_slots \<noteq> []"
    by (simp_all add: demo_request_def demo_t_result_def RES_CHUNK_SIZE_def int32_ok_def demo_slots_def)
  ultimately show ?thesis
    using tmax_block_delivers [OF demo_fi_fits demo_block_holds _ demo_in_reach, of demo_request 10 1
        "replicate 80 0 @ demo_block" demo_t_result "\<lparr>work = []\<rparr>"]
    by (simp add: demo_selected demo_t_result_def) blast
qed

section \<open>What goes wrong\<close>

lemma write_stops_before:
  assumes "chunk_contents cl bs" and "j < length bs" and "int (length (bs ! j)) + 3 > bsize" and "i \<le> j"
  shows "\<exists>m big'. m \<le> j \<and> write_chunks cl bsize [i..<length bs] idx big = ret (False, m, big')"
  using assms(4)
proof (induction "j - i" arbitrary: i big)
  case 0
  then have "i = j" by simp
  moreover obtain c where "chunk_at cl j = ret (c, 0)" "chunk_holds c (bs ! j)"
    using contents_nth [OF assms(1,2)] by blast
  ultimately show ?case using assms(2,3) by (auto simp: upt_conv_Cons chunk_holds_def)
next
  case (Suc k)
  then have i: "i < j" "i < length bs" "k = j - Suc i" using assms(2) by simp_all
  obtain c where "chunk_at cl i = ret (c, 0)"
    using contents_nth [OF assms(1) i(2)] by blast
  then show ?case
    using Suc.hyps(1) [OF i(3), of "big @ chunk_frame c 0"] i by (auto simp: upt_conv_Cons)
qed

lemma oversized_chunk_loops:
  assumes "chunk_contents cl bs" and "j < length bs" and "int (length (bs ! j)) + 3 > bsize" and "i \<le> j"
  shows "flush_chunks cl bsize i r q = None"
proof -
  let ?P = "\<lambda>cl bsize i r q y. chunk_contents cl bs \<longrightarrow> int (length (bs ! j)) + 3 > bsize \<longrightarrow> \<not> i \<le> j"
  have "?P cl bsize i r q y" if "flush_chunks cl bsize i r q = Some y" for y
  proof (rule flush_chunks.raw_induct [where P = ?P, OF _ that])
    fix f cl bsize i r q and y :: "(t_result \<times> t_result WorkQueue) exec"
    assume IH: "\<And>cl bsize i r q y. f cl bsize i r q = Some y \<Longrightarrow> ?P cl bsize i r q y"
      and y: "(case write_chunk_list_to_buffer cl bsize i (r_data r) of
          Abort e \<Rightarrow> Some (Abort e)
        | Done (finished, idx', big) l \<Rightarrow>
            (if finished then Some (Done (r\<lparr>r_data := big\<rparr>, q) l)
             else f cl bsize idx' (init_result r) (t_enqueue_return (r\<lparr>r_data := big\<rparr>) q))) = Some y"
    show "?P cl bsize i r q y"
    proof (intro impI notI)
      assume c: "chunk_contents cl bs" and o: "int (length (bs ! j)) + 3 > bsize" and ij: "i \<le> j"
      obtain m big where m: "m \<le> j" "write_chunk_list_to_buffer cl bsize i (r_data r) = ret (False, m, big)"
        using write_stops_before [OF c assms(2) o ij, of i "r_data r"] contents_length [OF c]
        by (auto simp: write_chunk_list_to_buffer_def)
      with y have "f cl bsize m (init_result r) (t_enqueue_return (r\<lparr>r_data := big\<rparr>) q) = Some y" by simp
      from IH [OF this] c o m(1) show False by blast
    qed
  qed
  with assms have "flush_chunks cl bsize i r q \<noteq> Some y" for y by blast
  then show ?thesis by (cases "flush_chunks cl bsize i r q") blast+
qed

text \<open>
  C36: a chunk that does not fit into an empty buffer makes the worker flush empty buffers
  without end: with a buffer size below the size of a result chunk the request never completes.
\<close>

theorem oversized_chunk_never_flushed:
  assumes "chunks_hold cl gs" and "g \<in> set gs" and "int (length (concat g)) + 3 > bsize"
  shows "flushed cl bsize r q = Abort NoReturn"
proof -
  obtain j where j: "j < length gs" "gs ! j = g" using assms(2) by (auto simp: in_set_conv_nth)
  then have "flush_chunks cl bsize 0 r q = None"
    using oversized_chunk_loops [OF chunks_hold_contents [OF assms(1)], of j bsize 0] assms(3) by simp
  then show ?thesis by (simp add: flushed_def)
qed

theorem oversized_chunk_never_flushed_witness:
  "flushed \<lparr>res_chunk = [\<lparr>chunk_buf = [Some 1, Some 2], used = 2\<rparr>], chained_chunk = []\<rparr> 4 demo_t_result \<lparr>work = []\<rparr>
    = Abort NoReturn"
proof (rule oversized_chunk_never_flushed [where g = "[[1, 2]]"])
  show "chunks_hold \<lparr>res_chunk = [\<lparr>chunk_buf = [Some 1, Some 2], used = 2\<rparr>], chained_chunk = []\<rparr> [[[1, 2]]]"
    by (simp add: chunks_hold_def chunk_holds_def RES_CHUNK_SIZE_def)
qed simp_all

lemma write_res_chunks:
  assumes "i \<le> length (res_chunk cl)"
    and "int (length big) + int (\<Sum>c\<leftarrow>drop i (res_chunk cl). used c + 3) \<le> bsize"
    and "chained_chunk cl \<noteq> []" and "length (chained_chunk cl) \<le> length (res_chunk cl)"
  shows "write_chunks cl bsize [i..<length (res_chunk cl) + length (chained_chunk cl)] idx big = Abort BadIndex"
  using assms(1,2)
proof (induction "length (res_chunk cl) - i" arbitrary: i big)
  case 0
  then have i: "i = length (res_chunk cl)" by simp
  have "chunk_at cl i = Abort BadIndex"
    using assms(4) i by (simp add: chunk_at_def nth_exec_bad)
  then show ?case using i assms(3) by (simp add: upt_conv_Cons)
next
  case (Suc k)
  then have i: "i < length (res_chunk cl)" "k = length (res_chunk cl) - Suc i" by simp_all
  let ?c = "res_chunk cl ! i"
  have d: "drop i (res_chunk cl) = ?c # drop (Suc i) (res_chunk cl)" using i(1) by (simp add: Cons_nth_drop_Suc)
  have "length (big @ chunk_frame ?c 0) = length big + used ?c + 3"
    by (simp add: chunk_frame_def chunk_bytes_def)
  then show ?case
    using Suc.hyps(1) [OF i(2), of "big @ chunk_frame ?c 0"] Suc.prems i d
    by (simp add: upt_conv_Cons chunk_at_def)
qed

text \<open>
  Chained chunks are looked up under the index that counts the result chunks as well. A
  block with as many result chunks as chained ones, or more, reads past the list of chained
  chunks as soon as the result chunks are written.
\<close>

theorem chained_chunk_misindexed:
  assumes "int (length (r_data r)) + int (\<Sum>c\<leftarrow>res_chunk cl. used c + 3) \<le> bsize"
    and "chained_chunk cl \<noteq> []" and "length (chained_chunk cl) \<le> length (res_chunk cl)"
  shows "flushed cl bsize r q = Abort BadIndex"
proof -
  have "write_chunk_list_to_buffer cl bsize 0 (r_data r) = Abort BadIndex"
    using write_res_chunks [of 0 cl "r_data r" bsize] assms by (simp add: write_chunk_list_to_buffer_def)
  then show ?thesis by (simp add: flushed_def flush_chunks.simps)
qed

theorem chained_chunk_misindexed_witness:
  "flushed \<lparr>res_chunk = [\<lparr>chunk_buf = [Some 1, Some 2], used = 2\<rparr>],
      chained_chunk = [\<lparr>chunk_buf = [Some 3], used = 1\<rparr>]\<rparr> 100 demo_t_result \<lparr>work = []\<rparr> = Abort BadIndex"
  by (rule chained_chunk_misindexed) (simp_all add: demo_t_result_def)

end
