(* ===== verification/Kv_Iterator.thy ===== *)
theory Kv_Iterator
  imports Cstd
begin

text \<open>
  The iterator interface the scan layer uses, \<^verbatim>\<open>rocksdb::Iterator\<close> over the entries of a block
  or a file, and the additions to \<^verbatim>\<open>rocksdb::Slice\<close> for keys. Keys compare bytewise. An
  iterator is the list of its entries with the part from the current position on; it is valid
  while that part is not empty, and a valid iterator has no error.
\<close>

section \<open>Iterators\<close>

type_synonym entry = "bytes \<times> bytes"

record KvIter =
  all_entries :: "entry list"
  ahead :: "entry list"

definition NewIterator :: "entry list \<Rightarrow> KvIter" where
  "NewIterator es = \<lparr>all_entries = es, ahead = []\<rparr>"

definition Seek :: "bytes \<Rightarrow> KvIter \<Rightarrow> KvIter" where
  "Seek target it = it\<lparr>ahead := dropWhile (\<lambda>e. fst e < target) (all_entries it)\<rparr>"

definition SeekToFirst :: "KvIter \<Rightarrow> KvIter" where
  "SeekToFirst it = it\<lparr>ahead := all_entries it\<rparr>"

definition Next :: "KvIter \<Rightarrow> KvIter" where
  "Next it = it\<lparr>ahead := tl (ahead it)\<rparr>"

definition Valid :: "KvIter \<Rightarrow> bool" where
  "Valid it \<longleftrightarrow> ahead it \<noteq> []"

definition entry_of :: "KvIter \<Rightarrow> entry" where
  "entry_of it = hd (ahead it)"

text \<open>
  What clients rely on: over sorted entries, \<^verbatim>\<open>Seek\<close> leaves exactly the entries with a key not
  below the target, and stepping enumerates them in order.
\<close>

locale kv_iterator =
  fixes new_iter :: "entry list \<Rightarrow> 'i"
    and seek :: "bytes \<Rightarrow> 'i \<Rightarrow> 'i"
    and seek_first :: "'i \<Rightarrow> 'i"
    and step :: "'i \<Rightarrow> 'i"
    and valid :: "'i \<Rightarrow> bool"
    and current :: "'i \<Rightarrow> entry"
    and content :: "'i \<Rightarrow> entry list"
    and remaining :: "'i \<Rightarrow> entry list"
  assumes content_new: "content (new_iter es) = es"
    and content_seek: "content (seek t i) = content i"
    and remaining_seek: "sorted (map fst (content i)) \<Longrightarrow>
      remaining (seek t i) = filter (\<lambda>e. t \<le> fst e) (content i)"
    and remaining_first: "remaining (seek_first i) = content i"
    and valid_remaining: "valid i \<longleftrightarrow> remaining i \<noteq> []"
    and current_remaining: "valid i \<Longrightarrow> remaining i = current i # remaining (step i)"
begin

primrec walk :: "nat \<Rightarrow> 'i \<Rightarrow> entry list" where
  "walk 0 i = []"
| "walk (Suc n) i = (if valid i then current i # walk n (step i) else [])"

lemma walk_remaining: "length (remaining i) \<le> n \<Longrightarrow> walk n i = remaining i"
proof (induction n arbitrary: i)
  case 0
  then show ?case by simp
next
  case (Suc n)
  then show ?case
    using current_remaining [of i] valid_remaining [of i] by (cases "valid i") auto
qed

lemma walk_seek:
  "sorted (map fst es) \<Longrightarrow> length es \<le> n \<Longrightarrow>
   walk n (seek t (new_iter es)) = filter (\<lambda>e. t \<le> fst e) es"
  using walk_remaining [of "seek t (new_iter es)" n] length_filter_le [of "\<lambda>e. t \<le> fst e" es]
  by (simp add: remaining_seek content_new)

end

lemma dropWhile_sorted:
  fixes es :: "entry list"
  assumes "sorted (map fst es)"
  shows "dropWhile (\<lambda>e. fst e < t) es = filter (\<lambda>e. t \<le> fst e) es"
  using assms
proof (induction es)
  case Nil
  then show ?case by simp
next
  case (Cons e es)
  show ?case
  proof (cases "fst e < t")
    case True
    then show ?thesis using Cons by (simp add: not_le)
  next
    case False
    then have "\<forall>x \<in> set es. t \<le> fst x" using Cons.prems by (auto intro: order_trans)
    then show ?thesis using False by (simp add: not_less)
  qed
qed

interpretation kv: kv_iterator NewIterator Seek SeekToFirst Next Valid entry_of all_entries ahead
  by unfold_locales
    (auto simp: NewIterator_def Seek_def SeekToFirst_def Next_def Valid_def entry_of_def dropWhile_sorted)

section \<open>Keys\<close>

text \<open>\<^verbatim>\<open>std::string(data_ + offset, length)\<close> on the bytes of a slice.\<close>

definition keti_get_sliced_string :: "bytes \<Rightarrow> int \<Rightarrow> int \<Rightarrow> bytes exec" where
  "keti_get_sliced_string key offset len =
     (if len < 0 then Abort BadSize
      else if offset < 0 \<or> int (length key) < offset + len then Abort BadIndex
      else ret (take (nat len) (drop (nat offset) key)))"

definition keti_get_table_index_number :: "bytes \<Rightarrow> int exec" where
  "keti_get_table_index_number key =
     bind_exec (keti_get_sliced_string key 0 4) (\<lambda>sliced_char. ret (le_int32 (rev sliced_char)))"

text \<open>\<^verbatim>\<open>Scan::generate_seek_key\<close>: the number in big-endian order.\<close>

definition generate_seek_key :: "int \<Rightarrow> bytes" where
  "generate_seek_key number =
     (let temp = le_bytes 4 number in [temp ! 3, temp ! 2, temp ! 1, temp ! 0])"

lemma generate_seek_key_rev: "generate_seek_key n = rev (le_bytes 4 n)"
  by (simp add: generate_seek_key_def Let_def numeral_eq_Suc)

lemma length_generate_seek_key [simp]: "length (generate_seek_key n) = 4"
  by (simp add: generate_seek_key_rev)

lemma table_index_seek_key:
  "int32_ok n \<Longrightarrow> keti_get_table_index_number (generate_seek_key n @ s) = ret n"
  by (simp add: keti_get_table_index_number_def keti_get_sliced_string_def generate_seek_key_rev)

text \<open>Big-endian numbers of the same width compare like the numbers.\<close>

fun be_uint :: "bytes \<Rightarrow> int" where
  "be_uint [] = 0"
| "be_uint (b # bs) = uint b * 256 ^ length bs + be_uint bs"

lemma be_uint_bounds: "0 \<le> be_uint bs \<and> be_uint bs < 256 ^ length bs"
proof (induction bs)
  case Nil
  then show ?case by simp
next
  case (Cons b bs)
  have "uint b + 1 \<le> 256" using uint_byte_bounds [of b] by simp
  then have "(uint b + 1) * 256 ^ length bs \<le> 256 * 256 ^ length bs"
    by (intro mult_right_mono) simp_all
  then have "uint b * 256 ^ length bs + 256 ^ length bs \<le> 256 * 256 ^ length bs"
    by (simp add: distrib_right)
  moreover have "0 \<le> uint b * 256 ^ length bs" using uint_byte_bounds [of b] by simp
  ultimately show ?case
    using Cons by (simp only: be_uint.simps length_Cons power_Suc) (intro conjI; linarith)
qed

lemma be_uint_less:
  "length as = length bs \<Longrightarrow> as < bs \<longleftrightarrow> be_uint as < be_uint bs"
proof (induction as bs rule: list_induct2)
  case Nil
  then show ?case by simp
next
  case (Cons a as b bs)
  have ba: "0 \<le> be_uint as" "be_uint as < 256 ^ length as"
    and bb: "0 \<le> be_uint bs" "be_uint bs < 256 ^ length as"
    using be_uint_bounds [of as] be_uint_bounds [of bs] Cons.hyps by simp_all
  have less: "uint x * p + u < uint y * p + v" if "x < y" "0 \<le> u" "u < p" "0 \<le> v" for x y :: byte and p u v :: int
  proof -
    have "uint x + 1 \<le> uint y" using that(1) by (simp add: word_less_def)
    then have "(uint x + 1) * p \<le> uint y * p" using that by (intro mult_right_mono) auto
    then show ?thesis using that by (simp add: algebra_simps)
  qed
  consider "a < b" | "a = b" | "b < a" by fastforce
  then show ?case
  proof cases
    case 1
    then show ?thesis using less [OF 1 ba bb(1)] Cons.hyps by simp
  next
    case 2
    then show ?thesis using Cons by simp
  next
    case 3
    then have "\<not> a < b" "a \<noteq> b" by auto
    then show ?thesis using less [OF 3 bb ba(1)] Cons.hyps by simp
  qed
qed

lemma be_uint_append: "be_uint (as @ bs) = be_uint as * 256 ^ length bs + be_uint bs"
  by (induction as) (simp_all add: algebra_simps power_add)

lemma be_uint_rev: "be_uint (rev bs) = le_uint bs"
  by (induction bs) (simp_all add: be_uint_append algebra_simps)

text \<open>So the seek key of a table lies at or before every key of it and of the tables behind.\<close>

lemma seek_key_order:
  assumes "0 \<le> m" and "m < 2 ^ 32" and "0 \<le> n" and "n < 2 ^ 32"
  shows "generate_seek_key m < generate_seek_key n \<longleftrightarrow> m < n"
  using assms
  by (simp add: be_uint_less generate_seek_key_rev be_uint_rev le_uint_le_bytes)

end
