(* ===== verification/Scan_Layer.thy ===== *)
theory Scan_Layer
  imports Kv_Iterator Projection_Laws
begin

unbundle bit_operations_syntax

text \<open>
  The scan layer, \<^verbatim>\<open>scan.cc\<close>. Where the entries of a block or of a file come from is a parameter
  (\<open>read_block\<close>, \<open>read_sst\<close>): the block reader and the file reader of RocksDB. A scan fills the
  buffer of its result row by row and hands it to the filter or to the projection layer. Rows are
  counted in an \<^verbatim>\<open>int\<close>; the counts of blocks are unbounded integers here: in a full scan they stay
  between 0 and the block count of the snippet, in a file scan every full buffer subtracts 100.
\<close>

section \<open>State\<close>

record ScanState =
  scan_data :: Data
  left_block_count :: int
  to_filter :: "CsdResult WorkQueue"
  to_projection :: "CsdResult WorkQueue"
  scan_monitor :: MonitoringManager

definition enqueue_scan :: "Snippet \<Rightarrow> Snippet WorkQueue \<Rightarrow> Snippet WorkQueue" where
  "enqueue_scan s q = snd (push_work s q)"

text \<open>The flag of \<^verbatim>\<open>enqueue_filter\<close> only selects a log message.\<close>

definition enqueue_filter :: "CsdResult \<Rightarrow> CsdResult WorkQueue \<Rightarrow> CsdResult WorkQueue" where
  "enqueue_filter r q = snd (push_work r q)"

definition enqueue_scan_result :: "CsdResult \<Rightarrow> ScanState \<Rightarrow> ScanState" where
  "enqueue_scan_result r st =
     (if row_count (data r) = 0 \<or> filtering (query_info (snippet r)) = []
      then st\<lparr>to_projection := enqueue_projection
               (r\<lparr>data := (data r)\<lparr>filtered_row_count := scanned_row_count (data r)\<rparr>\<rparr>) (to_projection st)\<rparr>
      else st\<lparr>to_filter := enqueue_filter r (to_filter st)\<rparr>)"

text \<open>The closing offset, the hand-over and \<^verbatim>\<open>scan_result.data.clear()\<close>.\<close>

definition flush_scan :: "Snippet \<Rightarrow> ScanState \<Rightarrow> ScanState" where
  "flush_scan snip st =
     (enqueue_scan_result \<lparr>snippet = snip, data = close_rows (scan_data st)\<rparr> st)
       \<lparr>scan_data := Data_clear (scan_data st)\<rparr>"

section \<open>Keys\<close>

definition convert_column :: "bytes \<Rightarrow> SchemaInfo \<Rightarrow> string \<Rightarrow> bytes \<times> int \<Rightarrow> (bytes \<times> int) exec" where
  "convert_column key sch pk acc =
     (let (converted_key, offset) = acc; index = column_index sch pk in
      bind_exec (nth_exec (column_length sch) index) (\<lambda>len.
      bind_exec (nth_exec (column_type sch) index) (\<lambda>type.
        if type = MySQL_INT32
        then bind_exec (keti_get_sliced_string key offset len) (\<lambda>origin_key.
               let origin_key = (case origin_key of [] \<Rightarrow> [] | b # bs \<Rightarrow> (b XOR 0x80) # bs)
               in ret (converted_key @ rev origin_key, offset + len))
        else ret (converted_key, offset))))"

definition convert_key_to_value :: "bytes \<Rightarrow> SchemaInfo \<Rightarrow> bytes exec" where
  "convert_key_to_value key sch =
     bind_exec (fold_exec (convert_column key sch) (pk_column sch) ([], 4)) (\<lambda>(converted_key, _).
       ret converted_key)"

section \<open>Rows\<close>

text \<open>One row into the buffer, counted as scanned.\<close>

definition store_row :: "bytes \<Rightarrow> ScanState \<Rightarrow> ScanState exec" where
  "store_row row st =
     bind_exec (append_row row (scan_data st)) (\<lambda>d.
     bind_exec (arith32 (scanned_row_count d + 1)) (\<lambda>n.
       ret (st\<lparr>scan_data := d\<lparr>scanned_row_count := n\<rparr>\<rparr>)))"

definition keyed_row :: "Snippet \<Rightarrow> entry \<Rightarrow> bytes exec" where
  "keyed_row snip e =
     bind_exec (convert_key_to_value (fst e) (schema_info snip)) (\<lambda>ck. ret (ck @ snd e))"

definition scanned_row :: "Snippet \<Rightarrow> entry \<Rightarrow> bytes exec" where
  "scanned_row snip e =
     (if pk_column (schema_info snip) \<noteq> [] then keyed_row snip e else ret (snd e))"

text \<open>
  An entry of another table ends the scan of the block: the blocks that are left are counted
  (\<open>finish\<close> says how) and the buffer is handed over. The flag tells whether the function
  returned.
\<close>

definition scan_entry ::
  "(int \<Rightarrow> Data \<Rightarrow> Data) \<Rightarrow> (entry \<Rightarrow> bytes exec) \<Rightarrow> Snippet \<Rightarrow> entry \<Rightarrow> ScanState \<Rightarrow> (bool \<times> ScanState) exec" where
  "scan_entry finish row_of_entry snip e st =
     bind_exec (keti_get_table_index_number (fst e)) (\<lambda>t.
       if t \<noteq> table_index_number (schema_info snip)
       then ret (True, flush_scan snip (st\<lparr>scan_data := finish (left_block_count st) (scan_data st),
                                          left_block_count := 0\<rparr>))
       else bind_exec (row_of_entry e) (\<lambda>row.
            bind_exec (store_row row st) (\<lambda>st. ret (False, st))))"

definition add_left :: "int \<Rightarrow> Data \<Rightarrow> Data" where
  "add_left left d = d\<lparr>current_block_count := current_block_count d + left\<rparr>"

definition set_left :: "int \<Rightarrow> Data \<Rightarrow> Data" where
  "set_left left d = d\<lparr>current_block_count := left\<rparr>"

text \<open>The loop over a valid iterator.\<close>

fun scan_entries ::
  "(int \<Rightarrow> Data \<Rightarrow> Data) \<Rightarrow> (entry \<Rightarrow> bytes exec) \<Rightarrow> Snippet \<Rightarrow> entry list \<Rightarrow> ScanState
   \<Rightarrow> (bool \<times> ScanState) exec" where
  "scan_entries finish row_of_entry snip [] st = ret (False, st)"
| "scan_entries finish row_of_entry snip (e # es) st =
     bind_exec (scan_entry finish row_of_entry snip e st) (\<lambda>(returned, st).
       if returned then ret (True, st) else scan_entries finish row_of_entry snip es st)"

text \<open>The end of a block: it is counted, and the buffer goes out when enough blocks are in it.\<close>

definition end_of_block :: "Snippet \<Rightarrow> ScanState \<Rightarrow> ScanState" where
  "end_of_block snip st =
     (let st = st\<lparr>scan_data := (scan_data st)\<lparr>current_block_count := current_block_count (scan_data st) + 1\<rparr>,
                  left_block_count := left_block_count st - 1\<rparr>
      in if current_block_count (scan_data st) = NUM_OF_BLOCKS \<or> left_block_count st = 0
         then flush_scan snip st else st)"

definition after_entries :: "Snippet \<Rightarrow> (bool \<times> ScanState) exec \<Rightarrow> ScanState exec" where
  "after_entries snip m =
     bind_exec m (\<lambda>(returned, st). ret (if returned then st else end_of_block snip st))"

section \<open>Data blocks\<close>

type_synonym block_reader = "string \<Rightarrow> int list \<Rightarrow> int list \<Rightarrow> entry list"

text \<open>
  \<^verbatim>\<open>while(key_index < seek_key.size())\<close>: every turn seeks the same key and leaves the index as it
  is, so a turn that stores a row is followed by another one. \<open>None\<close> is a loop without end.
\<close>

partial_function (option) key_loop ::
  "Snippet \<Rightarrow> KvIter \<Rightarrow> bytes \<Rightarrow> int \<Rightarrow> ScanState \<Rightarrow> (bool \<times> ScanState) exec option" where
  "key_loop snip it target key_index st =
     (if \<not> key_index < int (length (seek_key (query_info snip))) then Some (ret (False, st))
      else if \<not> Valid (Seek target it) then Some (ret (False, st))
      else case scan_entry set_left (keyed_row snip) snip (entry_of (Seek target it)) st of
          Abort e \<Rightarrow> Some (Abort e)
        | Done (returned, st') l \<Rightarrow>
            (if returned then Some (Done (True, st') l) else key_loop snip (Seek target it) target key_index st'))"

definition run_key_loop ::
  "Snippet \<Rightarrow> KvIter \<Rightarrow> bytes \<Rightarrow> int \<Rightarrow> ScanState \<Rightarrow> (bool \<times> ScanState) exec" where
  "run_key_loop snip it target key_index st =
     (case key_loop snip it target key_index st of None \<Rightarrow> Abort NoReturn | Some m \<Rightarrow> m)"

definition read_data_block ::
  "block_reader \<Rightarrow> Snippet \<Rightarrow> bytes \<Rightarrow> int \<Rightarrow> int list \<Rightarrow> int list \<Rightarrow> ScanState \<Rightarrow> ScanState exec" where
  "read_data_block read_block snip target key_index offset len st =
     (let datablock_iter = NewIterator (read_block (partition_name (block_info snip)) offset len)
      in after_entries snip
          (if key_index \<noteq> -1 then run_key_loop snip datablock_iter target key_index st
           else scan_entries add_left (scanned_row snip) snip (ahead (Seek target datablock_iter)) st))"

text \<open>
  The reads of a snippet: a block with one offset is a run of physical blocks of the given
  lengths, one read each; a block with several offsets is one read of all its parts.
\<close>

fun run_reads :: "int \<Rightarrow> int list \<Rightarrow> (int list \<times> int list) list" where
  "run_reads off [] = []"
| "run_reads off (len # lens) = ([off], [len]) # run_reads ((off + len) mod 2 ^ 64) lens"

definition block_reads :: "Block \<Rightarrow> (int list \<times> int list) list" where
  "block_reads b =
     (case blk_offset b of [off] \<Rightarrow> run_reads off (blk_length b) | _ \<Rightarrow> [(blk_offset b, blk_length b)])"

definition snippet_reads :: "Snippet \<Rightarrow> (int list \<times> int list) list" where
  "snippet_reads snip = concat (map block_reads (block_list (block_info snip)))"

definition ScanState_init ::
  "Snippet \<Rightarrow> CsdResult WorkQueue \<Rightarrow> CsdResult WorkQueue \<Rightarrow> MonitoringManager \<Rightarrow> ScanState" where
  "ScanState_init snip fq pq mon =
     \<lparr>scan_data = data (CsdResult_init snip 0 0 0), left_block_count = csd_block_count (result_info snip),
      to_filter = fq, to_projection = pq, scan_monitor = mon\<rparr>"

definition data_block_full_scan :: "block_reader \<Rightarrow> Snippet \<Rightarrow> ScanState \<Rightarrow> ScanState exec" where
  "data_block_full_scan read_block snip st =
     (let target = generate_seek_key (table_index_number (schema_info snip)) in
      fold_exec (\<lambda>(off, len). read_data_block read_block snip target (-1) off len) (snippet_reads snip) st)"

section \<open>Index scans\<close>

text \<open>
  \<^verbatim>\<open>data_block_index_scan\<close> reads a fixed file (\<open>test_file\<close>) and seeks the four bytes at an empty
  literal (\<open>literal\<close>: a zero byte and what follows it in memory). \<open>seeks\<close> is the number of turns
  of the inner loop that are left.
\<close>

fun index_seeks :: "Snippet \<Rightarrow> KvIter \<Rightarrow> bytes \<Rightarrow> nat \<Rightarrow> ScanState \<Rightarrow> (bool \<times> ScanState) exec" where
  "index_seeks snip it target 0 st = ret (False, st)"
| "index_seeks snip it target (Suc seeks) st =
     (let it = Seek target it in
      if \<not> Valid it then ret (False, st)
      else bind_exec (scan_entry (\<lambda>_ d. d) (keyed_row snip) snip (entry_of it) st) (\<lambda>(returned, st').
             if returned then ret (True, st'\<lparr>left_block_count := left_block_count st\<rparr>)
             else index_seeks snip it target seeks st'))"

fun index_turns :: "Snippet \<Rightarrow> KvIter \<Rightarrow> bytes \<Rightarrow> nat \<Rightarrow> nat \<Rightarrow> ScanState \<Rightarrow> ScanState exec" where
  "index_turns snip it target seeks 0 st = ret st"
| "index_turns snip it target seeks (Suc turns) st =
     bind_exec (index_seeks snip it target seeks st) (\<lambda>(returned, st).
       if returned then ret st else index_turns snip it target seeks turns st)"

definition data_block_index_scan :: "entry list \<Rightarrow> bytes \<Rightarrow> Snippet \<Rightarrow> ScanState \<Rightarrow> ScanState exec" where
  "data_block_index_scan test_file literal snip st =
     (let n = length (seek_key (query_info snip))
      in index_turns snip (NewIterator test_file) literal n n st)"

text \<open>The key loop of \<^verbatim>\<open>read_index_block\<close> counts, so it ends.\<close>

fun index_key_loop :: "Snippet \<Rightarrow> KvIter \<Rightarrow> bytes \<Rightarrow> nat \<Rightarrow> ScanState \<Rightarrow> (bool \<times> ScanState) exec" where
  "index_key_loop snip it target 0 st = ret (False, st)"
| "index_key_loop snip it target (Suc seeks) st =
     (let it = Seek target it in
      if \<not> Valid it then ret (False, st)
      else bind_exec (scan_entry set_left (keyed_row snip) snip (entry_of it) st) (\<lambda>(returned, st).
             if returned then ret (True, st) else index_key_loop snip it target seeks st))"

definition read_index_block ::
  "block_reader \<Rightarrow> Snippet \<Rightarrow> bytes \<Rightarrow> int \<Rightarrow> int list \<Rightarrow> int list \<Rightarrow> ScanState \<Rightarrow> ScanState exec" where
  "read_index_block read_block snip target key_index offset len st =
     (let datablock_iter = NewIterator (read_block (partition_name (block_info snip)) offset len);
          keys = int (length (seek_key (query_info snip)))
      in after_entries snip
          (if key_index \<noteq> -1 then index_key_loop snip datablock_iter target (nat (keys - key_index)) st
           else scan_entries set_left (keyed_row snip) snip (ahead (SeekToFirst datablock_iter)) st))"

definition index_block_scan :: "block_reader \<Rightarrow> bytes \<Rightarrow> Snippet \<Rightarrow> ScanState \<Rightarrow> ScanState exec" where
  "index_block_scan read_block literal snip st =
     (if seek_key (query_info snip) = []
      then fold_exec (\<lambda>(off, len). read_index_block read_block snip
             (generate_seek_key (table_index_number (schema_info snip))) (-1) off len) (snippet_reads snip) st
      else fold_exec (\<lambda>(off, len). read_index_block read_block snip literal 0 off len) (snippet_reads snip) st)"

section \<open>Files\<close>

type_synonym sst_reader = "string \<Rightarrow> bytes \<Rightarrow> bytes \<Rightarrow> entry list"

definition count_scanned :: "ScanState \<Rightarrow> ScanState" where
  "count_scanned st = st\<lparr>scan_monitor := addScannedRow (row_count (scan_data st)) (scan_monitor st)\<rparr>"

definition sst_row :: "Snippet \<Rightarrow> entry \<Rightarrow> ScanState \<Rightarrow> ScanState exec" where
  "sst_row snip e st =
     bind_exec (scanned_row snip e) (\<lambda>row.
       let st = (if data_length (scan_data st) + int (length row) > BUFFER_SIZE
                 then flush_scan snip (count_scanned (st\<lparr>scan_data := add_left 100 (scan_data st),
                                                         left_block_count := left_block_count st - 100\<rparr>))
                 else st)
       in store_row row st)"

definition sst_path :: "string \<Rightarrow> string" where
  "sst_path name = ''/home/ngd/storage/keti-opencsd-origin/'' @ name"

definition sst_file :: "sst_reader \<Rightarrow> Snippet \<Rightarrow> bytes \<Rightarrow> bytes \<Rightarrow> string \<Rightarrow> ScanState \<Rightarrow> ScanState exec" where
  "sst_file read_sst snip lower upper name st =
     fold_exec (sst_row snip)
       (ahead (SeekToFirst (NewIterator (read_sst (sst_path name) lower upper)))) st"

definition sst_file_full_scan :: "sst_reader \<Rightarrow> Snippet \<Rightarrow> ScanState \<Rightarrow> ScanState exec" where
  "sst_file_full_scan read_sst snip st =
     (let n = table_index_number (schema_info snip) in
      bind_exec (arith32 (n + 1)) (\<lambda>m.
      bind_exec (fold_exec (sst_file read_sst snip (generate_seek_key n) (generate_seek_key m))
                   (sst_list (block_info snip)) st) (\<lambda>st.
        ret (flush_scan snip (count_scanned (st\<lparr>scan_data := add_left (left_block_count st) (scan_data st),
                                               left_block_count := 0\<rparr>))))))"

section \<open>The worker\<close>

text \<open>\<^verbatim>\<open>scan_wal\<close> has an empty body. An unknown type is logged and the snippet dropped.\<close>

definition scan_wal :: "Snippet \<Rightarrow> ScanState \<Rightarrow> ScanState" where
  "scan_wal snip st = st"

definition scan_snippet ::
  "block_reader \<Rightarrow> sst_reader \<Rightarrow> entry list \<Rightarrow> bytes \<Rightarrow> Snippet \<Rightarrow> ScanState \<Rightarrow> ScanState exec" where
  "scan_snippet read_block read_sst test_file literal snip st =
     (case snippet_type snip of
        FULL_SCAN \<Rightarrow> data_block_full_scan read_block snip st
      | INDEX_SCAN \<Rightarrow> data_block_index_scan test_file literal snip st
      | INDEX_TABLE_SCAN \<Rightarrow> index_block_scan read_block literal snip st
      | SST_FILE_SCAN \<Rightarrow> sst_file_full_scan read_sst snip st
      | _ \<Rightarrow> ret st)"

definition scan_worker ::
  "block_reader \<Rightarrow> sst_reader \<Rightarrow> entry list \<Rightarrow> bytes \<Rightarrow> Snippet WorkQueue \<Rightarrow> CsdResult WorkQueue
   \<Rightarrow> CsdResult WorkQueue \<Rightarrow> MonitoringManager \<Rightarrow> (Snippet WorkQueue \<times> ScanState exec) option" where
  "scan_worker read_block read_sst test_file literal sq fq pq mon =
     map_option (\<lambda>(snip, sq). (sq, scan_snippet read_block read_sst test_file literal snip
                                   (ScanState_init snip fq pq mon))) (wait_and_pop sq)"

end
