(* ===== verification/Input_Layer.thy ===== *)
theory Input_Layer
  imports Scan_Layer Tmax_Worker
begin

text \<open>
  The input layer, \<^verbatim>\<open>opencsd/input.cc\<close>: \<^verbatim>\<open>input_worker\<close> reads a request from a connection and
  \<^verbatim>\<open>parse_snippet\<close> turns its JSON document into the snippet that the scan layer or the Tibero
  worker takes from its queue. Reading a document is the accessors of \<open>Json\<close>; how a text becomes
  a document is a parameter, and a text that is no JSON becomes a document of kind null.
\<close>

section \<open>Loops over an array of the document\<close>

definition each_element :: "(json \<Rightarrow> 's \<Rightarrow> 's exec) \<Rightarrow> json \<Rightarrow> 's \<Rightarrow> 's exec" where
  "each_element f v st =
     bind_exec (jsize v) (\<lambda>n. fold_exec (\<lambda>i st. bind_exec (jelement v i) (\<lambda>w. f w st)) [0..<n] st)"

section \<open>Query\<close>

definition Operand_init :: Operand where
  "Operand_init = \<lparr>types = [], values = []\<rparr>"

text \<open>The loop bound is the size of the array of types; values and types are read by the same index.\<close>

definition parse_operand :: "json \<Rightarrow> Operand exec" where
  "parse_operand v =
     bind_exec (get_member jsize v ''type'') (\<lambda>n.
     fold_exec (\<lambda>j opd.
       bind_exec (get_member (\<lambda>ts. get_element GetInt ts j) v ''type'') (\<lambda>t.
       bind_exec (get_member (\<lambda>vs. get_element GetString vs j) v ''value'') (\<lambda>s.
         ret (opd\<lparr>types := types opd @ [value_type_of_int t], values := values opd @ [s]\<rparr>))))
       [0..<n] Operand_init)"

definition parse_filter :: "json \<Rightarrow> Filtering exec" where
  "parse_filter v =
     bind_exec (get_member GetInt v ''operator'') (\<lambda>n.
     let filter = \<lparr>lv = Operand_init, oper = oper_type_of_int n, rv = Operand_init\<rparr> in
     if \<not> (oper filter = OP_AND \<or> oper filter = OP_OR)
     then bind_exec (jmember v ''lv'') (\<lambda>l.
          bind_exec (jmember v ''rv'') (\<lambda>r.
          bind_exec (parse_operand l) (\<lambda>lo.
          bind_exec (parse_operand r) (\<lambda>ro.
            ret (filter\<lparr>lv := lo, rv := ro\<rparr>)))))
     else ret filter)"

text \<open>For a projection the loop bound is the size of the array of values.\<close>

definition parse_projection :: "json \<Rightarrow> Projectioning exec" where
  "parse_projection v =
     bind_exec (get_member GetInt v ''select_type'') (\<lambda>n.
     bind_exec (jmember v ''value'') (\<lambda>vals.
     bind_exec (jmember v ''value_type'') (\<lambda>tys.
     bind_exec (jsize vals) (\<lambda>k.
     bind_exec (fold_exec (\<lambda>j opd.
         bind_exec (get_element GetString vals j) (\<lambda>s.
         bind_exec (get_element GetInt tys j) (\<lambda>t.
           ret (opd\<lparr>types := types opd @ [value_type_of_int t], values := values opd @ [s]\<rparr>))))
       [0..<k] Operand_init) (\<lambda>e.
       ret \<lparr>select_type = select_type_of_int n, expression = e\<rparr>)))))"

definition parse_query_info :: "json \<Rightarrow> QueryInfo exec" where
  "parse_query_info v =
     bind_exec (get_member (\<lambda>ts. get_element GetString ts 0) v ''table_name'') (\<lambda>tn.
     bind_exec (get_member (collect_elements parse_filter) v ''filtering'') (\<lambda>fs.
     bind_exec (get_member (collect_elements parse_projection) v ''projection'') (\<lambda>ps.
       ret \<lparr>table_name = tn, filtering = fs, projection = ps, seek_key = []\<rparr>)))"

section \<open>Schema\<close>

definition SchemaInfo_init :: SchemaInfo where
  "SchemaInfo_init = \<lparr>column_name = [], column_offset = [], column_length = [], column_type = [], column_index_map = [],
     pk_column = [], index_column = [], table_index_number = 0, has_var_char = False\<rparr>"

text \<open>A column at the current offset.\<close>

definition push_column :: "json \<Rightarrow> SchemaInfo \<times> int \<Rightarrow> (SchemaInfo \<times> int) exec" where
  "push_column c acc =
     (let (sch, column_off) = acc in
      bind_exec (get_member GetString c ''name'') (\<lambda>name.
      bind_exec (get_member GetInt c ''length'') (\<lambda>len.
      bind_exec (get_member GetInt c ''type'') (\<lambda>ty.
      bind_exec (arith32 (column_off + len)) (\<lambda>next_off.
        ret (sch\<lparr>column_offset := column_offset sch @ [column_off], column_name := column_name sch @ [name],
                 column_length := column_length sch @ [len],
                 column_type := column_type sch @ [mysql_type_of_int ty]\<rparr>, next_off))))))"

text \<open>The first pass stores the columns of the primary key.\<close>

definition pk_pass :: "json \<Rightarrow> SchemaInfo \<times> int \<Rightarrow> (SchemaInfo \<times> int) exec" where
  "pk_pass c acc =
     bind_exec (get_member GetBool c ''primary'') (\<lambda>primary.
     if primary
     then bind_exec (push_column c acc) (\<lambda>(sch, column_off).
          bind_exec (get_member GetString c ''name'') (\<lambda>name.
            ret (sch\<lparr>pk_column := pk_column sch @ [name]\<rparr>, column_off)))
     else ret acc)"

text \<open>The second pass stores the others and looks at every column for indexes and VARCHAR.\<close>

definition rest_pass :: "json \<Rightarrow> SchemaInfo \<times> int \<Rightarrow> (SchemaInfo \<times> int) exec" where
  "rest_pass c acc =
     bind_exec (get_member GetBool c ''primary'') (\<lambda>primary.
     bind_exec (if primary then ret acc else push_column c acc) (\<lambda>(sch, column_off).
     bind_exec (get_member GetBool c ''index'') (\<lambda>idx.
     bind_exec (if idx then bind_exec (get_member GetString c ''name'') (\<lambda>name.
                              ret (sch\<lparr>index_column := index_column sch @ [name]\<rparr>))
                else ret sch) (\<lambda>sch.
     bind_exec (get_member GetInt c ''type'') (\<lambda>ty.
       ret (if mysql_type_of_int ty = MySQL_VARSTRING then sch\<lparr>has_var_char := True\<rparr> else sch, column_off))))))"

text \<open>\<^verbatim>\<open>unordered_map::insert\<close> keeps the entry of a name that is already there.\<close>

fun insert_indexes :: "int \<Rightarrow> string list \<Rightarrow> (string \<times> int) list \<Rightarrow> (string \<times> int) list" where
  "insert_indexes i [] imap = imap"
| "insert_indexes i (name # names) imap =
     insert_indexes (i + 1) names (if map_of imap name = None then (name, i) # imap else imap)"

definition parse_schema :: "json \<Rightarrow> SchemaInfo exec" where
  "parse_schema document =
     bind_exec (get_member (\<lambda>v. jmember v ''column_list'') document ''schema_info'') (\<lambda>column_list.
     bind_exec (each_element pk_pass column_list (SchemaInfo_init, 0)) (\<lambda>acc.
     bind_exec (each_element rest_pass column_list acc) (\<lambda>(sch, column_off).
     let sch = sch\<lparr>column_offset := column_offset sch @ [column_off],
                   column_index_map := insert_indexes 0 (column_name sch) (column_index_map sch)\<rparr> in
     bind_exec (get_member (\<lambda>v. get_member GetInt v ''table_index_number'') document ''schema_info'') (\<lambda>n.
       ret (sch\<lparr>table_index_number := n\<rparr>)))))"

section \<open>Blocks, log and result\<close>

text \<open>An \<^verbatim>\<open>int\<close> becomes a \<^verbatim>\<open>uint64_t\<close> modulo \<open>2^64\<close>.\<close>

definition parse_block :: "json \<Rightarrow> Block exec" where
  "parse_block v =
     bind_exec (get_member (collect_elements (\<lambda>w. bind_exec (GetString w) stoull)) v ''offset'') (\<lambda>offs.
     bind_exec (get_member (collect_elements (\<lambda>w. bind_exec (GetInt w) (\<lambda>n. ret (n mod 2 ^ 64)))) v ''length'') (\<lambda>lens.
       ret \<lparr>blk_offset = offs, blk_length = lens\<rparr>))"

definition parse_block_info :: "json \<Rightarrow> SNIPPET_TYPE \<Rightarrow> (BlockInfo \<times> SNIPPET_TYPE) exec" where
  "parse_block_info v ty =
     bind_exec (get_member GetString v ''partition'') (\<lambda>part.
     bind_exec (has_member v ''block'') (\<lambda>blocks.
     if blocks
     then bind_exec (get_member (collect_elements parse_block) v ''block'') (\<lambda>bs.
            ret (\<lparr>partition_name = part, sst_list = [], block_list = bs\<rparr>, ty))
     else bind_exec (get_member (collect_elements GetString) v ''sst_list'') (\<lambda>fs.
            ret (\<lparr>partition_name = part, sst_list = fs, block_list = []\<rparr>, SST_FILE_SCAN))))"

definition WalInfo_init :: WalInfo where
  "WalInfo_init = \<lparr>deleted_key = [], inserted_key = [], inserted_value = []\<rparr>"

definition parse_wal_info :: "json \<Rightarrow> WalInfo exec" where
  "parse_wal_info v =
     bind_exec (get_member (collect_elements GetString) v ''deleted_key'') (\<lambda>del.
     bind_exec (jmember v ''inserted_key'') (\<lambda>keys.
     bind_exec (jmember v ''inserted_value'') (\<lambda>vals.
     bind_exec (jsize keys) (\<lambda>n.
     bind_exec (collect n (\<lambda>i. bind_exec (get_element GetString keys i) (\<lambda>k.
                               bind_exec (get_element GetString vals i) (\<lambda>w. ret (k, w))))) (\<lambda>kvs.
       ret \<lparr>deleted_key = del, inserted_key = map fst kvs, inserted_value = map snd kvs\<rparr>)))))"

definition parse_wal :: "json \<Rightarrow> WalInfo exec" where
  "parse_wal document =
     bind_exec (has_member document ''wal_info'') (\<lambda>wal.
     if wal then get_member parse_wal_info document ''wal_info'' else ret WalInfo_init)"

definition parse_result_info :: "json \<Rightarrow> ResultInfo exec" where
  "parse_result_info v =
     bind_exec (get_member GetString v ''table_alias'') (\<lambda>alias.
     bind_exec (get_member jsize v ''column_alias'') (\<lambda>n.
     bind_exec (collect n (\<lambda>i.
         bind_exec (get_member (\<lambda>w. get_element GetString w i) v ''column_alias'') (\<lambda>a.
         bind_exec (get_member (\<lambda>w. get_element GetInt w i) v ''return_column_type'') (\<lambda>t.
         bind_exec (get_member (\<lambda>w. get_element GetInt w i) v ''return_column_length'') (\<lambda>l.
           ret (a, t, l)))))) (\<lambda>cols.
     bind_exec (get_member GetInt v ''total_block_count'') (\<lambda>total_blocks.
     bind_exec (get_member GetInt v ''csd_block_count'') (\<lambda>csd_blocks.
       ret \<lparr>table_alias = alias, column_alias = map fst cols, return_column_type = map (fst \<circ> snd) cols,
            return_column_length = map (snd \<circ> snd) cols, total_block_count = total_blocks,
            csd_block_count = csd_blocks\<rparr>)))))"

section \<open>Snippets\<close>

definition parse_chunk :: "json \<Rightarrow> chunk exec" where
  "parse_chunk v =
     bind_exec (get_member GetInt64 v ''offset'') (\<lambda>off.
     bind_exec (get_member GetInt64 v ''length'') (\<lambda>len.
       ret \<lparr>chunk_offset = off, chunk_length = len\<rparr>))"

definition parse_tmax_snippet :: "json \<Rightarrow> tSnippet exec" where
  "parse_tmax_snippet document =
     bind_exec (get_member GetInt document ''id'') (\<lambda>i.
     bind_exec (get_member GetInt document ''block_size'') (\<lambda>bl.
     bind_exec (get_member GetInt document ''buffer_size'') (\<lambda>bu.
     bind_exec (get_member GetString document ''filter_info'') (\<lambda>fi.
     bind_exec (get_member GetString document ''file_name'') (\<lambda>fn.
     bind_exec (get_member (collect_elements parse_chunk) document ''chunk_list'') (\<lambda>cs.
       ret \<lparr>t_id = i, block_size = bl, buffer_size = bu, chunks = cs, filter_text = fi, file_name = fn\<rparr>))))))"

definition parse_scan_snippet :: "json \<Rightarrow> Snippet exec" where
  "parse_scan_snippet document =
     bind_exec (get_member GetInt document ''type'') (\<lambda>ty.
     bind_exec (get_member GetInt document ''query_id'') (\<lambda>q.
     bind_exec (get_member GetInt document ''work_id'') (\<lambda>w.
     bind_exec (get_member parse_query_info document ''query_info'') (\<lambda>qi.
     bind_exec (parse_schema document) (\<lambda>sch.
     bind_exec (get_member (\<lambda>v. parse_block_info v (snippet_type_of_int ty)) document ''block_info'') (\<lambda>(bi, ty).
     bind_exec (parse_wal document) (\<lambda>wal.
     bind_exec (get_member parse_result_info document ''result_info'') (\<lambda>ri.
       ret \<lparr>snippet_type = ty, query_id = q, work_id = w, query_info = qi, schema_info = sch,
            block_info = bi, wal_info = wal, result_info = ri\<rparr>))))))))"

record Input =
  scan_layer :: "Snippet WorkQueue"
  tmax_worker :: "tSnippet WorkQueue"

definition parse_snippet :: "(string \<Rightarrow> json) \<Rightarrow> string \<Rightarrow> Input \<Rightarrow> Input exec" where
  "parse_snippet Parse json_text inp =
     (let document = Parse json_text in
      bind_exec (get_member GetInt document ''type'') (\<lambda>ty.
      if snippet_type_of_int ty = TMAX_SNIPPET
      then bind_exec (parse_tmax_snippet document) (\<lambda>t.
             ret (inp\<lparr>tmax_worker := enqueue_worker t (tmax_worker inp)\<rparr>))
      else bind_exec (parse_scan_snippet document) (\<lambda>s.
             ret (inp\<lparr>scan_layer := enqueue_scan s (scan_layer inp)\<rparr>))))"

section \<open>Requests\<close>

text \<open>
  What \<^verbatim>\<open>read\<close> returns on the connection, call by call: an error, or the bytes read, none
  of them at the end of the stream. \<open>None\<close> is a worker that still reads when the calls are
  used up; a read error ends the process (\<open>ReadFailed\<close>).
\<close>

datatype read_call = ReadError | ReadBytes bytes

datatype 'a received = ReadFailed | Received 'a

fun read_document :: "int \<Rightarrow> read_call list \<Rightarrow> string \<Rightarrow> (string \<times> read_call list) received option" where
  "read_document len [] json_text = None"
| "read_document len (ReadError # calls) json_text = Some ReadFailed"
| "read_document len (ReadBytes bs # calls) json_text =
     (let len = (len - int (length bs)) mod 2 ^ 64;
          json_text = json_text @ c_string (text_of bs)
      in if len = 0 then Some (Received (json_text, calls)) else read_document len calls json_text)"

text \<open>
  One connection: eight bytes of length, the document, its snippet. A first \<^verbatim>\<open>read\<close> that
  delivers fewer bytes leaves the rest of \<^verbatim>\<open>length\<close> unwritten; its return value is only
  compared with 0, for a message.
\<close>

fun input_request ::
  "(string \<Rightarrow> json) \<Rightarrow> read_call list \<Rightarrow> Input \<Rightarrow> Input exec received option" where
  "input_request Parse (ReadBytes hdr # calls) inp =
     (if length hdr \<noteq> 8 then Some (Received (Abort Uninitialised))
      else case read_document (le_uint hdr) calls [] of
          None \<Rightarrow> None
        | Some ReadFailed \<Rightarrow> Some ReadFailed
        | Some (Received (json_text, _)) \<Rightarrow> Some (Received (parse_snippet Parse (c_string json_text) inp)))"
| "input_request Parse (ReadError # calls) inp = Some (Received (Abort Uninitialised))"
| "input_request Parse [] inp = None"

text \<open>The worker serves one connection after the other; an endless one keeps it.\<close>

fun input_worker ::
  "(string \<Rightarrow> json) \<Rightarrow> read_call list list \<Rightarrow> Input \<Rightarrow> Input exec received option" where
  "input_worker Parse [] inp = Some (Received (ret inp))"
| "input_worker Parse (calls # connections) inp =
     (case input_request Parse calls inp of
        None \<Rightarrow> None
      | Some ReadFailed \<Rightarrow> Some ReadFailed
      | Some (Received (Abort e)) \<Rightarrow> Some (Received (Abort e))
      | Some (Received (Done inp' l)) \<Rightarrow>
          (case input_worker Parse connections inp' of
             Some (Received (Done inp'' l')) \<Rightarrow> Some (Received (Done inp'' (l @ l')))
           | other \<Rightarrow> other))"

end
