(* ===== verification/Input_Laws.thy ===== *)
theory Input_Laws
  imports Input_Layer
begin

text \<open>
  What the input layer delivers. The schema of an accepted document is determined by its column
  declarations, primary key first; every accepted snippet is well formed; a document written for a
  snippet is read back as that snippet; a request is read whole however it is cut into
  pieces, and a connection that ends early keeps the worker forever.
\<close>

section \<open>Runs without faults\<close>

lemma bind_eq_ret: "bind_exec m f = ret b \<longleftrightarrow> (\<exists>a. m = ret a \<and> f a = ret b)"
  by (auto simp: bind_eq_Done)

lemma arith32_eq_ret: "arith32 z = ret r \<longleftrightarrow> int32_ok z \<and> r = z"
  by (auto simp: arith32_def)

lemma getter_eq_ret:
  "GetInt v = ret n \<longleftrightarrow> v = JInt n \<and> int32_ok n"
  "GetInt64 v = ret n \<longleftrightarrow> v = JInt n \<and> int64_ok n"
  "GetBool v = ret b \<longleftrightarrow> v = JBool b"
  "jsize v = ret k \<longleftrightarrow> (\<exists>vs. v = JArray vs \<and> k = length vs)"
  by (auto simp: GetInt_def GetInt64_def GetBool_def jsize_def split: json.splits if_splits)

lemma each_element_array: "each_element f (JArray vs) st = fold_exec f vs st"
proof -
  have "fold_exec (\<lambda>i st. bind_exec (jelement (JArray vs) i) (\<lambda>w. f w st)) [0..<n] st = fold_exec f (take n vs) st"
    if "n \<le> length vs" for n
    using that
  proof (induction n)
    case 0
    then show ?case by simp
  next
    case (Suc n)
    then have n: "n < length vs" by simp
    show ?case
      by (simp add: fold_exec_append take_Suc_conv_app_nth [OF n] Suc.IH [OF less_imp_le [OF n]] jelement_simps [OF n]
          cong: bind_exec_cong)
  qed
  from this [of "length vs"] show ?thesis by (simp add: each_element_def)
qed

lemma each_element_eq_ret:
  "each_element f v st = ret r \<longleftrightarrow> (\<exists>vs. v = JArray vs \<and> fold_exec f vs st = ret r)"
proof (cases "\<exists>vs. v = JArray vs")
  case True
  then show ?thesis by (auto simp: each_element_array)
next
  case False
  then have "jsize v = Abort JsonAssert" by (cases v) (simp_all add: jsize_def)
  then show ?thesis using False by (simp add: each_element_def)
qed

text \<open>A loop keeps what its body keeps.\<close>

lemma fold_exec_keeps:
  assumes "fold_exec f xs s = ret r" and "P s"
    and "\<And>x s s'. x \<in> set xs \<Longrightarrow> P s \<Longrightarrow> f x s = ret s' \<Longrightarrow> P s'"
  shows "P r"
  using assms
proof (induction xs arbitrary: s)
  case Nil
  then show ?case by simp
next
  case (Cons x xs)
  then obtain s1 where s1: "f x s = ret s1" "fold_exec f xs s1 = ret r" by (auto simp: bind_eq_ret)
  from Cons.prems(3) [OF _ Cons.prems(2) s1(1)] have "P s1" by simp
  from s1(2) this Cons.prems(3) [OF list.set_intros(2)] show ?case by (rule Cons.IH)
qed

lemma collect_eq_ret:
  "collect n f = ret xs \<Longrightarrow> length xs = n \<and> (\<forall>i < n. f i = ret (xs ! i))"
proof (induction n arbitrary: xs)
  case 0
  then have "xs = []" by (auto simp: collect_def)
  then show ?case by simp
next
  case (Suc n)
  from Suc.prems obtain ys y where y: "collect n f = ret ys" "f n = ret y" "xs = ys @ [y]"
    by (auto simp: collect_def fold_exec_append bind_eq_ret)
  show ?case using Suc.IH [OF y(1)] y(2,3) by (simp add: nth_append less_Suc_eq)
qed

lemma collect_elements_eq_ret:
  assumes "collect_elements f v = ret xs"
  shows "\<exists>vs. v = JArray vs \<and> list_all2 (\<lambda>w x. f w = ret x) vs xs"
proof -
  from assms obtain vs where vs: "v = JArray vs" "collect (length vs) (get_element f v) = ret xs"
    by (auto simp: collect_elements_def bind_eq_ret getter_eq_ret)
  with collect_eq_ret [OF vs(2)] have "list_all2 (\<lambda>w x. f w = ret x) vs xs"
    by (auto simp: list_all2_conv_all_nth)
  with vs(1) show ?thesis by blast
qed

section \<open>The schema of a document\<close>

record column_decl =
  decl_name :: string
  decl_length :: int
  decl_type :: int
  is_primary :: bool
  is_indexed :: bool

definition reads_as :: "json \<Rightarrow> column_decl \<Rightarrow> bool" where
  "reads_as c col \<longleftrightarrow>
     get_member GetString c ''name'' = ret (decl_name col) \<and> get_member GetInt c ''length'' = ret (decl_length col) \<and>
     get_member GetInt c ''type'' = ret (decl_type col) \<and> get_member GetBool c ''primary'' = ret (is_primary col) \<and>
     get_member GetBool c ''index'' = ret (is_indexed col)"

definition decl_mysql_type :: "column_decl \<Rightarrow> MySQL_DataType" where
  "decl_mysql_type col = mysql_type_of_int (decl_type col)"

definition key_first :: "column_decl list \<Rightarrow> column_decl list" where
  "key_first cols = filter is_primary cols @ filter (\<lambda>c. \<not> is_primary c) cols"

definition schema_of :: "int \<Rightarrow> column_decl list \<Rightarrow> SchemaInfo" where
  "schema_of n cols =
     \<lparr>column_name = map decl_name (key_first cols),
      column_offset = decl_offsets 0 (map decl_length (key_first cols)),
      column_length = map decl_length (key_first cols), column_type = map decl_mysql_type (key_first cols),
      column_index_map = insert_indexes 0 (map decl_name (key_first cols)) [],
      pk_column = map decl_name (filter is_primary cols), index_column = map decl_name (filter is_indexed cols),
      table_index_number = n, has_var_char = list_ex (\<lambda>c. decl_mysql_type c = MySQL_VARSTRING) cols\<rparr>"

text \<open>The running offset is an \<^verbatim>\<open>int\<close> that must not overflow.\<close>

fun fits :: "int \<Rightarrow> int list \<Rightarrow> bool" where
  "fits k [] = True"
| "fits k (l # ls) \<longleftrightarrow> int32_ok (k + l) \<and> fits (k + l) ls"

fun col_starts :: "int \<Rightarrow> int list \<Rightarrow> int list" where
  "col_starts k [] = []"
| "col_starts k (l # ls) = k # col_starts (k + l) ls"

lemma decl_offsets_col_starts: "decl_offsets k ls = col_starts k ls @ [k + sum_list ls]"
  by (induction ls arbitrary: k) (simp_all add: add.assoc)

lemma col_starts_append: "col_starts k (xs @ ys) = col_starts k xs @ col_starts (k + sum_list xs) ys"
  by (induction xs arbitrary: k) (simp_all add: add.assoc)

lemma fits_append: "fits k (xs @ ys) \<longleftrightarrow> fits k xs \<and> fits (k + sum_list xs) ys"
  by (induction xs arbitrary: k) (simp_all add: add.assoc)

definition push_columns :: "column_decl list \<Rightarrow> int \<Rightarrow> SchemaInfo \<Rightarrow> SchemaInfo" where
  "push_columns cols k sch =
     sch\<lparr>column_offset := column_offset sch @ col_starts k (map decl_length cols),
         column_name := column_name sch @ map decl_name cols,
         column_length := column_length sch @ map decl_length cols,
         column_type := column_type sch @ map decl_mysql_type cols\<rparr>"

lemma push_column_eq_ret:
  assumes "reads_as c col"
  shows "push_column c (sch, k) = ret r \<longleftrightarrow>
    int32_ok (k + decl_length col) \<and> r = (push_columns [col] k sch, k + decl_length col)"
  using assms
  by (auto simp: reads_as_def push_column_def push_columns_def decl_mysql_type_def bind_eq_ret arith32_eq_ret)

lemma push_columns_Cons:
  "push_columns (col # cols) k sch = push_columns cols (k + decl_length col) (push_columns [col] k sch)"
  by (simp add: push_columns_def)

lemma pk_push_columns [simp]: "pk_column (push_columns cols k sch) = pk_column sch"
  "(push_columns cols k sch)\<lparr>pk_column := pks\<rparr> = push_columns cols k (sch\<lparr>pk_column := pks\<rparr>)"
  by (simp_all add: push_columns_def)

lemma pk_pass_eq_ret:
  assumes "reads_as c col"
  shows "pk_pass c (sch, k) = ret r \<longleftrightarrow>
    (if is_primary col then int32_ok (k + decl_length col) \<and>
       r = (push_columns [col] k (sch\<lparr>pk_column := pk_column sch @ [decl_name col]\<rparr>), k + decl_length col)
     else r = (sch, k))"
proof -
  have "get_member GetBool c ''primary'' = ret (is_primary col)" "get_member GetString c ''name'' = ret (decl_name col)"
    using assms by (simp_all add: reads_as_def)
  then show ?thesis
    by (auto simp: pk_pass_def bind_eq_ret push_column_eq_ret [OF assms])
qed

lemma pk_passes:
  assumes "list_all2 reads_as cs cols"
  shows "fold_exec pk_pass cs (sch, k) = ret r \<longleftrightarrow>
    fits k (map decl_length (filter is_primary cols)) \<and>
    r = (push_columns (filter is_primary cols) k (sch\<lparr>pk_column := pk_column sch @ map decl_name (filter is_primary cols)\<rparr>),
         k + sum_list (map decl_length (filter is_primary cols)))"
  using assms
proof (induction arbitrary: sch k rule: list_all2_induct)
  case Nil
  show ?case by (simp add: push_columns_def eq_commute)
next
  case (Cons c cs col cols)
  have step: "fold_exec pk_pass (c # cs) (sch, k) = ret r \<longleftrightarrow>
    (\<exists>s. pk_pass c (sch, k) = ret s \<and> fold_exec pk_pass cs s = ret r)"
    by (simp add: bind_eq_ret)
  show ?case
  proof (cases "is_primary col")
    case True
    have "fold_exec pk_pass (c # cs) (sch, k) = ret r \<longleftrightarrow> int32_ok (k + decl_length col) \<and>
      fold_exec pk_pass cs (push_columns [col] k (sch\<lparr>pk_column := pk_column sch @ [decl_name col]\<rparr>), k + decl_length col) = ret r"
      unfolding step pk_pass_eq_ret [OF Cons.hyps(1)] using True by auto
    then show ?thesis
      by (simp add: True Cons.IH push_columns_Cons [of col "filter is_primary cols"] add.assoc del: fold_exec.simps)
  next
    case False
    have "fold_exec pk_pass (c # cs) (sch, k) = ret r \<longleftrightarrow> fold_exec pk_pass cs (sch, k) = ret r"
      unfolding step pk_pass_eq_ret [OF Cons.hyps(1)] using False by auto
    then show ?thesis by (simp add: False Cons.IH del: fold_exec.simps)
  qed
qed

definition mark :: "column_decl list \<Rightarrow> SchemaInfo \<Rightarrow> SchemaInfo" where
  "mark cols sch =
     sch\<lparr>index_column := index_column sch @ map decl_name (filter is_indexed cols),
         has_var_char := (has_var_char sch \<or> list_ex (\<lambda>c. decl_mysql_type c = MySQL_VARSTRING) cols)\<rparr>"

lemma mark_push_columns: "push_columns ds k (mark cols sch) = mark cols (push_columns ds k sch)"
  by (simp add: mark_def push_columns_def)

lemma mark_Cons: "mark (col # cols) sch = mark cols (mark [col] sch)"
  by (simp add: mark_def)

lemma rest_pass_eq_ret:
  assumes "reads_as c col"
  shows "rest_pass c (sch, k) = ret r \<longleftrightarrow>
    (if is_primary col then r = (mark [col] sch, k)
     else int32_ok (k + decl_length col) \<and> r = (mark [col] (push_columns [col] k sch), k + decl_length col))"
proof -
  have "get_member GetBool c ''primary'' = ret (is_primary col)" "get_member GetString c ''name'' = ret (decl_name col)"
    "get_member GetBool c ''index'' = ret (is_indexed col)" "get_member GetInt c ''type'' = ret (decl_type col)"
    using assms by (simp_all add: reads_as_def)
  then show ?thesis
    by (auto simp: rest_pass_def bind_eq_ret push_column_eq_ret [OF assms] mark_def decl_mysql_type_def)
qed

lemma rest_passes:
  assumes "list_all2 reads_as cs cols"
  shows "fold_exec rest_pass cs (sch, k) = ret r \<longleftrightarrow>
    fits k (map decl_length (filter (\<lambda>c. \<not> is_primary c) cols)) \<and>
    r = (mark cols (push_columns (filter (\<lambda>c. \<not> is_primary c) cols) k sch),
         k + sum_list (map decl_length (filter (\<lambda>c. \<not> is_primary c) cols)))"
  using assms
proof (induction arbitrary: sch k rule: list_all2_induct)
  case Nil
  show ?case by (simp add: push_columns_def mark_def eq_commute)
next
  case (Cons c cs col cols)
  have step: "fold_exec rest_pass (c # cs) (sch, k) = ret r \<longleftrightarrow>
    (\<exists>s. rest_pass c (sch, k) = ret s \<and> fold_exec rest_pass cs s = ret r)"
    by (simp add: bind_eq_ret)
  show ?case
  proof (cases "is_primary col")
    case True
    have "fold_exec rest_pass (c # cs) (sch, k) = ret r \<longleftrightarrow> fold_exec rest_pass cs (mark [col] sch, k) = ret r"
      unfolding step rest_pass_eq_ret [OF Cons.hyps(1)] using True by auto
    then show ?thesis
      by (simp add: True Cons.IH mark_push_columns mark_Cons [of col cols] del: fold_exec.simps)
  next
    case False
    have "fold_exec rest_pass (c # cs) (sch, k) = ret r \<longleftrightarrow> int32_ok (k + decl_length col) \<and>
      fold_exec rest_pass cs (mark [col] (push_columns [col] k sch), k + decl_length col) = ret r"
      unfolding step rest_pass_eq_ret [OF Cons.hyps(1)] using False by auto
    then show ?thesis
      by (simp add: False Cons.IH push_columns_Cons [of col "filter (\<lambda>c. \<not> is_primary c) cols"] mark_Cons [of col cols]
          mark_push_columns add.assoc del: fold_exec.simps)
  qed
qed

text \<open>A document that gets through both passes has readable declarations.\<close>

lemma fold_exec_each:
  "fold_exec f xs s = ret r \<Longrightarrow> x \<in> set xs \<Longrightarrow> \<exists>t t'. f x t = ret t'"
  by (induction xs arbitrary: s) (auto simp: bind_eq_ret)

lemma pk_pass_reads:
  assumes "pk_pass c acc = ret r"
  shows "\<exists>p. get_member GetBool c ''primary'' = ret p \<and>
    (p \<longrightarrow> (\<exists>n. get_member GetString c ''name'' = ret n) \<and> (\<exists>l. get_member GetInt c ''length'' = ret l))"
  using assms by (auto simp: pk_pass_def push_column_def bind_eq_ret split: prod.splits if_splits)

lemma rest_pass_reads:
  assumes "rest_pass c acc = ret r"
  shows "\<exists>p i t. get_member GetBool c ''primary'' = ret p \<and> get_member GetBool c ''index'' = ret i \<and>
    get_member GetInt c ''type'' = ret t \<and>
    (\<not> p \<longrightarrow> (\<exists>n. get_member GetString c ''name'' = ret n) \<and> (\<exists>l. get_member GetInt c ''length'' = ret l))"
  using assms by (auto simp: rest_pass_def push_column_def bind_eq_ret split: prod.splits if_splits)

lemma passes_read:
  assumes "pk_pass c a1 = ret r1" and "rest_pass c a2 = ret r2"
  shows "\<exists>col. reads_as c col"
proof -
  obtain p where p: "get_member GetBool c ''primary'' = ret p"
    "p \<longrightarrow> (\<exists>n. get_member GetString c ''name'' = ret n) \<and> (\<exists>l. get_member GetInt c ''length'' = ret l)"
    using pk_pass_reads [OF assms(1)] by blast
  obtain q i t where q: "get_member GetBool c ''primary'' = ret q" "get_member GetBool c ''index'' = ret i"
    "get_member GetInt c ''type'' = ret t"
    "\<not> q \<longrightarrow> (\<exists>n. get_member GetString c ''name'' = ret n) \<and> (\<exists>l. get_member GetInt c ''length'' = ret l)"
    using rest_pass_reads [OF assms(2)] by blast
  have "q = p" using p(1) q(1) by simp
  then obtain n l where "get_member GetString c ''name'' = ret n" "get_member GetInt c ''length'' = ret l"
    using p(2) q(4) by blast
  with p(1) q(2,3) have
    "reads_as c \<lparr>decl_name = n, decl_length = l, decl_type = t, is_primary = p, is_indexed = i\<rparr>"
    by (simp add: reads_as_def)
  then show ?thesis by blast
qed

lemma all_read:
  assumes "fold_exec pk_pass cs a1 = ret r1" and "fold_exec rest_pass cs a2 = ret r2"
  shows "\<exists>cols. list_all2 reads_as cs cols"
proof -
  have "\<forall>c \<in> set cs. \<exists>col. reads_as c col"
    using fold_exec_each [OF assms(1)] fold_exec_each [OF assms(2)] passes_read by meson
  then obtain g where "\<forall>c \<in> set cs. reads_as c (g c)" using bchoice [of "set cs" reads_as] by blast
  then have "list_all2 reads_as cs (map g cs)" by (simp add: list_all2_conv_all_nth)
  then show ?thesis by blast
qed

definition declares :: "json \<Rightarrow> int \<Rightarrow> column_decl list \<Rightarrow> bool" where
  "declares document n cols \<longleftrightarrow>
     (\<exists>v cs. jmember document ''schema_info'' = ret v \<and> jmember v ''column_list'' = ret (JArray cs) \<and>
        get_member GetInt v ''table_index_number'' = ret n \<and> list_all2 reads_as cs cols)"

lemma parse_schema_declared:
  assumes "declares document n cols"
  shows "parse_schema document = ret sch \<longleftrightarrow> fits 0 (map decl_length (key_first cols)) \<and> sch = schema_of n cols"
proof -
  from assms obtain v cs where d: "jmember document ''schema_info'' = ret v" "jmember v ''column_list'' = ret (JArray cs)"
    "get_member GetInt v ''table_index_number'' = ret n" and cols: "list_all2 reads_as cs cols"
    by (auto simp: declares_def)
  show ?thesis
    by (simp add: parse_schema_def d each_element_array bind_eq_ret pk_passes [OF cols] rest_passes [OF cols] fits_append key_first_def)
      (auto simp: mark_def push_columns_def SchemaInfo_init_def schema_of_def key_first_def decl_offsets_col_starts col_starts_append)
qed

text \<open>Exactly the documents with readable columns whose lengths add up within an \<^verbatim>\<open>int\<close> are accepted.\<close>

lemma parse_schema_eq_ret:
  "parse_schema document = ret sch \<longleftrightarrow>
    (\<exists>n cols. declares document n cols \<and> fits 0 (map decl_length (key_first cols)) \<and> sch = schema_of n cols)"
proof -
  have "\<exists>n cols. declares document n cols" if "parse_schema document = ret sch"
  proof -
    from that obtain v cs acc acc' n where d: "jmember document ''schema_info'' = ret v" "jmember v ''column_list'' = ret (JArray cs)"
      "get_member GetInt v ''table_index_number'' = ret n"
      and f: "fold_exec pk_pass cs (SchemaInfo_init, 0) = ret acc" "fold_exec rest_pass cs acc = ret acc'"
      by (auto simp: parse_schema_def get_member_def bind_eq_ret each_element_eq_ret Let_def)
    with all_read [OF f] show ?thesis by (auto simp: declares_def)
  qed
  then show ?thesis using parse_schema_declared by blast
qed

text \<open>A name is mapped to the first column that has it.\<close>

lemma insert_indexes_kept: "map_of imap x = Some i \<Longrightarrow> map_of (insert_indexes k names imap) x = Some i"
proof (induction k names imap rule: insert_indexes.induct)
  case (2 k name names imap)
  then show ?case by (cases "x = name") simp_all
qed simp

lemma insert_indexes_first:
  assumes "map_of imap x = None" and "j < length names" and "names ! j = x" and "\<forall>i < j. names ! i \<noteq> x"
  shows "map_of (insert_indexes k names imap) x = Some (k + int j)"
  using assms
proof (induction names arbitrary: k imap j)
  case Nil
  then show ?case by simp
next
  case (Cons name names)
  show ?case
  proof (cases j)
    case 0
    then show ?thesis using Cons.prems by (simp add: insert_indexes_kept)
  next
    case (Suc i)
    then have "name \<noteq> x" "\<forall>l < i. names ! l \<noteq> x" using Cons.prems(4) by (auto dest: spec [of _ "Suc _"])
    then show ?thesis using Cons.IH [of _ i "k + 1"] Cons.prems Suc by simp
  qed
qed

section \<open>Well-formed snippets\<close>

definition operand_ok :: "Operand \<Rightarrow> bool" where
  "operand_ok opd \<longleftrightarrow> length (types opd) = length (values opd)"

definition condition_ok :: "Filtering \<Rightarrow> bool" where
  "condition_ok f \<longleftrightarrow> operand_ok (lv f) \<and> operand_ok (rv f) \<and>
     (oper f = OP_AND \<or> oper f = OP_OR \<longrightarrow> lv f = Operand_init \<and> rv f = Operand_init)"

definition query_ok :: "QueryInfo \<Rightarrow> bool" where
  "query_ok q \<longleftrightarrow> (\<forall>f \<in> set (filtering q). condition_ok f) \<and>
     (\<forall>p \<in> set (projection q). operand_ok (expression p)) \<and> seek_key q = []"

definition schema_ok :: "SchemaInfo \<Rightarrow> bool" where
  "schema_ok sch \<longleftrightarrow> schema_wf sch \<and>
     pk_column sch = take (length (pk_column sch)) (column_name sch) \<and>
     set (index_column sch) \<subseteq> set (column_name sch) \<and>
     (\<forall>j < length (column_name sch). (\<forall>i < j. column_name sch ! i \<noteq> column_name sch ! j) \<longrightarrow>
        column_index sch (column_name sch ! j) = int j) \<and>
     (has_var_char sch \<longleftrightarrow> MySQL_VARSTRING \<in> set (column_type sch)) \<and> int32_ok (table_index_number sch)"

definition block_ok :: "Block \<Rightarrow> bool" where
  "block_ok b \<longleftrightarrow> (\<forall>x \<in> set (blk_offset b) \<union> set (blk_length b). 0 \<le> x \<and> x < 2 ^ 64)"

definition result_ok :: "ResultInfo \<Rightarrow> bool" where
  "result_ok r \<longleftrightarrow> length (return_column_type r) = length (column_alias r) \<and>
     length (return_column_length r) = length (column_alias r) \<and>
     (\<forall>n \<in> set (return_column_type r) \<union> set (return_column_length r). int32_ok n) \<and>
     int32_ok (total_block_count r) \<and> int32_ok (csd_block_count r)"

definition snippet_ok :: "Snippet \<Rightarrow> bool" where
  "snippet_ok s \<longleftrightarrow> int32_ok (query_id s) \<and> int32_ok (work_id s) \<and> snippet_type s \<noteq> TMAX_SNIPPET \<and>
     query_ok (query_info s) \<and> schema_ok (schema_info s) \<and>
     (\<forall>b \<in> set (block_list (block_info s)). block_ok b) \<and>
     (sst_list (block_info s) \<noteq> [] \<longrightarrow> snippet_type s = SST_FILE_SCAN \<and> block_list (block_info s) = []) \<and>
     length (inserted_value (wal_info s)) = length (inserted_key (wal_info s)) \<and> result_ok (result_info s)"

lemma schema_of_ok:
  assumes "int32_ok n"
  shows "schema_ok (schema_of n cols)"
proof -
  have "decl_name ` {c \<in> set cols. is_indexed c} \<subseteq> decl_name ` set (key_first cols)"
    by (auto simp: key_first_def)
  moreover have "list_ex (\<lambda>c. decl_mysql_type c = MySQL_VARSTRING) cols \<longleftrightarrow> MySQL_VARSTRING \<in> decl_mysql_type ` set (key_first cols)"
    unfolding list_ex_iff key_first_def image_iff by (auto dest: sym)
  moreover have "schema_wf (schema_of n cols)" by (simp add: schema_wf_def schema_of_def)
  moreover have "pk_column (schema_of n cols) = take (length (pk_column (schema_of n cols))) (column_name (schema_of n cols))"
    by (simp add: schema_of_def key_first_def)
  ultimately show ?thesis
    using assms
    by (simp add: schema_ok_def) (simp add: schema_of_def column_index_def insert_indexes_first)
qed

lemma parse_operand_ok:
  assumes "parse_operand v = ret opd"
  shows "operand_ok opd"
proof -
  from assms obtain n where "fold_exec (\<lambda>j opd.
       bind_exec (get_member (\<lambda>ts. get_element GetInt ts j) v ''type'') (\<lambda>t.
       bind_exec (get_member (\<lambda>vs. get_element GetString vs j) v ''value'') (\<lambda>s.
         ret (opd\<lparr>types := types opd @ [value_type_of_int t], values := values opd @ [s]\<rparr>))))
       [0..<n] Operand_init = ret opd" by (auto simp: parse_operand_def bind_eq_ret)
  then show ?thesis
    by (rule fold_exec_keeps) (auto simp: operand_ok_def Operand_init_def bind_eq_ret)
qed

lemma operand_init_ok: "operand_ok Operand_init"
  by (simp add: operand_ok_def Operand_init_def)

lemma parse_condition_ok: "parse_filter v = ret f \<Longrightarrow> condition_ok f"
  by (auto simp: parse_filter_def condition_ok_def Let_def bind_eq_ret parse_operand_ok
      operand_init_ok split: if_splits)

lemma parse_projection_ok:
  assumes "parse_projection v = ret p"
  shows "operand_ok (expression p)"
proof -
  from assms obtain vals tys k where "fold_exec (\<lambda>j opd.
         bind_exec (get_element GetString vals j) (\<lambda>s.
         bind_exec (get_element GetInt tys j) (\<lambda>t.
           ret (opd\<lparr>types := types opd @ [value_type_of_int t], values := values opd @ [s]\<rparr>))))
       [0..<k] Operand_init = ret (expression p)" by (auto simp: parse_projection_def bind_eq_ret)
  then show ?thesis
    by (rule fold_exec_keeps) (auto simp: operand_ok_def Operand_init_def bind_eq_ret)
qed

lemma collected:
  assumes "get_member (collect_elements f) v key = ret xs" and "\<And>w x. f w = ret x \<Longrightarrow> P x"
  shows "\<forall>x \<in> set xs. P x"
proof -
  from assms(1) obtain w where "collect_elements f w = ret xs" by (auto simp: get_member_def bind_eq_ret)
  from collect_elements_eq_ret [OF this] show ?thesis
    using assms(2) by (auto simp: list_all2_conv_all_nth set_conv_nth)
qed

lemma parse_query_ok:
  assumes "parse_query_info v = ret q"
  shows "query_ok q"
proof -
  from assms have "get_member (collect_elements parse_filter) v ''filtering'' = ret (filtering q)"
    "get_member (collect_elements parse_projection) v ''projection'' = ret (projection q)" "seek_key q = []"
    by (auto simp: parse_query_info_def bind_eq_ret)
  then show ?thesis
    using collected [of parse_filter v _ "filtering q" condition_ok] parse_condition_ok
      collected [of parse_projection v _ "projection q" "\<lambda>p. operand_ok (expression p)"] parse_projection_ok
    by (simp add: query_ok_def)
qed

lemma parse_block_ok:
  assumes "parse_block v = ret b"
  shows "block_ok b"
proof -
  from assms have offs: "get_member (collect_elements (\<lambda>w. bind_exec (GetString w) stoull)) v ''offset'' = ret (blk_offset b)"
    and lens: "get_member (collect_elements (\<lambda>w. bind_exec (GetInt w) (\<lambda>n. ret (n mod 2 ^ 64)))) v ''length'' = ret (blk_length b)"
    by (auto simp: parse_block_def bind_eq_ret)
  have "\<forall>x \<in> set (blk_offset b). 0 \<le> x \<and> x < 2 ^ 64"
    using offs by (rule collected) (auto simp: bind_eq_ret stoull_def split: option.splits if_splits)
  moreover have "\<forall>x \<in> set (blk_length b). 0 \<le> x \<and> x < 2 ^ 64"
    using lens by (rule collected) (auto simp: bind_eq_ret)
  ultimately show ?thesis by (auto simp: block_ok_def)
qed

lemma parse_block_info_ok:
  assumes "parse_block_info v ty = ret (bi, ty')"
  shows "(\<forall>b \<in> set (block_list bi). block_ok b) \<and> (sst_list bi \<noteq> [] \<longrightarrow> ty' = SST_FILE_SCAN \<and> block_list bi = []) \<and>
    (ty' = ty \<or> ty' = SST_FILE_SCAN)"
  using assms collected [of parse_block v "''block''" _ block_ok, OF _ parse_block_ok]
  by (auto simp: parse_block_info_def bind_eq_ret split: if_splits)

lemma parse_wal_ok: "parse_wal document = ret w \<Longrightarrow> length (inserted_value w) = length (inserted_key w)"
  by (auto simp: parse_wal_def get_member_def parse_wal_info_def WalInfo_init_def bind_eq_ret split: if_splits)

lemma parse_result_ok:
  assumes "parse_result_info v = ret r"
  shows "result_ok r"
proof -
  from assms obtain n cols where cols: "collect n (\<lambda>i.
         bind_exec (get_member (\<lambda>w. get_element GetString w i) v ''column_alias'') (\<lambda>a.
         bind_exec (get_member (\<lambda>w. get_element GetInt w i) v ''return_column_type'') (\<lambda>t.
         bind_exec (get_member (\<lambda>w. get_element GetInt w i) v ''return_column_length'') (\<lambda>l.
           ret (a, t, l))))) = ret cols"
    and r: "column_alias r = map fst cols" "return_column_type r = map (fst \<circ> snd) cols"
      "return_column_length r = map (snd \<circ> snd) cols" "int32_ok (total_block_count r)" "int32_ok (csd_block_count r)"
    by (auto simp: parse_result_info_def bind_eq_ret get_member_def getter_eq_ret)
  have "\<forall>c \<in> set cols. int32_ok (fst (snd c)) \<and> int32_ok (snd (snd c))"
  proof
    fix c assume "c \<in> set cols"
    then obtain i where i: "i < length cols" "cols ! i = c" by (auto simp: set_conv_nth)
    from collect_eq_ret [OF cols] have "length cols = n" by blast
    with collect_eq_ret [OF cols, THEN conjunct2, rule_format, of i] i
    show "int32_ok (fst (snd c)) \<and> int32_ok (snd (snd c))"
      by (cases c) (auto simp: get_member_def get_element_def bind_eq_ret getter_eq_ret)
  qed
  with r show ?thesis by (auto simp: result_ok_def)
qed

lemma parse_scan_snippet_ok:
  assumes "parse_scan_snippet document = ret s" and "get_member GetInt document ''type'' = ret ty"
    and "snippet_type_of_int ty \<noteq> TMAX_SNIPPET"
  shows "snippet_ok s"
proof -
  from assms(1,2) have p: "get_member GetInt document ''query_id'' = ret (query_id s)" "get_member GetInt document ''work_id'' = ret (work_id s)"
      "get_member parse_query_info document ''query_info'' = ret (query_info s)"
      "parse_schema document = ret (schema_info s)"
      "get_member (\<lambda>v. parse_block_info v (snippet_type_of_int ty)) document ''block_info'' = ret (block_info s, snippet_type s)"
      "parse_wal document = ret (wal_info s)" "get_member parse_result_info document ''result_info'' = ret (result_info s)"
    by (auto simp: parse_scan_snippet_def bind_eq_ret)
  have "query_ok (query_info s)" "result_ok (result_info s)" "int32_ok (query_id s)" "int32_ok (work_id s)"
    using p(1,2,3,7) by (auto simp: get_member_def bind_eq_ret getter_eq_ret parse_query_ok parse_result_ok)
  moreover have "schema_ok (schema_info s)"
    using p(4) by (auto simp: parse_schema_eq_ret declares_def get_member_def bind_eq_ret getter_eq_ret schema_of_ok)
  moreover obtain v where bi: "parse_block_info v (snippet_type_of_int ty) = ret (block_info s, snippet_type s)"
    using p(5) by (auto simp: get_member_def bind_eq_ret)
  ultimately show ?thesis
    using parse_block_info_ok [OF bi] parse_wal_ok [OF p(6)] assms(3) by (auto simp: snippet_ok_def)
qed

text \<open>
  C12: every snippet that a document is parsed into without a fault, and that goes to the scan layer, is well formed: the columns
  of the primary key come first, offsets are the sums of the lengths before them, each name is
  mapped to its first column, operands carry as many types as values, connectives none, block
  numbers are unsigned 64-bit values, and a list of files goes with a file scan only.
\<close>

theorem parsed_snippet_well_formed:
  assumes "parse_snippet Parse json_text inp = ret inp'"
  shows "(\<exists>t. inp' = inp\<lparr>tmax_worker := enqueue_worker t (tmax_worker inp)\<rparr>) \<or>
    (\<exists>s. inp' = inp\<lparr>scan_layer := enqueue_scan s (scan_layer inp)\<rparr> \<and> snippet_ok s)"
proof -
  from assms obtain ty where ty: "get_member GetInt (Parse json_text) ''type'' = ret ty"
    by (auto simp: parse_snippet_def Let_def bind_eq_ret)
  show ?thesis
  proof (cases "snippet_type_of_int ty = TMAX_SNIPPET")
    case True
    then show ?thesis using assms ty by (auto simp: parse_snippet_def Let_def bind_eq_ret)
  next
    case False
    with assms ty obtain s where "parse_scan_snippet (Parse json_text) = ret s"
      "inp' = inp\<lparr>scan_layer := enqueue_scan s (scan_layer inp)\<rparr>"
      by (auto simp: parse_snippet_def Let_def bind_eq_ret)
    with parse_scan_snippet_ok [OF _ ty False] show ?thesis by blast
  qed
qed

section \<open>Documents\<close>

text \<open>The numbers of the enumerators, as the storage engine writes them.\<close>

fun value_type_to_int :: "KETI_VALUE_TYPE \<Rightarrow> int" where
  "value_type_to_int V_INT8 = 0"
| "value_type_to_int V_INT16 = 1"
| "value_type_to_int V_INT32 = 2"
| "value_type_to_int V_INT64 = 3"
| "value_type_to_int V_FLOAT32 = 4"
| "value_type_to_int V_DOUBLE = 5"
| "value_type_to_int V_DECIMAL = 6"
| "value_type_to_int V_DATE = 7"
| "value_type_to_int V_TIMESTAMP = 8"
| "value_type_to_int V_STRING = 9"
| "value_type_to_int V_COLUMN = 10"
| "value_type_to_int V_OPERATOR = 11"
| "value_type_to_int V_BOOLEAN = 12"
| "value_type_to_int (V_other n) = n"

fun oper_type_to_int :: "KETI_OPER_TYPE \<Rightarrow> int" where
  "oper_type_to_int OP_GE = 0"
| "oper_type_to_int OP_LE = 1"
| "oper_type_to_int OP_GT = 2"
| "oper_type_to_int OP_LT = 3"
| "oper_type_to_int OP_EQ = 4"
| "oper_type_to_int OP_NE = 5"
| "oper_type_to_int OP_LIKE = 6"
| "oper_type_to_int OP_NOTLIKE = 7"
| "oper_type_to_int OP_BETWEEN = 8"
| "oper_type_to_int OP_IN = 9"
| "oper_type_to_int OP_NOTIN = 10"
| "oper_type_to_int OP_IS = 11"
| "oper_type_to_int OP_ISNOT = 12"
| "oper_type_to_int OP_AND = 13"
| "oper_type_to_int OP_OR = 14"
| "oper_type_to_int (OP_other n) = n"

fun select_type_to_int :: "KETI_SELECT_TYPE \<Rightarrow> int" where
  "select_type_to_int COL_NAME = 0"
| "select_type_to_int SEL_SUM = 1"
| "select_type_to_int SEL_AVG = 2"
| "select_type_to_int SEL_COUNT = 3"
| "select_type_to_int SEL_COUNTSTAR = 4"
| "select_type_to_int SEL_COUNTDISTINCT = 5"
| "select_type_to_int SEL_TOP = 6"
| "select_type_to_int SEL_MIN = 7"
| "select_type_to_int SEL_MAX = 8"
| "select_type_to_int (SEL_other n) = n"

fun snippet_type_to_int :: "SNIPPET_TYPE \<Rightarrow> int" where
  "snippet_type_to_int FULL_SCAN = 0"
| "snippet_type_to_int INDEX_SCAN = 1"
| "snippet_type_to_int INDEX_TABLE_SCAN = 2"
| "snippet_type_to_int TMAX_SNIPPET = 15"
| "snippet_type_to_int SST_FILE_SCAN = 16"
| "snippet_type_to_int (SNIPPET_other n) = n"

text \<open>\<open>coded number meaning x\<close>: the number of \<open>x\<close> is an \<^verbatim>\<open>int\<close> that stands for \<open>x\<close>.\<close>

definition coded :: "('a \<Rightarrow> int) \<Rightarrow> (int \<Rightarrow> 'a) \<Rightarrow> 'a \<Rightarrow> bool" where
  "coded number meaning x \<longleftrightarrow> meaning (number x) = x \<and> int32_ok (number x)"

definition strings_document :: "string list \<Rightarrow> json" where
  "strings_document ss = JArray (map JString ss)"

definition ints_document :: "int list \<Rightarrow> json" where
  "ints_document ns = JArray (map JInt ns)"

definition operand_document :: "Operand \<Rightarrow> json" where
  "operand_document opd = JObject [(''type'', ints_document (map value_type_to_int (types opd))),
     (''value'', strings_document (values opd))]"

definition filter_document :: "Filtering \<Rightarrow> json" where
  "filter_document f = JObject [(''lv'', operand_document (lv f)), (''operator'', JInt (oper_type_to_int (oper f))),
     (''rv'', operand_document (rv f))]"

definition projection_document :: "Projectioning \<Rightarrow> json" where
  "projection_document p = JObject [(''select_type'', JInt (select_type_to_int (select_type p))),
     (''value'', strings_document (values (expression p))),
     (''value_type'', ints_document (map value_type_to_int (types (expression p))))]"

definition query_document :: "QueryInfo \<Rightarrow> json" where
  "query_document q = JObject [(''table_name'', strings_document [table_name q]),
     (''filtering'', JArray (map filter_document (filtering q))),
     (''projection'', JArray (map projection_document (projection q)))]"

definition column_document :: "column_decl \<Rightarrow> json" where
  "column_document c = JObject [(''name'', JString (decl_name c)), (''type'', JInt (decl_type c)),
     (''length'', JInt (decl_length c)), (''primary'', JBool (is_primary c)), (''index'', JBool (is_indexed c))]"

definition block_document :: "Block \<Rightarrow> json" where
  "block_document b = JObject [(''offset'', strings_document (map to_string (blk_offset b))),
     (''length'', ints_document (blk_length b))]"

definition block_info_document :: "SNIPPET_TYPE \<Rightarrow> BlockInfo \<Rightarrow> json" where
  "block_info_document ty b = JObject [(''partition'', JString (partition_name b)),
     if ty = SST_FILE_SCAN then (''sst_list'', strings_document (sst_list b))
     else (''block'', JArray (map block_document (block_list b)))]"

definition wal_document :: "WalInfo \<Rightarrow> json" where
  "wal_document w = JObject [(''deleted_key'', strings_document (deleted_key w)),
     (''inserted_key'', strings_document (inserted_key w)), (''inserted_value'', strings_document (inserted_value w))]"

definition result_document :: "ResultInfo \<Rightarrow> json" where
  "result_document r = JObject [(''table_alias'', JString (table_alias r)),
     (''column_alias'', strings_document (column_alias r)),
     (''return_column_type'', ints_document (return_column_type r)),
     (''return_column_length'', ints_document (return_column_length r)),
     (''total_block_count'', JInt (total_block_count r)), (''csd_block_count'', JInt (csd_block_count r))]"

definition snippet_document :: "column_decl list \<Rightarrow> Snippet \<Rightarrow> json" where
  "snippet_document cols s = JObject
     [(''type'', JInt (snippet_type_to_int (snippet_type s))), (''query_id'', JInt (query_id s)),
      (''work_id'', JInt (work_id s)), (''query_info'', query_document (query_info s)),
      (''schema_info'', JObject [(''table_index_number'', JInt (table_index_number (schema_info s))),
         (''column_list'', JArray (map column_document cols))]),
      (''block_info'', block_info_document (snippet_type s) (block_info s)),
      (''wal_info'', wal_document (wal_info s)), (''result_info'', result_document (result_info s))]"

text \<open>What a snippet must be so that a document can carry it: no zero characters, numbers in range.\<close>

definition operand_carried :: "Operand \<Rightarrow> bool" where
  "operand_carried opd \<longleftrightarrow> operand_ok opd \<and> list_all (coded value_type_to_int value_type_of_int) (types opd) \<and>
     list_all c_string_ok (values opd)"

definition filter_carried :: "Filtering \<Rightarrow> bool" where
  "filter_carried f \<longleftrightarrow> condition_ok f \<and> coded oper_type_to_int oper_type_of_int (oper f) \<and>
     operand_carried (lv f) \<and> operand_carried (rv f)"

definition projection_carried :: "Projectioning \<Rightarrow> bool" where
  "projection_carried p \<longleftrightarrow> coded select_type_to_int select_type_of_int (select_type p) \<and>
     operand_carried (expression p)"

definition query_carried :: "QueryInfo \<Rightarrow> bool" where
  "query_carried q \<longleftrightarrow> c_string_ok (table_name q) \<and> list_all filter_carried (filtering q) \<and>
     list_all projection_carried (projection q) \<and> seek_key q = []"

definition column_carried :: "column_decl \<Rightarrow> bool" where
  "column_carried c \<longleftrightarrow> c_string_ok (decl_name c) \<and> int32_ok (decl_length c) \<and> int32_ok (decl_type c)"

definition block_carried :: "Block \<Rightarrow> bool" where
  "block_carried b \<longleftrightarrow> list_all (\<lambda>z. 0 \<le> z \<and> z < 2 ^ 64) (blk_offset b) \<and>
     list_all (\<lambda>z. 0 \<le> z \<and> z < 2 ^ 31) (blk_length b)"

definition block_info_carried :: "SNIPPET_TYPE \<Rightarrow> BlockInfo \<Rightarrow> bool" where
  "block_info_carried ty b \<longleftrightarrow> c_string_ok (partition_name b) \<and>
     (if ty = SST_FILE_SCAN then list_all c_string_ok (sst_list b) \<and> block_list b = []
      else list_all block_carried (block_list b) \<and> sst_list b = [])"

definition wal_carried :: "WalInfo \<Rightarrow> bool" where
  "wal_carried w \<longleftrightarrow> list_all c_string_ok (deleted_key w) \<and> list_all c_string_ok (inserted_key w) \<and>
     list_all c_string_ok (inserted_value w) \<and> length (inserted_value w) = length (inserted_key w)"

definition result_carried :: "ResultInfo \<Rightarrow> bool" where
  "result_carried r \<longleftrightarrow> result_ok r \<and> c_string_ok (table_alias r) \<and> list_all c_string_ok (column_alias r)"

definition snippet_carried :: "column_decl list \<Rightarrow> Snippet \<Rightarrow> bool" where
  "snippet_carried cols s \<longleftrightarrow> coded snippet_type_to_int snippet_type_of_int (snippet_type s) \<and>
     snippet_type s \<noteq> TMAX_SNIPPET \<and> int32_ok (query_id s) \<and> int32_ok (work_id s) \<and> query_carried (query_info s) \<and>
     list_all column_carried cols \<and> fits 0 (map decl_length (key_first cols)) \<and>
     int32_ok (table_index_number (schema_info s)) \<and>
     schema_info s = schema_of (table_index_number (schema_info s)) cols \<and>
     block_info_carried (snippet_type s) (block_info s) \<and> wal_carried (wal_info s) \<and> result_carried (result_info s)"

lemma get_strings: "list_all c_string_ok ss \<Longrightarrow> i < length ss \<Longrightarrow> get_element GetString (strings_document ss) i = ret (ss ! i)"
  by (simp add: strings_document_def list_all_length)

lemma get_ints: "list_all int32_ok ns \<Longrightarrow> i < length ns \<Longrightarrow> get_element GetInt (ints_document ns) i = ret (ns ! i)"
  by (simp add: ints_document_def list_all_length)

lemma collect_strings: "list_all c_string_ok ss \<Longrightarrow> collect_elements GetString (strings_document ss) = ret ss"
proof -
  assume "list_all c_string_ok ss"
  then have "collect_elements GetString (JArray (map JString ss)) = ret (map (\<lambda>v. case v of JString s \<Rightarrow> s) (map JString ss))"
    by (intro collect_elements_ret) (auto simp: list_all_iff)
  then show ?thesis by (simp add: strings_document_def comp_def)
qed

lemma push_operands:
  assumes "\<And>j opd. j < n \<Longrightarrow> B j opd = ret (opd\<lparr>types := types opd @ [ts ! j], values := values opd @ [vs ! j]\<rparr>)"
    and "n \<le> length ts" and "n \<le> length vs"
  shows "fold_exec B [0..<n] Operand_init = ret \<lparr>types = take n ts, values = take n vs\<rparr>"
  using assms
proof (induction n)
  case 0
  then show ?case by (simp add: Operand_init_def)
next
  case (Suc n)
  then show ?case by (simp add: fold_exec_append take_Suc_conv_app_nth cong: bind_exec_cong)
qed

lemma operand_roundtrip:
  assumes "operand_carried opd"
  shows "parse_operand (operand_document opd) = ret opd"
proof -
  let ?ns = "map value_type_to_int (types opd)" and ?n = "length (types opd)"
  have ok: "list_all int32_ok ?ns" "list_all c_string_ok (values opd)" "length (values opd) = ?n"
    "\<And>j. j < ?n \<Longrightarrow> value_type_of_int (value_type_to_int (types opd ! j)) = types opd ! j"
    using assms by (auto simp: operand_carried_def operand_ok_def coded_def list_all_length)
  have "fold_exec (\<lambda>j opd'. bind_exec (get_element GetInt (ints_document ?ns) j) (\<lambda>t.
      bind_exec (get_element GetString (strings_document (values opd)) j) (\<lambda>s.
        ret (opd'\<lparr>types := types opd' @ [value_type_of_int t], values := values opd' @ [s]\<rparr>)))) [0..<?n] Operand_init =
    ret \<lparr>types = take ?n (types opd), values = take ?n (values opd)\<rparr>"
    by (rule push_operands) (simp_all add: get_ints [OF ok(1)] get_strings [OF ok(2)] ok(3,4))
  then show ?thesis
    by (simp add: parse_operand_def operand_document_def ok(3)) (simp add: ints_document_def)
qed

lemma filter_roundtrip:
  assumes "filter_carried f"
  shows "parse_filter (filter_document f) = ret f"
proof -
  have ok: "oper_type_of_int (oper_type_to_int (oper f)) = oper f" "int32_ok (oper_type_to_int (oper f))"
    "operand_carried (lv f)" "operand_carried (rv f)" "condition_ok f"
    using assms by (simp_all add: filter_carried_def coded_def)
  show ?thesis
  proof (cases "oper f = OP_AND \<or> oper f = OP_OR")
    case True
    then have "lv f = Operand_init" "rv f = Operand_init" using ok(5) by (auto simp: condition_ok_def)
    then show ?thesis using True ok(1,2) by (cases f) (auto simp: parse_filter_def filter_document_def Let_def)
  next
    case False
    then show ?thesis using ok(1-4)
      by (simp add: parse_filter_def filter_document_def Let_def operand_roundtrip)
  qed
qed

lemma projection_roundtrip:
  assumes "projection_carried p"
  shows "parse_projection (projection_document p) = ret p"
proof -
  let ?e = "expression p"
  let ?ns = "map value_type_to_int (types ?e)" and ?n = "length (values ?e)"
  have ok: "list_all int32_ok ?ns" "list_all c_string_ok (values ?e)" "length (types ?e) = ?n"
    "\<And>j. j < ?n \<Longrightarrow> value_type_of_int (value_type_to_int (types ?e ! j)) = types ?e ! j"
    and sel: "select_type_of_int (select_type_to_int (select_type p)) = select_type p"
      "int32_ok (select_type_to_int (select_type p))"
    using assms by (auto simp: projection_carried_def operand_carried_def operand_ok_def coded_def list_all_length)
  have "fold_exec (\<lambda>j opd'. bind_exec (get_element GetString (strings_document (values ?e)) j) (\<lambda>s.
      bind_exec (get_element GetInt (ints_document ?ns) j) (\<lambda>t.
        ret (opd'\<lparr>types := types opd' @ [value_type_of_int t], values := values opd' @ [s]\<rparr>)))) [0..<?n] Operand_init =
    ret \<lparr>types = take ?n (types ?e), values = take ?n (values ?e)\<rparr>"
    by (rule push_operands) (simp_all add: get_ints [OF ok(1)] get_strings [OF ok(2)] ok(3,4))
  moreover have "jsize (strings_document (values ?e)) = ret ?n" by (simp add: strings_document_def)
  ultimately show ?thesis
    by (simp add: parse_projection_def projection_document_def ok(3) sel)
qed

lemma collect_documents:
  assumes "list_all P xs" and "\<And>x. P x \<Longrightarrow> f (doc x) = ret x"
  shows "collect_elements f (JArray (map doc xs)) = ret xs"
proof -
  have "collect (length xs) (get_element f (JArray (map doc xs))) = ret (map (\<lambda>i. xs ! i) [0..<length xs])"
    by (rule collect_ret) (use assms in \<open>simp add: list_all_length\<close>)
  then show ?thesis by (simp add: collect_elements_def map_nth)
qed

lemma query_roundtrip:
  assumes "query_carried q"
  shows "parse_query_info (query_document q) = ret q"
proof -
  have "collect_elements parse_filter (JArray (map filter_document (filtering q))) = ret (filtering q)"
    "collect_elements parse_projection (JArray (map projection_document (projection q))) = ret (projection q)"
    using assms collect_documents [of filter_carried _ parse_filter filter_document, OF _ filter_roundtrip]
      collect_documents [of projection_carried _ parse_projection projection_document, OF _ projection_roundtrip]
    by (simp_all add: query_carried_def)
  then show ?thesis
    using assms by (simp add: query_carried_def parse_query_info_def query_document_def get_strings)
qed

lemma column_document_reads: "column_carried c \<Longrightarrow> reads_as (column_document c) c"
  by (simp add: column_carried_def reads_as_def column_document_def)

lemma c_string_ok_to_string: "c_string_ok (to_string z)"
proof -
  have "CHR 0x00 \<notin> set (dec_str n)" for n
    using dec_str_digits [of "CHR 0x00" n] by (auto simp: is_digit_def ord_def)
  then show ?thesis by (simp add: c_string_ok_def to_string_def)
qed

lemma nth_upt: "n = length xs \<Longrightarrow> map (\<lambda>i. xs ! i) [0..<n] = xs"
  by (simp add: map_nth)

lemma block_roundtrip:
  assumes "block_carried b"
  shows "parse_block (block_document b) = ret b"
proof -
  have "collect_elements (\<lambda>w. bind_exec (GetString w) stoull) (JArray (map (\<lambda>z. JString (to_string z)) (blk_offset b))) = ret (blk_offset b)"
    using assms by (intro collect_documents [of "\<lambda>z. 0 \<le> z \<and> z < 2 ^ 64"])
      (simp_all add: block_carried_def stoull_def strto_int_to_string c_string_ok_to_string)
  moreover have "collect_elements (\<lambda>w. bind_exec (GetInt w) (\<lambda>n. ret (n mod 2 ^ 64))) (JArray (map JInt (blk_length b))) = ret (blk_length b)"
    using assms by (intro collect_documents [of "\<lambda>z. 0 \<le> z \<and> z < 2 ^ 31"])
      (simp_all add: block_carried_def int32_ok_def)
  ultimately show ?thesis
    by (simp add: parse_block_def block_document_def strings_document_def ints_document_def comp_def)
qed

lemma block_info_roundtrip:
  assumes "block_info_carried ty b"
  shows "parse_block_info (block_info_document ty b) ty = ret (b, ty)"
  using assms collect_documents [of block_carried "block_list b" parse_block block_document, OF _ block_roundtrip]
  by (auto simp: block_info_carried_def parse_block_info_def block_info_document_def collect_strings split: if_splits)

lemma wal_roundtrip:
  assumes "wal_carried w"
  shows "parse_wal_info (wal_document w) = ret w"
proof -
  have ok: "list_all c_string_ok (deleted_key w)" "list_all c_string_ok (inserted_key w)" "list_all c_string_ok (inserted_value w)"
    "length (inserted_value w) = length (inserted_key w)"
    using assms by (simp_all add: wal_carried_def)
  have "collect (length (inserted_key w)) (\<lambda>i. bind_exec (get_element GetString (strings_document (inserted_key w)) i) (\<lambda>k.
      bind_exec (get_element GetString (strings_document (inserted_value w)) i) (\<lambda>x. ret (k, x)))) =
    ret (map (\<lambda>i. (inserted_key w ! i, inserted_value w ! i)) [0..<length (inserted_key w)])"
    by (rule collect_ret) (simp add: get_strings ok)
  then show ?thesis
    using nth_upt [of "length (inserted_key w)" "inserted_value w"] ok(4)
    by (simp add: parse_wal_info_def wal_document_def collect_strings ok(1))
      (simp add: strings_document_def comp_def map_nth)
qed

lemma result_roundtrip:
  assumes "result_carried r"
  shows "parse_result_info (result_document r) = ret r"
proof -
  have ok: "list_all c_string_ok (column_alias r)" "list_all int32_ok (return_column_type r)"
    "list_all int32_ok (return_column_length r)" "length (return_column_type r) = length (column_alias r)"
    "length (return_column_length r) = length (column_alias r)" "c_string_ok (table_alias r)"
    "int32_ok (total_block_count r)" "int32_ok (csd_block_count r)"
    using assms by (simp_all add: result_carried_def result_ok_def list_all_iff)
  have "collect (length (column_alias r)) (\<lambda>i.
      bind_exec (get_element GetString (strings_document (column_alias r)) i) (\<lambda>a.
      bind_exec (get_element GetInt (ints_document (return_column_type r)) i) (\<lambda>t.
      bind_exec (get_element GetInt (ints_document (return_column_length r)) i) (\<lambda>l. ret (a, t, l))))) =
    ret (map (\<lambda>i. (column_alias r ! i, return_column_type r ! i, return_column_length r ! i)) [0..<length (column_alias r)])"
    by (rule collect_ret) (simp add: get_strings get_ints ok)
  then show ?thesis
    using nth_upt [of "length (column_alias r)" "return_column_type r"] nth_upt [of "length (column_alias r)" "return_column_length r"]
      nth_upt [of "length (column_alias r)" "column_alias r"] ok(4-8)
    by (simp add: parse_result_info_def result_document_def) (simp add: strings_document_def comp_def)
qed

lemma schema_roundtrip:
  assumes "snippet_carried cols s"
  shows "parse_schema (snippet_document cols s) = ret (schema_info s)"
proof -
  have "list_all2 reads_as (map column_document cols) cols"
    using assms by (auto simp: snippet_carried_def list_all2_conv_all_nth list_all_length column_document_reads)
  then have "declares (snippet_document cols s) (table_index_number (schema_info s)) cols"
    using assms by (simp add: declares_def snippet_document_def snippet_carried_def)
  then show ?thesis
    using assms by (simp add: parse_schema_declared snippet_carried_def)
qed

lemma snippet_document_parsed:
  assumes "snippet_carried cols s" and "Parse json_text = snippet_document cols s"
  shows "parse_snippet Parse json_text inp = ret (inp\<lparr>scan_layer := enqueue_scan s (scan_layer inp)\<rparr>)"
proof -
  have ty: "snippet_type_of_int (snippet_type_to_int (snippet_type s)) = snippet_type s"
    "int32_ok (snippet_type_to_int (snippet_type s))" "snippet_type s \<noteq> TMAX_SNIPPET"
    "int32_ok (query_id s)" "int32_ok (work_id s)"
    using assms(1) by (simp_all add: snippet_carried_def coded_def)
  have "parse_query_info (query_document (query_info s)) = ret (query_info s)"
    "parse_block_info (block_info_document (snippet_type s) (block_info s)) (snippet_type s) = ret (block_info s, snippet_type s)"
    "parse_wal_info (wal_document (wal_info s)) = ret (wal_info s)"
    "parse_result_info (result_document (result_info s)) = ret (result_info s)"
    using assms(1) by (simp_all add: snippet_carried_def query_roundtrip block_info_roundtrip wal_roundtrip result_roundtrip)
  then have "parse_scan_snippet (snippet_document cols s) = ret s"
    by (simp add: parse_scan_snippet_def schema_roundtrip [OF assms(1)] parse_wal_def)
      (simp add: snippet_document_def ty)
  then show ?thesis
    by (simp add: parse_snippet_def assms(2)) (simp add: snippet_document_def ty)
qed

text \<open>
  C13: the snippet a document is written for is the snippet that reaches the scan layer: query, columns
  in the order of the worker, blocks or files, log entries and the description of the result.
\<close>

theorem snippet_document_roundtrip:
  assumes "snippet_carried cols s" and "Parse json_text = snippet_document cols s"
  shows "parse_snippet Parse json_text inp = ret (inp\<lparr>scan_layer := enqueue_scan s (scan_layer inp)\<rparr>)"
  using assms by (rule snippet_document_parsed)

section \<open>Requests\<close>

lemma text_of_c_string:
  assumes "0 \<notin> set bs"
  shows "c_string (text_of bs) = text_of bs"
proof -
  have "b = 0" if "chr b = CHR 0x00" for b
    using arg_cong [OF that, of ord] unfolding ord_chr by (simp add: ord_def)
  then have "CHR 0x00 \<notin> set (text_of bs)" using assms by (auto simp: text_of_def dest: sym)
  then show ?thesis by (simp add: c_string_ok_def)
qed

lemma text_of_append: "text_of (a @ b) = text_of a @ text_of b"
  by (simp add: text_of_def)

lemma read_document_pieces:
  assumes "\<forall>p \<in> set pieces. p \<noteq> []" and "pieces \<noteq> []" and "int (length (concat pieces)) < 2 ^ 64"
    and "0 \<notin> set (concat pieces)"
  shows "read_document (int (length (concat pieces))) (map ReadBytes pieces @ calls) json_text =
    Some (Received (json_text @ text_of (concat pieces), calls))"
  using assms
proof (induction pieces arbitrary: json_text)
  case Nil
  then show ?case by simp
next
  case (Cons p pieces)
  have p: "c_string (text_of p) = text_of p" using Cons.prems(4) by (intro text_of_c_string) simp
  let ?rest = "int (length (concat pieces))"
  have len: "(int (length (concat (p # pieces))) - int (length p)) mod 2 ^ 64 = ?rest"
    using Cons.prems(3) by (simp del: length_concat)
  show ?case
  proof (cases "pieces = []")
    case True
    then show ?thesis using p by simp
  next
    case False
    then have "concat pieces \<noteq> []" using Cons.prems(1) by (cases pieces) auto
    then have "?rest \<noteq> 0" by (simp del: length_concat concat_eq_Nil_conv)
    moreover have "read_document ?rest (map ReadBytes pieces @ calls) (json_text @ text_of p) =
      Some (Received ((json_text @ text_of p) @ text_of (concat pieces), calls))"
      using Cons.prems False by (intro Cons.IH) (simp_all del: length_concat)
    ultimately show ?thesis
      using len by (simp add: Let_def p text_of_append del: length_concat concat_eq_Nil_conv)
  qed
qed

text \<open>
  C31: a request whose 8-byte length arrives in one read and whose document has no zero byte is read
  whole however the network cuts the document: what is parsed is the concatenation of all pieces
  that follow the length.
\<close>

theorem request_read_whole:
  assumes "\<forall>p \<in> set pieces. p \<noteq> []" and "pieces \<noteq> []" and "int (length (concat pieces)) < 2 ^ 64"
    and "0 \<notin> set (concat pieces)"
  shows "input_request Parse (ReadBytes (le_bytes 8 (int (length (concat pieces)))) # map ReadBytes pieces) inp =
    Some (Received (parse_snippet Parse (text_of (concat pieces)) inp))"
  using read_document_pieces [OF assms, of "[]" "[]"] assms(3,4)
  by (simp add: le_uint_le_bytes text_of_c_string del: length_concat)

lemma read_document_short:
  assumes "int (length (concat ps)) < len" and "len < 2 ^ 64"
  shows "read_document len (map ReadBytes ps) json_text = None"
  using assms
proof (induction ps arbitrary: len json_text)
  case Nil
  then show ?case by simp
next
  case (Cons p ps)
  have "(len - int (length p)) mod 2 ^ 64 = len - int (length p)" "0 < len - int (length p)"
    using Cons.prems by (simp_all del: length_concat)
  then show ?case
    using Cons.IH [of "len - int (length p)"] Cons.prems by (simp add: Let_def del: length_concat)
qed

text \<open>
  C37: a client that closes the connection before it has sent what it announced keeps the only
  input thread forever: \<^verbatim>\<open>read\<close> goes on returning 0, and no later connection is served.
\<close>

theorem truncated_request_blocks_worker:
  assumes "int (length (concat pieces)) < len" and "len < 2 ^ 64"
  shows "input_worker Parse ((ReadBytes (le_bytes 8 len) # map ReadBytes pieces @ replicate k (ReadBytes [])) # others) inp = None"
proof -
  have "map ReadBytes pieces @ replicate k (ReadBytes []) = map ReadBytes (pieces @ replicate k [])" by simp
  moreover have "concat (pieces @ replicate k []) = concat pieces" by simp
  moreover have "le_uint (le_bytes 8 len) = len" using assms by (simp add: le_uint_le_bytes)
  ultimately show ?thesis using read_document_short [of "pieces @ replicate k []" len "[]"] assms by simp
qed

section \<open>Concrete requests\<close>

definition demo_columns :: "column_decl list" where
  "demo_columns = [\<lparr>decl_name = ''v'', decl_length = 25, decl_type = 15, is_primary = False, is_indexed = True\<rparr>,
     \<lparr>decl_name = ''k'', decl_length = 4, decl_type = 3, is_primary = True, is_indexed = False\<rparr>]"

definition demo_request :: Snippet where
  "demo_request =
     \<lparr>snippet_type = FULL_SCAN, query_id = 3, work_id = 1,
      query_info = \<lparr>table_name = ''t'', filtering = [\<lparr>lv = \<lparr>types = [V_COLUMN], values = [''k'']\<rparr>, oper = OP_GT,
          rv = \<lparr>types = [V_INT32], values = [''5'']\<rparr>\<rparr>],
        projection = [\<lparr>select_type = COL_NAME, expression = \<lparr>types = [V_COLUMN], values = [''v'']\<rparr>\<rparr>], seek_key = []\<rparr>,
      schema_info = schema_of 7 demo_columns,
      block_info = \<lparr>partition_name = ''p'', sst_list = [], block_list = [\<lparr>blk_offset = [4096], blk_length = [10, 20]\<rparr>]\<rparr>,
      wal_info = \<lparr>deleted_key = [], inserted_key = [''a''], inserted_value = [''b'']\<rparr>,
      result_info = \<lparr>table_alias = ''r'', column_alias = [''v''], return_column_type = [15], return_column_length = [25],
        total_block_count = 2, csd_block_count = 2\<rparr>\<rparr>"

lemmas carried_defs = snippet_carried_def query_carried_def filter_carried_def projection_carried_def operand_carried_def
  column_carried_def block_info_carried_def block_carried_def wal_carried_def result_carried_def result_ok_def coded_def
  condition_ok_def operand_ok_def int32_ok_def c_string_ok_def

lemma demo_request_carried: "snippet_carried demo_columns demo_request"
  by (simp add: carried_defs demo_request_def demo_columns_def schema_of_def key_first_def value_type_of_int_def
      oper_type_of_int_def select_type_of_int_def snippet_type_of_int_def)

theorem snippet_document_roundtrip_witness:
  "parse_snippet (\<lambda>_. snippet_document demo_columns demo_request) ''x'' \<lparr>scan_layer = WorkQueue_init, tmax_worker = WorkQueue_init\<rparr> =
    ret \<lparr>scan_layer = enqueue_scan demo_request WorkQueue_init, tmax_worker = WorkQueue_init\<rparr> \<and>
   column_name (schema_info demo_request) = [''k'', ''v''] \<and> column_offset (schema_info demo_request) = [0, 4, 29]"
  using snippet_document_roundtrip [of demo_columns demo_request "\<lambda>_. snippet_document demo_columns demo_request" "''x''"
      "\<lparr>scan_layer = WorkQueue_init, tmax_worker = WorkQueue_init\<rparr>"] demo_request_carried
  by (simp add: demo_request_def demo_columns_def schema_of_def key_first_def)

definition idle_input :: Input where
  "idle_input = \<lparr>scan_layer = WorkQueue_init, tmax_worker = WorkQueue_init\<rparr>"

theorem parsed_snippet_well_formed_witness:
  "parse_snippet (\<lambda>_. snippet_document demo_columns demo_request) ''x'' idle_input =
     ret (idle_input\<lparr>scan_layer := enqueue_scan demo_request WorkQueue_init\<rparr>) \<and> snippet_ok demo_request"
proof -
  have p: "parse_snippet (\<lambda>_. snippet_document demo_columns demo_request) ''x'' idle_input =
     ret (idle_input\<lparr>scan_layer := enqueue_scan demo_request WorkQueue_init\<rparr>)"
    using snippet_document_parsed [OF demo_request_carried refl] by (simp add: idle_input_def)
  with parsed_snippet_well_formed [OF p] show ?thesis
    by (auto simp: idle_input_def enqueue_scan_def enqueue_worker_def push_work_def WorkQueue_init_def)
qed

theorem request_read_whole_witness:
  "input_request (\<lambda>_. snippet_document demo_columns demo_request)
      [ReadBytes [3, 0, 0, 0, 0, 0, 0, 0], ReadBytes [123], ReadBytes [32, 125]] idle_input =
    Some (Received (parse_snippet (\<lambda>_. snippet_document demo_columns demo_request) ''{ }'' idle_input))"
proof -
  have "le_bytes 8 (int (length (concat [[123], [32, 125 :: byte]]))) = [3, 0, 0, 0, 0, 0, 0, 0]"
    "text_of (concat [[123], [32, 125]]) = ''{ }''" by code_simp+
  then show ?thesis
    using request_read_whole [of "[[123], [32, 125]]" "\<lambda>_. snippet_document demo_columns demo_request" idle_input]
    by (simp del: le_bytes.simps)
qed

theorem truncated_request_blocks_worker_witness:
  "input_worker (\<lambda>_. snippet_document demo_columns demo_request)
      [ReadBytes [3, 0, 0, 0, 0, 0, 0, 0] # [ReadBytes [123]] @ replicate 5 (ReadBytes []),
       [ReadBytes [1, 0, 0, 0, 0, 0, 0, 0], ReadBytes [123]]] idle_input = None"
proof -
  have "le_bytes 8 3 = [3, 0, 0, 0, 0, 0, 0, 0]" by code_simp
  then show ?thesis
    using truncated_request_blocks_worker [of "[[123]]" 3 "\<lambda>_. snippet_document demo_columns demo_request" 5
        "[[ReadBytes [1, 0, 0, 0, 0, 0, 0, 0], ReadBytes [123]]]" idle_input]
    by (simp del: le_bytes.simps input_worker.simps)
qed

end
