(* ===== verification/Metric_Collector.thy ===== *)
theory Metric_Collector
  imports Softfloat Json
begin

text \<open>
  The metric collector, \<^verbatim>\<open>CSD-Metric-Collector/csd-metric-collector.cc\<close>: every five seconds it
  reads processor, memory, network and disk usage of the device, asks the worker for its block
  count, computes the score by which the host ranks its devices, and sends a report. What the
  files, pipes and peers deliver is an argument; \<^verbatim>\<open>float\<close> and \<^verbatim>\<open>double\<close> are the formats of
  \<open>Softfloat\<close>, with the conversions the code has.
\<close>

section \<open>State\<close>

record stJiffies =
  j_user :: int
  j_nice :: int
  j_system :: int
  j_idle :: int

record Cpu =
  jiffies :: stJiffies
  cpu_total :: fp
  cpu_used :: fp
  cpu_utilization :: fp

record Memory =
  mem_free :: int
  mem_buffers :: int
  mem_cached :: int
  mem_total :: fp
  mem_used :: fp
  mem_utilization :: fp

record Storage =
  storage_total :: fp
  storage_used :: fp
  storage_utilization :: fp

record Power =
  energy1 :: int
  energy2 :: int
  power_used :: fp

record Network =
  rxBytes :: int
  txBytes :: int
  net_used :: int
  rxData :: int
  txData :: int

record CsdMetricCollector =
  mc_cpu :: Cpu
  mc_memory :: Memory
  mc_storage :: Storage
  mc_power :: Power
  mc_network :: Network
  working_block_count :: int
  csd_metric_score :: fp
  cpu_weight :: fp
  memory_weight :: fp
  storage_weight :: fp
  csd_ip :: string

abbreviation fzero :: fp where
  "fzero \<equiv> FNum False 0"

text \<open>The object is static: all bits zero before the member initialisers and the constructor.\<close>

definition CsdMetricCollector_zero :: "string \<Rightarrow> CsdMetricCollector" where
  "CsdMetricCollector_zero ip =
     \<lparr>mc_cpu = \<lparr>jiffies = \<lparr>j_user = 0, j_nice = 0, j_system = 0, j_idle = 0\<rparr>, cpu_total = fzero, cpu_used = fzero,
              cpu_utilization = fzero\<rparr>,
      mc_memory = \<lparr>mem_free = 0, mem_buffers = 0, mem_cached = 0, mem_total = fzero, mem_used = fzero, mem_utilization = fzero\<rparr>,
      mc_storage = \<lparr>storage_total = fzero, storage_used = fzero, storage_utilization = fzero\<rparr>,
      mc_power = \<lparr>energy1 = 0, energy2 = 0, power_used = fzero\<rparr>,
      mc_network = \<lparr>rxBytes = 0, txBytes = 0, net_used = 0, rxData = 0, txData = 0\<rparr>,
      working_block_count = 0, csd_metric_score = fzero,
      cpu_weight = fround binary64 False (4 / 10), memory_weight = fround binary64 False (3 / 10),
      storage_weight = fround binary64 False (3 / 10), csd_ip = ip\<rparr>"

text \<open>What the host offers to read in one round.\<close>

record Host =
  core_pipe :: "string option"      \<comment> \<open>\<^verbatim>\<open>popen("grep -c processor ...")\<close>\<close>
  proc_stat :: "string option"
  meminfo :: "string option"
  rx_file :: string                 \<comment> \<open>a file that cannot be opened reads as empty\<close>
  tx_file :: string
  energy_file1 :: string
  energy_file2 :: string
  df_output :: string
  worker_reply :: "json option option"  \<comment> \<open>no reply with status 200; no JSON; a document\<close>

section \<open>Conversions\<close>

text \<open>\<^verbatim>\<open>std::round\<close>: half away from zero; the result is always a number of the format.\<close>

fun std_round :: "fp \<Rightarrow> fp" where
  "std_round (FNum s m) = FNum s (of_int \<lfloor>m + 1 / 2\<rfloor>)"
| "std_round FNaN = FNaN"
| "std_round (FInf s) = FInf s"

text \<open>\<^verbatim>\<open>double\<close> to \<^verbatim>\<open>float\<close>; the other direction keeps the number.\<close>

fun to_float :: "fp \<Rightarrow> fp" where
  "to_float (FNum s m) = fround binary32 s m"
| "to_float FNaN = FNaN"
| "to_float (FInf s) = FInf s"

definition fdouble :: "int \<Rightarrow> fp" where
  "fdouble z = fp_of_int binary64 z"

text \<open>\<^verbatim>\<open>%d\<close> of \<^verbatim>\<open>fscanf\<close>: blanks, a number, the text behind it.\<close>

definition scan_int :: "string \<Rightarrow> (int \<times> string) option" where
  "scan_int s =
     (let s1 = dropWhile is_space s;
          s2 = (if s1 \<noteq> [] \<and> (hd s1 = CHR ''-'' \<or> hd s1 = CHR ''+'') then tl s1 else s1)
      in map_option (\<lambda>z. (z, dropWhile is_digit s2)) (strto_int s1))"

text \<open>\<^verbatim>\<open>%s\<close> and \<^verbatim>\<open>iss >> word\<close>.\<close>

definition scan_word :: "string \<Rightarrow> string \<times> string" where
  "scan_word s = (let s1 = dropWhile is_space s in (takeWhile (\<lambda>c. \<not> is_space c) s1, dropWhile (\<lambda>c. \<not> is_space c) s1))"

text \<open>Four numbers in a row; scanning stops at the first that is none.\<close>

fun scan_ints :: "nat \<Rightarrow> string \<Rightarrow> int list exec" where
  "scan_ints 0 s = ret []"
| "scan_ints (Suc n) s =
     (case scan_int s of
        None \<Rightarrow> ret []
      | Some (z, r) \<Rightarrow> bind_exec (arith32 z) (\<lambda>z. bind_exec (scan_ints n r) (\<lambda>zs. ret (z # zs))))"

text \<open>\<^verbatim>\<open>iss >> value\<close> into a \<^verbatim>\<open>long\<close>: untouched at the end of the text, 0 without a number, saturated.\<close>

definition read_long :: "string \<Rightarrow> int option" where
  "read_long s =
     (let s1 = dropWhile is_space s
      in if s1 = [] then None
         else Some (case strto_int s1 of None \<Rightarrow> 0 | Some z \<Rightarrow> max (- (2 ^ 63)) (min (2 ^ 63 - 1) z)))"

definition readStatisticsField :: "string \<Rightarrow> string" where
  "readStatisticsField contents = fst (scan_word contents)"

section \<open>Start\<close>

definition init_cores :: "Host \<Rightarrow> CsdMetricCollector \<Rightarrow> CsdMetricCollector exec" where
  "init_cores h m =
     (case core_pipe h of
        None \<Rightarrow> Abort NullPointer
      | Some s \<Rightarrow> (case scan_int s of
            None \<Rightarrow> Abort Uninitialised
          | Some (z, _) \<Rightarrow> bind_exec (arith32 z) (\<lambda>n.
              ret (m\<lparr>mc_cpu := (mc_cpu m)\<lparr>cpu_total := fp_of_int binary32 n\<rparr>\<rparr>))))"

text \<open>Fields that are not read keep their values.\<close>

definition keep_jiffies :: "int list \<Rightarrow> stJiffies \<Rightarrow> stJiffies" where
  "keep_jiffies zs j =
     (let pick = (\<lambda>i old. if i < length zs then zs ! i else old)
      in \<lparr>j_user = pick 0 (j_user j), j_nice = pick 1 (j_nice j), j_system = pick 2 (j_system j), j_idle = pick 3 (j_idle j)\<rparr>)"

text \<open>\<^verbatim>\<open>%5s\<close> takes at most five characters of the first word.\<close>

definition init_jiffies :: "string \<Rightarrow> CsdMetricCollector \<Rightarrow> CsdMetricCollector exec" where
  "init_jiffies s m =
     (let s1 = dropWhile is_space s;
          cpuID = take 5 (takeWhile (\<lambda>c. \<not> is_space c) s1)
      in bind_exec (scan_ints 4 (drop (length cpuID) s1)) (\<lambda>zs.
           ret (m\<lparr>mc_cpu := (mc_cpu m)\<lparr>jiffies := keep_jiffies zs (jiffies (mc_cpu m))\<rparr>\<rparr>)))"

definition in_gigabytes :: "fp \<Rightarrow> fp" where
  "in_gigabytes x = fdiv binary64 (fdiv binary64 x (fdouble 1024)) (fdouble 1024)"

definition init_memory_line :: "string \<Rightarrow> CsdMetricCollector \<Rightarrow> CsdMetricCollector exec" where
  "init_memory_line line m =
     (let (key, rest) = scan_word line in
      if key = ''MemTotal:''
      then bind_exec (get_exec (read_long rest)) (\<lambda>v.
             ret (m\<lparr>mc_memory := (mc_memory m)\<lparr>mem_total := in_gigabytes (fdouble v)\<rparr>\<rparr>))
      else ret m)"

text \<open>A file that cannot be opened ends the initialisation there.\<close>

definition init_metric :: "Host \<Rightarrow> CsdMetricCollector \<Rightarrow> CsdMetricCollector exec" where
  "init_metric h m =
     bind_exec (init_cores h m) (\<lambda>m.
     case proc_stat h of None \<Rightarrow> ret m | Some s \<Rightarrow>
     bind_exec (init_jiffies s m) (\<lambda>m.
     case meminfo h of None \<Rightarrow> ret m | Some t \<Rightarrow>
     bind_exec (fold_exec init_memory_line (getlines (CHR 0x0A) t) m) (\<lambda>m.
     bind_exec (stoll (readStatisticsField (rx_file h))) (\<lambda>rx.
     bind_exec (stoll (readStatisticsField (tx_file h))) (\<lambda>tx.
       ret (m\<lparr>mc_network := (mc_network m)\<lparr>rxBytes := rx, txBytes := tx\<rparr>\<rparr>))))))"

section \<open>Processor\<close>

text \<open>
  \<^verbatim>\<open>round(100.0 * (1.0 - idle / (double) total) * 100) / 100\<close>, the quotient 0/0 being a NaN;
  \<open>scale\<close> is 100.0 or the number of cores.
\<close>

definition busy_share :: "fp \<Rightarrow> int \<Rightarrow> int \<Rightarrow> fp" where
  "busy_share scale idle total_jiffies =
     fdiv binary64
       (std_round (fmul binary64 (fmul binary64 scale
          (fsub binary64 (fdouble 1) (fdiv binary64 (fdouble idle) (fdouble total_jiffies)))) (fdouble 100)))
       (fdouble 100)"

text \<open>
  \<^verbatim>\<open>%s\<close> into \<^verbatim>\<open>char cpuID[6]\<close> without a width: a word of more than five characters and its zero byte
  are written past the end.
\<close>

definition cpuID_faults :: "string \<Rightarrow> fault list" where
  "cpuID_faults w = (if 5 < length w then [Overrun (length w - 5)] else [])"

text \<open>The counters of \<^verbatim>\<open>curJiffies\<close> are not initialised; all four must be read.\<close>

definition update_cpu :: "Host \<Rightarrow> CsdMetricCollector \<Rightarrow> CsdMetricCollector exec" where
  "update_cpu h m =
     (case proc_stat h of
        None \<Rightarrow> Abort NullPointer
      | Some s \<Rightarrow>
          bind_exec (flag (cpuID_faults (fst (scan_word s)))) (\<lambda>_.
          bind_exec (scan_ints 4 (snd (scan_word s))) (\<lambda>zs.
          if length zs < 4 then Abort Uninitialised
          else (let cur = keep_jiffies zs (jiffies (mc_cpu m)); old = jiffies (mc_cpu m) in
            bind_exec (arith32 (j_user cur - j_user old)) (\<lambda>u.
            bind_exec (arith32 (j_nice cur - j_nice old)) (\<lambda>n.
            bind_exec (arith32 (j_system cur - j_system old)) (\<lambda>sy.
            bind_exec (arith32 (j_idle cur - j_idle old)) (\<lambda>i.
            bind_exec (arith32 (u + n)) (\<lambda>t1.
            bind_exec (arith32 (t1 + sy)) (\<lambda>t2.
            bind_exec (arith32 (t2 + i)) (\<lambda>total_jiffies.
              ret (m\<lparr>mc_cpu := (mc_cpu m)\<lparr>cpu_utilization := to_float (busy_share (fdouble 100) i total_jiffies),
                                     cpu_used := to_float (busy_share (cpu_total (mc_cpu m)) i total_jiffies),
                                     jiffies := cur\<rparr>\<rparr>)))))))))))) "

section \<open>Memory\<close>

definition memory_line :: "string \<Rightarrow> Memory \<Rightarrow> Memory exec" where
  "memory_line line mem =
     (let (key, rest) = scan_word line in
      if key = ''MemFree:'' then bind_exec (get_exec (read_long rest)) (\<lambda>v. ret (mem\<lparr>mem_free := v\<rparr>))
      else if key = ''Buffers:'' then bind_exec (get_exec (read_long rest)) (\<lambda>v. ret (mem\<lparr>mem_buffers := v\<rparr>))
      else if key = ''Cached:'' then bind_exec (get_exec (read_long rest)) (\<lambda>v. ret (mem\<lparr>mem_cached := v\<rparr>))
      else ret mem)"

text \<open>\<^verbatim>\<open>round((used / total) * 100.0 * 100) / 100\<close>\<close>

definition percent :: "fp \<Rightarrow> fp \<Rightarrow> fp" where
  "percent used whole =
     fdiv binary64 (std_round (fmul binary64 (fmul binary64 (fdiv binary64 used whole) (fdouble 100)) (fdouble 100)))
       (fdouble 100)"

text \<open>A file that cannot be opened has no lines.\<close>

definition update_memory :: "Host \<Rightarrow> CsdMetricCollector \<Rightarrow> CsdMetricCollector exec" where
  "update_memory h m =
     bind_exec (case meminfo h of None \<Rightarrow> ret (mc_memory m)
                | Some t \<Rightarrow> fold_exec memory_line (getlines (CHR 0x0A) t) (mc_memory m)) (\<lambda>mem.
     bind_exec (arith64 (mem_free mem + mem_buffers mem)) (\<lambda>a.
     bind_exec (arith64 (a + mem_cached mem)) (\<lambda>b.
       let used = fsub binary64 (mem_total mem) (in_gigabytes (fdouble b))
       in ret (m\<lparr>mc_memory := mem\<lparr>mem_used := used, mem_utilization := percent used (mem_total mem)\<rparr>\<rparr>))))"

section \<open>Network, storage, power\<close>

definition update_network :: "Host \<Rightarrow> CsdMetricCollector \<Rightarrow> CsdMetricCollector exec" where
  "update_network h m =
     bind_exec (stoll (readStatisticsField (rx_file h))) (\<lambda>currentRxBytes.
     bind_exec (stoll (readStatisticsField (tx_file h))) (\<lambda>currentTxBytes.
     bind_exec (arith64 (currentRxBytes - rxBytes (mc_network m))) (\<lambda>rx.
     bind_exec (arith64 (currentTxBytes - txBytes (mc_network m))) (\<lambda>tx.
     bind_exec (arith64 (rx + tx)) (\<lambda>both.
     bind_exec (arith64 (tdiv both 5 * 8)) (\<lambda>used.
       ret (m\<lparr>mc_network := \<lparr>rxBytes = currentRxBytes, txBytes = currentTxBytes, net_used = used, rxData = rx, txData = tx\<rparr>\<rparr>)))))))"

definition strip_G :: "string \<Rightarrow> string" where
  "strip_G s = rev (dropWhile (\<lambda>c. c = CHR ''G'') (rev s))"

definition storage_line :: "string \<Rightarrow> CsdMetricCollector \<Rightarrow> CsdMetricCollector exec" where
  "storage_line line m =
     (let (filesystem, r1) = scan_word line; (size_text, r2) = scan_word r1; (used_text, _) = scan_word r2 in
      if filesystem = ''/dev/ngd-blk3''
      then bind_exec (stod (strip_G size_text)) (\<lambda>whole.
           bind_exec (stod (strip_G used_text)) (\<lambda>usedSpace.
             ret (m\<lparr>mc_storage := \<lparr>storage_total = whole, storage_used = usedSpace,
                                 storage_utilization = to_float (percent usedSpace whole)\<rparr>\<rparr>)))
      else ret m)"

definition update_storage :: "Host \<Rightarrow> CsdMetricCollector \<Rightarrow> CsdMetricCollector exec" where
  "update_storage h m = fold_exec storage_line (tl (getlines (CHR 0x0A) (df_output h))) m"

text \<open>The call is commented out in the collecting loop; the stored energies are never updated.\<close>

definition update_power :: "Host \<Rightarrow> CsdMetricCollector \<Rightarrow> CsdMetricCollector exec" where
  "update_power h m =
     bind_exec (stoll (readStatisticsField (energy_file1 h))) (\<lambda>e1.
     bind_exec (stoll (readStatisticsField (energy_file2 h))) (\<lambda>e2.
     bind_exec (arith64 (e1 - energy1 (mc_power m))) (\<lambda>d1.
     bind_exec (arith64 (e2 - energy2 (mc_power m))) (\<lambda>d2.
     bind_exec (arith64 (d1 + d2)) (\<lambda>d.
       ret (m\<lparr>mc_power := (mc_power m)\<lparr>power_used := fp_of_int binary32 d\<rparr>\<rparr>))))))"

section \<open>Score\<close>

definition get_csd_working_block_count :: "Host \<Rightarrow> CsdMetricCollector \<Rightarrow> CsdMetricCollector exec" where
  "get_csd_working_block_count h m =
     (case worker_reply h of
        Some (Some document) \<Rightarrow>
          bind_exec (has_member document ''current_block_count'') (\<lambda>present.
          if present
          then bind_exec (get_member GetInt document ''current_block_count'') (\<lambda>n. ret (m\<lparr>working_block_count := n\<rparr>))
          else ret m)
      | _ \<Rightarrow> ret m)"

text \<open>\<^verbatim>\<open>100 - cpu.utilization\<close> is \<^verbatim>\<open>float\<close> arithmetic, the rest \<^verbatim>\<open>double\<close>.\<close>

definition total_score :: "CsdMetricCollector \<Rightarrow> fp" where
  "total_score m =
     fadd binary64
       (fadd binary64
          (fmul binary64 (cpu_weight m) (fsub binary32 (fp_of_int binary32 100) (cpu_utilization (mc_cpu m))))
          (fmul binary64 (memory_weight m) (fsub binary64 (fdouble 100) (mem_utilization (mc_memory m)))))
       (fmul binary64 (storage_weight m) (fsub binary64 (fdouble 100) (mem_utilization (mc_memory m))))"

definition calcul_csd_metric_score :: "CsdMetricCollector \<Rightarrow> CsdMetricCollector" where
  "calcul_csd_metric_score m =
     m\<lparr>csd_metric_score := fdiv binary64 (std_round (fmul binary64 (total_score m) (fdouble 100))) (fdouble 100)\<rparr>"

text \<open>An exception of \<^verbatim>\<open>stof\<close> leaves the weights that were set before it.\<close>

definition handle_set_score_weight :: "string \<Rightarrow> string \<Rightarrow> string \<Rightarrow> CsdMetricCollector \<Rightarrow> CsdMetricCollector \<times> unit exec" where
  "handle_set_score_weight cpu_text memory_text storage_text m =
     (case stof cpu_text of Abort e \<Rightarrow> (m, Abort e) | Done c _ \<Rightarrow>
        let m = m\<lparr>cpu_weight := c\<rparr> in
        (case stof memory_text of Abort e \<Rightarrow> (m, Abort e) | Done w _ \<Rightarrow>
           let m = m\<lparr>memory_weight := w\<rparr> in
           (case stof storage_text of Abort e \<Rightarrow> (m, Abort e) | Done s _ \<Rightarrow> (m\<lparr>storage_weight := s\<rparr>, ret ()))))"

section \<open>Reports\<close>

datatype report_value = RString string | RInt int | RDouble fp

definition serialize_response :: "CsdMetricCollector \<Rightarrow> (string \<times> report_value) list exec" where
  "serialize_response m =
     bind_exec (fp_to_sint 32 (std_round (cpu_total (mc_cpu m)))) (\<lambda>cores.
     ret [(''ip'', RString (csd_ip m)), (''cpuTotal'', RInt cores),
          (''cpuUsed'', RDouble (cpu_used (mc_cpu m))), (''cpuUtilization'', RDouble (cpu_utilization (mc_cpu m))),
          (''memoryTotal'', RDouble (mem_total (mc_memory m))), (''memoryUsed'', RDouble (mem_used (mc_memory m))),
          (''memoryUtilization'', RDouble (mem_utilization (mc_memory m))),
          (''diskTotal'', RDouble (storage_total (mc_storage m))), (''diskUsed'', RDouble (storage_used (mc_storage m))),
          (''diskUtilization'', RDouble (storage_utilization (mc_storage m))),
          (''networkRxData'', RInt (rxData (mc_network m))), (''networkTxData'', RInt (txData (mc_network m))),
          (''networkBandwidth'', RInt (net_used (mc_network m))),
          (''csdMetricScore'', RDouble (csd_metric_score m)),
          (''csdWorkingBlockCount'', RInt (working_block_count m))])"

text \<open>
  One connection per report: \<open>render\<close> writes the fields as text, \<open>opened\<close> and \<open>reached\<close> are
  the results of \<^verbatim>\<open>socket\<close> and \<^verbatim>\<open>connect\<close>; the texts sent are returned.
\<close>

definition send_metric ::
  "((string \<times> report_value) list \<Rightarrow> string) \<Rightarrow> bool \<Rightarrow> bool \<Rightarrow> CsdMetricCollector \<Rightarrow> string list exec" where
  "send_metric render opened reached m =
     bind_exec (serialize_response m) (\<lambda>fields.
       ret (if opened \<and> reached then [c_string (render fields)] else []))"

definition handle_get_csd_metric ::
  "((string \<times> report_value) list \<Rightarrow> string) \<Rightarrow> CsdMetricCollector \<Rightarrow> string exec" where
  "handle_get_csd_metric render m = bind_exec (serialize_response m) (\<lambda>fields. ret (render fields))"

text \<open>A round of \<^verbatim>\<open>run_collect\<close> up to the report; \<^verbatim>\<open>strcmp(getenv("MOD"), ...)\<close> needs the variable.\<close>

definition update_metrics :: "Host \<Rightarrow> CsdMetricCollector \<Rightarrow> CsdMetricCollector exec" where
  "update_metrics h m =
     bind_exec (update_cpu h m) (\<lambda>m.
     bind_exec (update_memory h m) (\<lambda>m.
     bind_exec (update_network h m) (\<lambda>m.
     bind_exec (update_storage h m) (\<lambda>m.
     bind_exec (get_csd_working_block_count h m) (\<lambda>m.
       ret (calcul_csd_metric_score m))))))"

definition run_collect ::
  "((string \<times> report_value) list \<Rightarrow> string) \<Rightarrow> string option \<Rightarrow> bool \<Rightarrow> bool \<Rightarrow> Host \<Rightarrow> CsdMetricCollector
   \<Rightarrow> (CsdMetricCollector \<times> string list) exec" where
  "run_collect render mod_variable opened reached h m =
     bind_exec (update_metrics h m) (\<lambda>m.
     case mod_variable of None \<Rightarrow> Abort NullPointer | Some _ \<Rightarrow>
     bind_exec (send_metric render opened reached m) (\<lambda>sent. ret (m, sent)))"

end
