(* ===== verification/Softfloat_Laws.thy ===== *)
theory Softfloat_Laws
  imports Softfloat
begin

text \<open>
  Rounding is monotone, so bounds that are numbers of the format survive every operation: the
  facts from which ranges of computed metrics follow without looking at a rounding error.
\<close>

section \<open>Powers of two and the leading bit\<close>

lemma pow2_powi: "pow2 k = 2 powi k"
  by (simp add: pow2_def power_int_def field_simps)

lemma bitlen_bounds:
  assumes "0 < n"
  shows "1 \<le> bitlen n \<and> 2 ^ nat (bitlen n - 1) \<le> n \<and> n < 2 ^ nat (bitlen n)"
  using assms
proof (induction n rule: bitlen.induct)
  case (1 n)
  show ?case
  proof (cases "n = 1")
    case True
    then show ?thesis by (simp add: bitlen.simps)
  next
    case False
    then have n: "0 < n div 2" "\<not> n \<le> 0" using 1(2) by auto
    from 1(1) [OF n(2,1)] have ih: "1 \<le> bitlen (n div 2)" "2 ^ nat (bitlen (n div 2) - 1) \<le> n div 2"
      "n div 2 < 2 ^ nat (bitlen (n div 2))" by auto
    have b: "bitlen n = 1 + bitlen (n div 2)" using n by (simp add: bitlen.simps [of n])
    have e: "nat (bitlen (n div 2)) = Suc (nat (bitlen (n div 2) - 1))" "nat (1 + bitlen (n div 2)) = Suc (nat (bitlen (n div 2)))"
      using ih(1) by auto
    have "2 * (n div 2) \<le> n" "n < 2 * (n div 2) + 2" by auto
    then show ?thesis using ih e by (simp add: b)
  qed
qed

lemma bitlen_powi:
  assumes "0 < n"
  shows "(2 :: rat) powi (bitlen n - 1) \<le> of_int n \<and> of_int n < (2 :: rat) powi bitlen n"
proof -
  have b: "1 \<le> bitlen n" "2 ^ nat (bitlen n - 1) \<le> n" "n < 2 ^ nat (bitlen n)"
    using bitlen_bounds [OF assms] by auto
  have "(of_int (2 ^ nat (bitlen n - 1)) :: rat) \<le> of_int n" "(of_int n :: rat) < of_int (2 ^ nat (bitlen n))"
    using b(2,3) by (simp_all only: of_int_le_iff of_int_less_iff)
  then show ?thesis using b(1) by (simp add: power_int_def)
qed

lemma flog2_bounds:
  assumes "0 < x"
  shows "2 powi flog2 x \<le> x" and "x < 2 powi (flog2 x + 1)"
proof -
  obtain n d where q: "quotient_of x = (n, d)" by force
  have d: "0 < d" using quotient_of_denom_pos [OF q] .
  have x: "x = of_int n / of_int d" using quotient_of_div [OF q] .
  have n: "0 < n" using assms d by (simp add: x zero_less_divide_iff)
  let ?a = "bitlen n" and ?b = "bitlen d"
  note bn = bitlen_bounds [OF n] and bd = bitlen_bounds [OF d]
  have pn: "(2 :: rat) powi (?a - 1) \<le> of_int n" "of_int n < (2 :: rat) powi ?a"
    using bitlen_powi [OF n] by simp_all
  have pd: "(2 :: rat) powi (?b - 1) \<le> of_int d" "of_int d < (2 :: rat) powi ?b"
    using bitlen_powi [OF d] by simp_all
  have lower: "2 powi (?a - ?b - 1) \<le> x"
  proof -
    have "(2 :: rat) powi (?a - ?b - 1) = 2 powi (?a - 1) / 2 powi ?b" by (simp flip: power_int_diff add: algebra_simps)
    also have "\<dots> \<le> of_int n / of_int d" using pn(1) pd(2) d n by (intro frac_le) simp_all
    finally show ?thesis by (simp add: x)
  qed
  have upper: "x < 2 powi (?a - ?b + 1)"
  proof -
    have "x < 2 powi ?a / 2 powi (?b - 1)"
      unfolding x using pn pd d n by (intro frac_less) simp_all
    then show ?thesis by (simp flip: power_int_diff add: algebra_simps)
  qed
  show "2 powi flog2 x \<le> x" "x < 2 powi (flog2 x + 1)"
    using lower upper by (simp_all add: flog2_def q pow2_powi not_le Let_def)
qed

section \<open>Rounding\<close>

lemma rne_of_int [simp]: "rne (of_int n) = n"
  by (simp add: rne_def)

lemma rne_between: "\<lfloor>x\<rfloor> \<le> rne x \<and> rne x \<le> \<lfloor>x\<rfloor> + 1"
  by (simp add: rne_def Let_def)

lemma rne_mono:
  assumes "x \<le> y"
  shows "rne x \<le> rne y"
proof (cases "\<lfloor>x\<rfloor> = \<lfloor>y\<rfloor>")
  case True
  then show ?thesis using assms by (simp add: rne_def Let_def)
next
  case False
  then have "\<lfloor>x\<rfloor> + 1 \<le> \<lfloor>y\<rfloor>" using floor_mono [OF assms] by linarith
  then show ?thesis using rne_between [of x] rne_between [of y] by linarith
qed

lemma rne_nonneg: "0 \<le> x \<Longrightarrow> 0 \<le> rne x"
  using rne_mono [of 0 x] rne_of_int [of 0] by simp

definition ulp_exp :: "fp_format \<Rightarrow> rat \<Rightarrow> int" where
  "ulp_exp F x = max (flog2 x - (int (prec F) - 1)) (emin F)"

lemma round_mag_ulp: "x \<noteq> 0 \<Longrightarrow> round_mag F x = of_int (rne (x / 2 powi ulp_exp F x)) * 2 powi ulp_exp F x"
  by (simp add: round_mag_def ulp_exp_def pow2_powi Let_def)

lemma round_mag_0 [simp]: "round_mag F 0 = 0"
  by (simp add: round_mag_def)

lemma round_mag_nonneg: "0 \<le> x \<Longrightarrow> 0 \<le> round_mag F x"
  by (cases "x = 0") (simp_all add: round_mag_ulp rne_nonneg)

lemma flog2_mono:
  assumes "0 < x" and "x \<le> y"
  shows "flog2 x \<le> flog2 y"
proof (rule ccontr)
  assume "\<not> flog2 x \<le> flog2 y"
  then have "(2 :: rat) powi (flog2 y + 1) \<le> 2 powi flog2 x" by (intro power_int_increasing) simp_all
  also have "\<dots> \<le> x" using flog2_bounds(1) [OF assms(1)] .
  finally show False using flog2_bounds(2) [of y] assms by simp
qed

lemma powi_of_int: "0 \<le> k \<Longrightarrow> (2 :: rat) powi k = of_int (2 ^ nat k)"
  by (simp add: power_int_def)

lemma round_mag_mono:
  assumes "0 \<le> x" and "x \<le> y" and "1 \<le> prec F"
  shows "round_mag F x \<le> round_mag F y"
proof (cases "x = 0")
  case True
  then show ?thesis using assms round_mag_nonneg [of y F] by simp
next
  case False
  then have pos: "0 < x" "0 < y" using assms by auto
  let ?a = "ulp_exp F x" and ?b = "ulp_exp F y" and ?k = "flog2 y"
  have logs: "flog2 x \<le> ?k" using flog2_mono [OF pos(1) assms(2)] .
  have ab: "?a \<le> ?b" using logs by (simp add: ulp_exp_def)
  show ?thesis
  proof (cases "?a = ?b")
    case True
    have "rne (x / 2 powi ?b) \<le> rne (y / 2 powi ?b)" using assms by (intro rne_mono divide_right_mono) simp_all
    then show ?thesis using pos True by (simp add: round_mag_ulp mult_right_mono)
  next
    case False
    then have b: "?b = ?k - (int (prec F) - 1)" and k: "?b \<le> ?k" "?a < ?b" "flog2 x < ?k"
      using ab assms(3) by (auto simp: ulp_exp_def)
    have "round_mag F x \<le> 2 powi ?k"
    proof -
      have "x < 2 powi (flog2 x + 1)" using flog2_bounds(2) [OF pos(1)] .
      also have "\<dots> \<le> 2 powi ?k" using k(3) by (intro power_int_increasing) simp_all
      finally have "x / 2 powi ?a \<le> 2 powi ?k / 2 powi ?a" by (intro divide_right_mono) simp_all
      also have "\<dots> = 2 powi (?k - ?a)" by (simp add: power_int_diff)
      also have "\<dots> = of_int (2 ^ nat (?k - ?a))" using k by (intro powi_of_int) linarith
      finally have "rne (x / 2 powi ?a) \<le> 2 ^ nat (?k - ?a)" using rne_mono rne_of_int by metis
      then have "of_int (rne (x / 2 powi ?a)) \<le> (of_int (2 ^ nat (?k - ?a)) :: rat)" by (simp only: of_int_le_iff)
      then have "of_int (rne (x / 2 powi ?a)) \<le> (2 :: rat) powi (?k - ?a)" using k by (simp add: powi_of_int)
      then have "of_int (rne (x / 2 powi ?a)) * 2 powi ?a \<le> (2 :: rat) powi (?k - ?a) * 2 powi ?a"
        by (intro mult_right_mono) simp_all
      then show ?thesis using pos(1) by (simp add: round_mag_ulp flip: power_int_add)
    qed
    also have "2 powi ?k \<le> round_mag F y"
    proof -
      have "(of_int (2 ^ nat (?k - ?b)) :: rat) = 2 powi ?k / 2 powi ?b" using k by (simp add: powi_of_int power_int_diff [symmetric])
      also have "\<dots> \<le> y / 2 powi ?b" using flog2_bounds(1) [OF pos(2)] by (intro divide_right_mono) simp_all
      finally have "2 ^ nat (?k - ?b) \<le> rne (y / 2 powi ?b)" using rne_mono rne_of_int by metis
      then have "(of_int (2 ^ nat (?k - ?b)) :: rat) \<le> of_int (rne (y / 2 powi ?b))" by (simp only: of_int_le_iff)
      then have "(2 :: rat) powi (?k - ?b) * 2 powi ?b \<le> of_int (rne (y / 2 powi ?b)) * 2 powi ?b"
        using k by (intro mult_right_mono) (simp_all add: powi_of_int)
      then show ?thesis using pos(2) by (simp add: round_mag_ulp flip: power_int_add)
    qed
    finally show ?thesis .
  qed
qed

section \<open>Ranges\<close>

text \<open>\<open>x\<close> is a number between 0 and \<open>b\<close>.\<close>

definition in_upto :: "rat \<Rightarrow> fp \<Rightarrow> bool" where
  "in_upto b x \<longleftrightarrow> (\<exists>s m. x = FNum s m \<and> 0 \<le> m \<and> 0 \<le> rat_of s m \<and> rat_of s m \<le> b)"

text \<open>Numbers of a format that are far from its limit.\<close>

definition bound_of :: "fp_format \<Rightarrow> rat \<Rightarrow> bool" where
  "bound_of F b \<longleftrightarrow> 0 \<le> b \<and> round_mag F b = b \<and> b < 2 powi elim F"

lemma upto_cases:
  assumes "in_upto b x"
  obtains m where "0 \<le> m" "m \<le> b" "x = FNum False m" | "x = FNum True 0" "0 \<le> b"
  using assms by (auto simp: in_upto_def rat_of_def split: if_splits)

lemma fround_upto:
  assumes "0 \<le> x" and "round_mag F x \<le> b" and "bound_of F b" and "1 \<le> prec F"
  shows "in_upto b (fround F False x)" and "fround F False x = FNum False (round_mag F x)"
proof -
  have "flog2 (round_mag F x) < elim F" if "round_mag F x \<noteq> 0"
  proof (rule ccontr)
    assume "\<not> flog2 (round_mag F x) < elim F"
    then have "(2 :: rat) powi elim F \<le> 2 powi flog2 (round_mag F x)" by (intro power_int_increasing) simp_all
    also have "\<dots> \<le> round_mag F x" using flog2_bounds(1) [of "round_mag F x"] round_mag_nonneg [OF assms(1), of F] that by simp
    finally show False using assms(2,3) by (simp add: bound_of_def)
  qed
  then show r: "fround F False x = FNum False (round_mag F x)" by (auto simp: fround_def Let_def not_le)
  show "in_upto b (fround F False x)" using r assms(2) round_mag_nonneg [OF assms(1), of F]
    by (auto simp: in_upto_def rat_of_def intro: exI [of _ False])
qed

lemma fround_zero: "fround F s 0 = FNum s 0"
  by (simp add: fround_def)

lemma fround_le_upto:
  assumes "0 \<le> x" and "x \<le> c" and "round_mag F c \<le> b" and "bound_of F b" and "1 \<le> prec F"
  shows "in_upto b (fround F False x)"
  using fround_upto(1) [OF assms(1) order_trans [OF round_mag_mono [OF assms(1,2,5)] assms(3)] assms(4,5)] .

lemma upto_zero: "0 \<le> b \<Longrightarrow> in_upto b (FNum s 0)"
  by (simp add: in_upto_def rat_of_def)

lemma fmul_upto:
  assumes "in_upto a x" and "in_upto c y" and "round_mag F (a * c) \<le> b" and "bound_of F b" and "1 \<le> prec F"
  shows "in_upto b (fmul F x y)"
proof -
  have b: "0 \<le> b" using assms(4) by (simp add: bound_of_def)
  have "0 \<le> a" "0 \<le> c" using assms(1,2) by (auto simp: in_upto_def)
  then have prod: "in_upto b (fround F False (m * n))" if "0 \<le> m" "m \<le> a" "0 \<le> n" "n \<le> c" for m n
    using that assms(3-5) by (intro fround_le_upto [of _ "a * c"] mult_mono) simp_all
  show ?thesis
    using assms(1,2) by (elim upto_cases) (auto simp: prod fround_zero b upto_zero)
qed

lemma fadd_upto:
  assumes "in_upto a x" and "in_upto c y" and "round_mag F (a + c) \<le> b" and "bound_of F b" and "1 \<le> prec F"
  shows "in_upto b (fadd F x y)"
proof -
  have b: "0 \<le> b" using assms(4) by (simp add: bound_of_def)
  have "0 \<le> a" "0 \<le> c" using assms(1,2) by (auto simp: in_upto_def)
  then have sum: "in_upto b (fround F False (m + n))" if "0 \<le> m" "m \<le> a" "0 \<le> n" "n \<le> c" for m n
    using that assms(3-5) by (intro fround_le_upto [of _ "a + c"] add_mono) simp_all
  show ?thesis
    using assms(1,2) sum sum [of 0] sum [of _ 0] \<open>0 \<le> a\<close> \<open>0 \<le> c\<close>
    by (elim upto_cases) (auto simp: rat_of_def Let_def b upto_zero)
qed

text \<open>Subtracting from the bound itself.\<close>

lemma fsub_upto:
  assumes "in_upto b y" and "bound_of F b" and "1 \<le> prec F"
  shows "in_upto b (fsub F (FNum False b) y)"
proof -
  have b: "0 \<le> b" "round_mag F b = b" using assms(2) by (simp_all add: bound_of_def)
  have diff: "in_upto b (fround F False (b - m))" if "0 \<le> m" "m \<le> b" for m
    using that assms(2,3) b by (intro fround_le_upto [of _ b]) simp_all
  show ?thesis
    using assms(1) diff diff [of 0] b
    by (elim upto_cases) (auto simp: fsub_def rat_of_def Let_def upto_zero)
qed

lemma fdiv_upto:
  assumes "in_upto a x" and "0 < c" and "round_mag F (a / c) \<le> b" and "bound_of F b" and "1 \<le> prec F"
  shows "in_upto b (fdiv F x (FNum False c))"
proof -
  have b: "0 \<le> b" using assms(4) by (simp add: bound_of_def)
  have quot: "in_upto b (fround F False (m / c))" if "0 \<le> m" "m \<le> a" for m
    using that assms(2-5) by (intro fround_le_upto [of _ "a / c"] divide_right_mono) simp_all
  show ?thesis
    using assms(1,2) by (elim upto_cases) (auto simp: quot fround_zero b upto_zero)
qed

end
