(* ===== verification/Metric_Laws.thy ===== *)
theory Metric_Laws
  imports Metric_Collector Softfloat_Laws
begin

text \<open>
  What the host can rely on in a report: utilisations are percentages, and with the default weights the score is
  between 0 and 100. The storage term of the score is computed from the memory.
\<close>

section \<open>Bounds of the formats\<close>

lemma bound_ofI:
  assumes "0 \<le> b" and "round_mag F b = b" and "b \<le> 2 ^ 14" and "15 \<le> elim F"
  shows "bound_of F b"
proof -
  have "(2 :: rat) powi 15 \<le> 2 powi elim F" using assms(4) by (intro power_int_increasing) simp_all
  then show ?thesis using assms by (simp add: bound_of_def)
qed

lemma exact_values [simp]:
  "round_mag binary64 1 = 1" "round_mag binary64 30 = 30" "round_mag binary64 40 = 40" "round_mag binary64 70 = 70"
  "round_mag binary64 100 = 100" "round_mag binary64 10000 = 10000" "round_mag binary32 100 = 100"
  by code_simp+

lemma elim_values: "elim binary64 = 1024" "elim binary32 = 128"
  by (simp_all add: binary64_def binary32_def)

lemma format_bounds [simp]:
  "bound_of binary64 1" "bound_of binary64 30" "bound_of binary64 40" "bound_of binary64 70" "bound_of binary64 100"
  "bound_of binary64 10000" "bound_of binary32 100"
  by (auto intro!: bound_ofI simp: elim_values)

lemma std_round_upto:
  assumes "in_upto (of_int n) x"
  shows "in_upto (of_int n) (std_round x)"
  using assms
proof (elim upto_cases)
  fix m assume m: "0 \<le> m" "m \<le> of_int n" "x = FNum False m"
  then have "0 \<le> \<lfloor>m + 1 / 2\<rfloor>" "\<lfloor>m + 1 / 2\<rfloor> \<le> n" by (simp_all add: floor_le_iff)
  then show ?thesis using m(3) by (auto simp: in_upto_def rat_of_def intro: exI [of _ False])
next
  assume "x = FNum True 0" "(0 :: rat) \<le> of_int n"
  moreover have "\<lfloor>1 / 2 :: rat\<rfloor> = 0" by (simp add: floor_eq_iff)
  ultimately show ?thesis by (simp add: upto_zero)
qed

lemma fdouble_values: "fdouble 1 = FNum False 1" "fdouble 100 = FNum False 100" "fp_of_int binary32 100 = FNum False 100"
  by code_simp+

lemma prec_values [simp]: "prec binary64 = 53" "prec binary32 = 24"
  by (simp_all add: binary64_def binary32_def)

section \<open>Processor\<close>

lemma fdouble_round:
  assumes "0 \<le> z" and "z < 2 ^ 31"
  shows "fdouble z = FNum False (round_mag binary64 (of_int z))"
proof -
  have m: "round_mag binary64 (2 ^ 31) = 2 ^ 31" by code_simp
  have "(2 :: rat) powi 32 \<le> 2 powi elim binary64" by (intro power_int_increasing) (simp_all add: elim_values)
  then have b: "bound_of binary64 (2 ^ 31)" using m by (simp add: bound_of_def)
  have "(of_int z :: rat) \<le> of_int (2 ^ 31)" using assms(2) by (simp only: of_int_le_iff)
  then have "of_int z \<le> (2 ^ 31 :: rat)" by simp
  from round_mag_mono [OF _ this, of binary64] assms(1) have "round_mag binary64 (of_int z) \<le> 2 ^ 31" by (simp only: m) simp
  from fround_upto(2) [OF _ this b] assms(1) show ?thesis by (simp add: fdouble_def fp_of_int_def)
qed

lemma idle_share_upto:
  assumes "0 \<le> idle" and "idle \<le> total_jiffies" and "0 < total_jiffies" and "total_jiffies < 2 ^ 31"
  shows "in_upto 1 (fdiv binary64 (fdouble idle) (fdouble total_jiffies))"
proof -
  let ?i = "round_mag binary64 (of_int idle)" and ?t = "round_mag binary64 (of_int total_jiffies)"
  have t: "1 \<le> ?t" using round_mag_mono [of 1 "of_int total_jiffies" binary64] assms(3) by simp
  have i: "?i \<le> ?t" "0 \<le> ?i" using assms by (auto intro: round_mag_mono round_mag_nonneg)
  then have "in_upto 1 (fround binary64 False (?i / ?t))"
    using t by (intro fround_le_upto [of _ 1]) simp_all
  moreover have "fdouble idle = FNum False ?i" "fdouble total_jiffies = FNum False ?t"
    using assms by (simp_all add: fdouble_round)
  ultimately show ?thesis using t by simp
qed

lemma upto_self: "0 \<le> b \<Longrightarrow> in_upto b (FNum False b)"
  by (auto simp: in_upto_def rat_of_def intro: exI [of _ False])

text \<open>\<^verbatim>\<open>round(x * 100) / 100\<close>\<close>

lemma two_digits_upto:
  assumes "in_upto 100 x"
  shows "in_upto 100 (fdiv binary64 (std_round (fmul binary64 x (fdouble 100))) (fdouble 100))"
proof -
  have "in_upto 100 (fdouble 100)" by (simp add: fdouble_values upto_self)
  with assms have "in_upto 10000 (fmul binary64 x (fdouble 100))" by (rule fmul_upto) simp_all
  then have "in_upto 10000 (std_round (fmul binary64 x (fdouble 100)))" using std_round_upto [of 10000] by simp
  then show ?thesis unfolding fdouble_values by (rule fdiv_upto) simp_all
qed

lemma busy_share_percent:
  assumes "0 \<le> idle" and "idle \<le> total_jiffies" and "0 < total_jiffies" and "total_jiffies < 2 ^ 31"
  shows "in_upto 100 (busy_share (fdouble 100) idle total_jiffies)"
proof -
  have busy: "in_upto 1 (fsub binary64 (fdouble 1) (fdiv binary64 (fdouble idle) (fdouble total_jiffies)))"
    unfolding fdouble_values by (rule fsub_upto [OF idle_share_upto [OF assms]]) simp_all
  have "in_upto 100 (fdouble 100)" by (simp add: fdouble_values upto_self)
  then have "in_upto 100 (fmul binary64 (fdouble 100) (fsub binary64 (fdouble 1) (fdiv binary64 (fdouble idle) (fdouble total_jiffies))))"
    by (rule fmul_upto [OF _ busy]) simp_all
  then show ?thesis unfolding busy_share_def by (rule two_digits_upto)
qed

lemma to_float_upto:
  assumes "in_upto 100 x"
  shows "in_upto 100 (to_float x)"
  using assms
proof (elim upto_cases)
  fix m :: rat assume "0 \<le> m" "m \<le> 100" "x = FNum False m"
  then show ?thesis using fround_le_upto [of m 100 binary32 100] by simp
qed (simp add: fround_zero upto_zero)

text \<open>
  C33: with counters that do not decrease, some jiffies passed and no overflow, the processor utilisation is
  a percentage after every update, and the counters read are kept; the only undefined behaviour is that a first
  word of more than five characters overruns its array.
\<close>

theorem cpu_utilization_bounds:
  assumes "proc_stat h = Some s" and "scan_ints 4 (snd (scan_word s)) = ret [u, n, sy, i]"
    and "j_user (jiffies (mc_cpu m)) \<le> u" and "j_nice (jiffies (mc_cpu m)) \<le> n"
    and "j_system (jiffies (mc_cpu m)) \<le> sy" and "j_idle (jiffies (mc_cpu m)) \<le> i"
    and "0 \<le> j_user (jiffies (mc_cpu m)) + j_nice (jiffies (mc_cpu m)) + j_system (jiffies (mc_cpu m)) + j_idle (jiffies (mc_cpu m))"
    and "j_user (jiffies (mc_cpu m)) + j_nice (jiffies (mc_cpu m)) + j_system (jiffies (mc_cpu m)) + j_idle (jiffies (mc_cpu m)) < u + n + sy + i"
    and "u + n + sy + i < 2 ^ 31"
  shows "\<exists>m'. update_cpu h m = Done m' (cpuID_faults (fst (scan_word s))) \<and> in_upto 100 (cpu_utilization (mc_cpu m')) \<and>
    jiffies (mc_cpu m') = \<lparr>j_user = u, j_nice = n, j_system = sy, j_idle = i\<rparr>"
proof -
  obtain u0 n0 s0 i0 where j: "jiffies (mc_cpu m) = \<lparr>j_user = u0, j_nice = n0, j_system = s0, j_idle = i0\<rparr>"
    by (cases "jiffies (mc_cpu m)")
  have "in_upto 100 (busy_share (fdouble 100) (i - i0) (u - u0 + (n - n0) + (sy - s0) + (i - i0)))"
    using assms(3-9) j by (intro busy_share_percent) simp_all
  moreover have "int32_ok (u - u0)" "int32_ok (n - n0)" "int32_ok (sy - s0)" "int32_ok (i - i0)" "int32_ok (u - u0 + (n - n0))"
    "int32_ok (u - u0 + (n - n0) + (sy - s0))" "int32_ok (u - u0 + (n - n0) + (sy - s0) + (i - i0))"
    using assms(3-9) j by (simp_all add: int32_ok_def)
  ultimately show ?thesis
    using assms(1,2) j by (simp add: update_cpu_def flag_def bind_Done keep_jiffies_def Let_def arith32_def numeral_3_eq_3 to_float_upto)
qed

section \<open>Score\<close>

lemma weight_products:
  "round_mag binary64 (round_mag binary64 (4 / 10) * 100) = 40" "round_mag binary64 (round_mag binary64 (3 / 10) * 100) = 30"
  "fround binary64 False (4 / 10) = FNum False (round_mag binary64 (4 / 10))"
  "fround binary64 False (3 / 10) = FNum False (round_mag binary64 (3 / 10))"
  by code_simp+

text \<open>
  C34: with the default weights and utilisations that are percentages the score is between 0 and 100.
\<close>

theorem score_bounds:
  assumes "cpu_weight m = fround binary64 False (4 / 10)" and "memory_weight m = fround binary64 False (3 / 10)"
    and "storage_weight m = fround binary64 False (3 / 10)"
    and "in_upto 100 (cpu_utilization (mc_cpu m))" and "in_upto 100 (mem_utilization (mc_memory m))"
  shows "in_upto 100 (csd_metric_score (calcul_csd_metric_score m))"
proof -
  have w: "in_upto (round_mag binary64 (4 / 10)) (cpu_weight m)" "in_upto (round_mag binary64 (3 / 10)) (memory_weight m)"
    "in_upto (round_mag binary64 (3 / 10)) (storage_weight m)"
    unfolding assms(1-3) weight_products(3,4) by (intro upto_self round_mag_nonneg; simp)+
  have rest: "in_upto 100 (fsub binary32 (fp_of_int binary32 100) (cpu_utilization (mc_cpu m)))"
    "in_upto 100 (fsub binary64 (fdouble 100) (mem_utilization (mc_memory m)))"
    using assms(4,5) by (simp_all add: fdouble_values fsub_upto)
  have parts: "in_upto 40 (fmul binary64 (cpu_weight m) (fsub binary32 (fp_of_int binary32 100) (cpu_utilization (mc_cpu m))))"
    "in_upto 30 (fmul binary64 (memory_weight m) (fsub binary64 (fdouble 100) (mem_utilization (mc_memory m))))"
    "in_upto 30 (fmul binary64 (storage_weight m) (fsub binary64 (fdouble 100) (mem_utilization (mc_memory m))))"
    by (rule fmul_upto [OF w(1) rest(1)] fmul_upto [OF w(2) rest(2)] fmul_upto [OF w(3) rest(2)]; use weight_products in simp)+
  have "in_upto 70 (fadd binary64 (fmul binary64 (cpu_weight m) (fsub binary32 (fp_of_int binary32 100) (cpu_utilization (mc_cpu m))))
      (fmul binary64 (memory_weight m) (fsub binary64 (fdouble 100) (mem_utilization (mc_memory m)))))"
    by (rule fadd_upto [OF parts(1,2)]) simp_all
  then have "in_upto 100 (total_score m)"
    unfolding total_score_def by (rule fadd_upto [OF _ parts(3)]) simp_all
  from two_digits_upto [OF this] show ?thesis by (simp add: calcul_csd_metric_score_def)
qed

lemma fmul_NaN [simp]: "fmul F x FNaN = FNaN"
  by (cases x) simp_all

lemma fadd_NaN [simp]: "fadd F x FNaN = FNaN"
  by (cases x) simp_all

lemma busy_share_NaN: "busy_share scale 0 0 = FNaN"
proof -
  have "fdouble 0 = FNum False 0" by (simp add: fdouble_def fp_of_int_def fround_zero)
  then show ?thesis by (simp add: busy_share_def fsub_def)
qed

text \<open>
  A round in which the processor counters have not moved, as the first one right after the start,
  yields a utilisation and a score that are not numbers.
\<close>

theorem no_jiffies_no_score:
  assumes "proc_stat h = Some s" and "scan_ints 4 (snd (scan_word s)) = ret [u, n, sy, i]"
    and "jiffies (mc_cpu m) = \<lparr>j_user = u, j_nice = n, j_system = sy, j_idle = i\<rparr>"
  shows "\<exists>m'. value_of (update_cpu h m) = Some m' \<and> cpu_utilization (mc_cpu m') = FNaN \<and>
    csd_metric_score (calcul_csd_metric_score m') = FNaN"
  using assms
  by (simp add: update_cpu_def flag_def bind_Done keep_jiffies_def Let_def arith32_def int32_ok_def numeral_3_eq_3 busy_share_NaN
      calcul_csd_metric_score_def total_score_def fsub_def)

text \<open>The storage term of the score is computed from the memory utilisation.\<close>

lemma score_ignores_storage:
  "csd_metric_score (calcul_csd_metric_score (m\<lparr>mc_storage := s\<rparr>)) = csd_metric_score (calcul_csd_metric_score m)"
  by (simp add: calcul_csd_metric_score_def total_score_def)

section \<open>Concrete rounds\<close>

definition demo_host :: Host where
  "demo_host = \<lparr>core_pipe = Some ''4'', proc_stat = Some ''cpu  10 0 5 85 0'', meminfo = None, rx_file = ''0'', tx_file = ''0'',
     energy_file1 = [], energy_file2 = [], df_output = [], worker_reply = None\<rparr>"

theorem cpu_utilization_bounds_witness:
  "\<exists>m. update_cpu demo_host (CsdMetricCollector_zero ''10.1.1.2'') = ret m \<and> in_upto 100 (cpu_utilization (mc_cpu m)) \<and>
    jiffies (mc_cpu m) = \<lparr>j_user = 10, j_nice = 0, j_system = 5, j_idle = 85\<rparr>"
proof -
  have s: "scan_ints 4 (snd (scan_word ''cpu  10 0 5 85 0'')) = ret [10, 0, 5, 85]" by code_simp
  have w: "cpuID_faults (fst (scan_word ''cpu  10 0 5 85 0'')) = []" by code_simp
  show ?thesis
    by (rule cpu_utilization_bounds [OF _ s, unfolded w]) (simp_all add: demo_host_def CsdMetricCollector_zero_def)
qed

theorem score_bounds_witness:
  "in_upto 100 (csd_metric_score (calcul_csd_metric_score (CsdMetricCollector_zero ''10.1.1.2'')))"
  by (rule score_bounds) (simp_all only: CsdMetricCollector_zero_def CsdMetricCollector.simps CsdMetricCollector.select_convs
      Cpu.select_convs Memory.select_convs upto_zero zero_le_numeral)

theorem no_jiffies_no_score_witness:
  "\<exists>m. value_of (update_cpu (demo_host\<lparr>proc_stat := Some ''cpu 0 0 0 0''\<rparr>) (CsdMetricCollector_zero ''10.1.1.2'')) = Some m \<and>
    cpu_utilization (mc_cpu m) = FNaN \<and> csd_metric_score (calcul_csd_metric_score m) = FNaN"
proof -
  have s: "scan_ints 4 (snd (scan_word ''cpu 0 0 0 0'')) = ret [0, 0, 0, 0]" by code_simp
  show ?thesis by (rule no_jiffies_no_score [OF _ s]) (simp_all add: CsdMetricCollector_zero_def)
qed

end
