(* ===== verification/Block_Format.thy ===== *)
theory Block_Format
  imports Kv_Iterator
begin

unbundle bit_operations_syntax

text \<open>
  The data blocks the scan reads: the integer codings of RocksDB, the builder that lays a block
  out, the object that finds the restart array, the iterator over the entries and the reader that
  gathers a block from its places on the device. An \<^verbatim>\<open>assert\<close> that fails ends the execution. A
  pointer into a block is its offset; a pointer with a limit is the list of the bytes between
  them. Blocks have the binary-search index (no hash index) and no global sequence number.
\<close>

section \<open>Coding\<close>

definition EncodeVarint32 :: "32 word \<Rightarrow> bytes" where
  "EncodeVarint32 v =
     (if v < 2 ^ 7 then [ucast v]
      else if v < 2 ^ 14 then [ucast (v OR 128), ucast (drop_bit 7 v)]
      else if v < 2 ^ 21 then [ucast (v OR 128), ucast (drop_bit 7 v OR 128), ucast (drop_bit 14 v)]
      else if v < 2 ^ 28
      then [ucast (v OR 128), ucast (drop_bit 7 v OR 128), ucast (drop_bit 14 v OR 128), ucast (drop_bit 21 v)]
      else [ucast (v OR 128), ucast (drop_bit 7 v OR 128), ucast (drop_bit 14 v OR 128),
            ucast (drop_bit 21 v OR 128), ucast (drop_bit 28 v)])"

fun GetVarint32PtrFallback :: "nat \<Rightarrow> 32 word \<Rightarrow> bytes \<Rightarrow> (32 word \<times> bytes) option" where
  "GetVarint32PtrFallback shift result [] = None"
| "GetVarint32PtrFallback shift result (b # p) =
     (if \<not> shift \<le> 28 then None
      else if (ucast b :: 32 word) AND 128 \<noteq> 0
      then GetVarint32PtrFallback (shift + 7) (result OR push_bit shift (ucast b AND 127)) p
      else Some (result OR push_bit shift (ucast b), p))"

fun GetVarint32Ptr :: "bytes \<Rightarrow> (32 word \<times> bytes) option" where
  "GetVarint32Ptr [] = GetVarint32PtrFallback 0 0 []"
| "GetVarint32Ptr (b # p) =
     (if (ucast b :: 32 word) AND 128 = 0 then Some (ucast b, p) else GetVarint32PtrFallback 0 0 (b # p))"

definition PutFixed32 :: "32 word \<Rightarrow> bytes" where
  "PutFixed32 v = le_bytes 4 (uint v)"

definition slice_at :: "bytes \<Rightarrow> nat \<Rightarrow> nat \<Rightarrow> bytes exec" where
  "slice_at data off len =
     (if off + len \<le> length data then ret (take len (drop off data)) else Abort BadIndex)"

definition DecodeFixed32 :: "bytes \<Rightarrow> nat \<Rightarrow> nat exec" where
  "DecodeFixed32 data off = bind_exec (slice_at data off 4) (\<lambda>bs. ret (nat (le_uint bs)))"

section \<open>Keys\<close>

text \<open>\<^verbatim>\<open>Slice::compare\<close>: the first byte that differs decides, then the length.\<close>

fun memcmp :: "bytes \<Rightarrow> bytes \<Rightarrow> nat \<Rightarrow> int" where
  "memcmp (a # as) (b # bs) (Suc n) = (if a = b then memcmp as bs n else if a < b then -1 else 1)"
| "memcmp as bs n = 0"

definition Slice_compare :: "bytes \<Rightarrow> bytes \<Rightarrow> int" where
  "Slice_compare a b =
     (let r = memcmp a b (if length a < length b then length a else length b)
      in if r = 0 then (if length a < length b then -1 else if length a > length b then 1 else 0) else r)"

fun difference_offset :: "bytes \<Rightarrow> bytes \<Rightarrow> nat" where
  "difference_offset (a # as) (b # bs) = (if a \<noteq> b then 0 else Suc (difference_offset as bs))"
| "difference_offset as bs = 0"

definition ExtractUserKey :: "bytes \<Rightarrow> bytes exec" where
  "ExtractUserKey k = (if \<not> length k \<ge> 8 then Abort AssertFailed else ret (take (length k - 8) k))"

definition InternalKey_Compare :: "bytes \<Rightarrow> bytes \<Rightarrow> int exec" where
  "InternalKey_Compare akey bkey =
     bind_exec (ExtractUserKey akey) (\<lambda>ua.
     bind_exec (ExtractUserKey bkey) (\<lambda>ub.
       let r = Slice_compare ua ub;
           anum = le_uint (drop (length akey - 8) akey);
           bnum = le_uint (drop (length bkey - 8) bkey)
       in ret (if r = 0 then (if anum > bnum then -1 else if anum < bnum then 1 else 0) else r)))"

section \<open>The block builder\<close>

datatype DataBlockIndexType = kDataBlockBinarySearch | kDataBlockBinaryAndHash

definition PackIndexTypeAndNumRestarts :: "DataBlockIndexType \<Rightarrow> 32 word \<Rightarrow> 32 word exec" where
  "PackIndexTypeAndNumRestarts index_type num_restarts =
     (if num_restarts > 0x7FFFFFFF then Abort AssertFailed
      else ret (case index_type of
                  kDataBlockBinaryAndHash \<Rightarrow> num_restarts OR push_bit 31 1
                | kDataBlockBinarySearch \<Rightarrow> num_restarts))"

definition UnPackIndexTypeAndNumRestarts :: "32 word \<Rightarrow> DataBlockIndexType \<times> 32 word" where
  "UnPackIndexTypeAndNumRestarts block_footer =
     (if block_footer AND push_bit 31 1 \<noteq> 0 then kDataBlockBinaryAndHash else kDataBlockBinarySearch,
      block_footer AND 0x7FFFFFFF)"

record BlockBuilder =
  block_restart_interval :: int
  use_delta_encoding :: bool
  use_value_delta_encoding :: bool
  block_buffer :: bytes
  restart_offsets :: "32 word list"
  counter :: int
  finished :: bool
  last_key :: bytes
  estimate :: nat

definition BlockBuilder_new :: "int \<Rightarrow> bool \<Rightarrow> bool \<Rightarrow> BlockBuilder exec" where
  "BlockBuilder_new interval delta value_delta =
     (if \<not> interval \<ge> 1 then Abort AssertFailed
      else ret \<lparr>block_restart_interval = interval, use_delta_encoding = delta,
                use_value_delta_encoding = value_delta, block_buffer = [], restart_offsets = [0],
                counter = 0, finished = False, last_key = [], estimate = 8\<rparr>)"

definition BlockBuilder_Reset :: "BlockBuilder \<Rightarrow> BlockBuilder exec" where
  "BlockBuilder_Reset b =
     (let rs = take 1 (restart_offsets b @ [0])
      in if rs ! 0 \<noteq> 0 then Abort AssertFailed
         else ret (b\<lparr>block_buffer := [], restart_offsets := rs, estimate := 8, counter := 0,
                     finished := False, last_key := []\<rparr>))"

definition AddWithLastKeyImpl ::
  "bytes \<Rightarrow> bytes \<Rightarrow> bytes \<Rightarrow> bytes option \<Rightarrow> nat \<Rightarrow> BlockBuilder \<Rightarrow> BlockBuilder exec" where
  "AddWithLastKeyImpl key val prev delta_value buffer_size b =
     (if finished b then Abort AssertFailed
      else if \<not> counter b \<le> block_restart_interval b then Abort AssertFailed
      else if use_value_delta_encoding b \<and> delta_value = None then Abort AssertFailed
      else
        let restart = counter b \<ge> block_restart_interval b;
            b = (if restart
                 then b\<lparr>restart_offsets := restart_offsets b @ [of_nat buffer_size],
                        estimate := estimate b + 4, counter := 0\<rparr> else b);
            shared = (if \<not> restart \<and> use_delta_encoding b then difference_offset key prev else 0);
            non_shared = length key - shared;
            sizes = (if use_value_delta_encoding b
                     then EncodeVarint32 (of_nat shared) @ EncodeVarint32 (of_nat non_shared)
                     else EncodeVarint32 (of_nat shared) @ EncodeVarint32 (of_nat non_shared)
                          @ EncodeVarint32 (of_nat (length val)));
            stored = (if shared \<noteq> 0 \<and> use_value_delta_encoding b
                      then (case delta_value of Some d \<Rightarrow> d | None \<Rightarrow> []) else val);
            buffer = block_buffer b @ sizes @ take non_shared (drop shared key) @ stored
        in ret (b\<lparr>block_buffer := buffer, counter := counter b + 1,
                  estimate := estimate b + (length buffer - buffer_size)\<rparr>))"

definition BlockBuilder_Add ::
  "bytes \<Rightarrow> bytes \<Rightarrow> bytes option \<Rightarrow> BlockBuilder \<Rightarrow> BlockBuilder exec" where
  "BlockBuilder_Add key val delta_value b =
     bind_exec (AddWithLastKeyImpl key val (last_key b) delta_value (length (block_buffer b)) b) (\<lambda>b.
       ret (if use_delta_encoding b then b\<lparr>last_key := key\<rparr> else b))"

text \<open>
  \<^verbatim>\<open>AddWithLastKey\<close>: the caller keeps the last key, which is cut to the length of the buffer, so
  that it is empty at the start of a block.
\<close>

definition BlockBuilder_AddWithLastKey ::
  "bytes \<Rightarrow> bytes \<Rightarrow> bytes \<Rightarrow> bytes option \<Rightarrow> BlockBuilder \<Rightarrow> BlockBuilder exec" where
  "BlockBuilder_AddWithLastKey key val last_key_param delta_value b =
     (let buffer_size = length (block_buffer b); last_key_size = length last_key_param in
      if last_key b \<noteq> [] then Abort AssertFailed
      else if \<not> (buffer_size = 0 \<or> buffer_size \<ge> last_key_size) then Abort AssertFailed
      else AddWithLastKeyImpl key val (take (min buffer_size last_key_size) last_key_param) delta_value buffer_size b)"

definition BlockBuilder_Finish :: "BlockBuilder \<Rightarrow> (bytes \<times> BlockBuilder) exec" where
  "BlockBuilder_Finish b =
     bind_exec (PackIndexTypeAndNumRestarts kDataBlockBinarySearch (of_nat (length (restart_offsets b))))
       (\<lambda>block_footer.
          let buffer = block_buffer b @ concat (map PutFixed32 (restart_offsets b)) @ PutFixed32 block_footer
          in ret (buffer, b\<lparr>block_buffer := buffer, finished := True\<rparr>))"

definition BlockBuilder_SwapAndReset :: "bytes \<Rightarrow> BlockBuilder \<Rightarrow> (bytes \<times> BlockBuilder) exec" where
  "BlockBuilder_SwapAndReset buffer b =
     bind_exec (BlockBuilder_Reset (b\<lparr>block_buffer := buffer\<rparr>)) (\<lambda>b'. ret (block_buffer b, b'))"

fun VarintLength :: "nat \<Rightarrow> nat" where
  "VarintLength v = (if v \<ge> 128 then VarintLength (v div 128) + 1 else 1)"

declare VarintLength.simps [simp del]

definition EstimateSizeAfterKV :: "bytes \<Rightarrow> bytes \<Rightarrow> BlockBuilder \<Rightarrow> nat" where
  "EstimateSizeAfterKV key val b =
     (let restart = counter b \<ge> block_restart_interval b;
          full = (\<not> use_value_delta_encoding b \<or> restart)
      in estimate b + length key + (if full then length val else length val div 2)
         + (if restart then 4 else 0) + 4 + VarintLength (length key)
         + (if full then VarintLength (length val) else 0))"

text \<open>
  The table builder on its data blocks: entries are added with the last key of the table, and a
  full block is finished and swapped out. Where a block ends is the choice of the flush policy: the
  entries come as a list of blocks.
\<close>

definition add_to_data_block :: "entry \<Rightarrow> bytes \<times> BlockBuilder \<Rightarrow> (bytes \<times> BlockBuilder) exec" where
  "add_to_data_block e r =
     bind_exec (BlockBuilder_AddWithLastKey (fst e) (snd e) (fst r) None (snd r)) (\<lambda>b. ret (fst e, b))"

definition write_data_block :: "BlockBuilder \<Rightarrow> (bytes \<times> BlockBuilder) exec" where
  "write_data_block b = bind_exec (BlockBuilder_Finish b) (\<lambda>(contents, b). BlockBuilder_SwapAndReset [] b)"

fun write_data_blocks :: "entry list list \<Rightarrow> bytes \<times> BlockBuilder \<Rightarrow> bytes list exec" where
  "write_data_blocks [] r = ret []"
| "write_data_blocks (es # blocks) r =
     bind_exec (fold_exec add_to_data_block es r) (\<lambda>(last_key, b).
     bind_exec (write_data_block b) (\<lambda>(contents, b).
     bind_exec (write_data_blocks blocks (last_key, b)) (\<lambda>rest. ret (contents # rest))))"

text \<open>A block on its own, from the entries with \<^verbatim>\<open>Add\<close>.\<close>

definition build_block :: "int \<Rightarrow> bool \<Rightarrow> entry list \<Rightarrow> bytes exec" where
  "build_block interval delta es =
     bind_exec (BlockBuilder_new interval delta False) (\<lambda>b.
     bind_exec (fold_exec (\<lambda>(k, v). BlockBuilder_Add k v None) es b) (\<lambda>b.
     bind_exec (BlockBuilder_Finish b) (\<lambda>(contents, b). ret contents)))"

section \<open>Blocks\<close>

record DataBlock =
  block_data :: bytes
  block_size_of :: nat
  restart_offset :: "32 word"
  num_restarts :: "32 word"

definition NumRestarts :: "bytes \<Rightarrow> nat \<Rightarrow> 32 word exec" where
  "NumRestarts data sz =
     (if \<not> sz \<ge> 8 then Abort AssertFailed
      else bind_exec (DecodeFixed32 data (sz - 4)) (\<lambda>block_footer.
        if sz > 2 ^ 16 then ret (of_nat block_footer)
        else ret (snd (UnPackIndexTypeAndNumRestarts (of_nat block_footer)))))"

definition IndexType :: "bytes \<Rightarrow> nat \<Rightarrow> DataBlockIndexType exec" where
  "IndexType data sz =
     (if \<not> sz \<ge> 8 then Abort AssertFailed
      else if sz > 2 ^ 16 then ret kDataBlockBinarySearch
      else bind_exec (DecodeFixed32 data (sz - 4)) (\<lambda>block_footer.
        ret (fst (UnPackIndexTypeAndNumRestarts (of_nat block_footer)))))"

text \<open>\<^verbatim>\<open>size_ = 0\<close> marks a block that cannot be read.\<close>

definition Block_new :: "bytes \<Rightarrow> DataBlock exec" where
  "Block_new contents =
     (let sz = length contents in
      if sz < 4
      then ret \<lparr>block_data = contents, block_size_of = 0, restart_offset = 0, num_restarts = 0\<rparr>
      else bind_exec (NumRestarts contents sz) (\<lambda>n.
           bind_exec (IndexType contents sz) (\<lambda>index_type.
             case index_type of
               kDataBlockBinarySearch \<Rightarrow>
                 let ro = of_nat sz - (1 + n) * 4
                 in ret \<lparr>block_data = contents,
                         block_size_of = (if unat ro > sz - 4 then 0 else sz),
                         restart_offset = ro, num_restarts = n\<rparr>
             | kDataBlockBinaryAndHash \<Rightarrow> Abort NotModelled)))"

section \<open>The iterator over a block\<close>

text \<open>
  \<open>val_slice\<close> is \<^verbatim>\<open>value_\<close>, offset and size; \<open>None\<close> is the slice after \<^verbatim>\<open>clear()\<close>, which points
  outside the block.
\<close>

record BlockIter =
  iter_data :: "bytes option"
  restarts :: nat
  iter_restarts :: nat
  current :: nat
  restart_index :: nat
  raw_key :: bytes
  val_slice :: "(nat \<times> nat) option"
  status_ok :: bool

definition DataBlockIter_new :: BlockIter where
  "DataBlockIter_new =
     \<lparr>iter_data = None, restarts = 0, iter_restarts = 0, current = 0, restart_index = 0,
      raw_key = [], val_slice = None, status_ok = True\<rparr>"

definition Invalidate :: "bool \<Rightarrow> BlockIter \<Rightarrow> BlockIter" where
  "Invalidate ok it = it\<lparr>iter_data := None, current := restarts it, status_ok := ok\<rparr>"

definition InitializeBase :: "bytes \<Rightarrow> nat \<Rightarrow> nat \<Rightarrow> BlockIter \<Rightarrow> BlockIter exec" where
  "InitializeBase data rs n it =
     (if iter_data it \<noteq> None \<or> \<not> n > 0 then Abort AssertFailed
      else ret (it\<lparr>iter_data := Some data, restarts := rs, iter_restarts := n, current := rs,
                   restart_index := n\<rparr>))"

definition KetiNewDataIterator :: "DataBlock \<Rightarrow> BlockIter exec" where
  "KetiNewDataIterator b =
     (if block_size_of b < 8 then ret (Invalidate False DataBlockIter_new)
      else if num_restarts b = 0 then ret (Invalidate True DataBlockIter_new)
      else InitializeBase (block_data b) (unat (restart_offset b)) (unat (num_restarts b)) DataBlockIter_new)"

text \<open>\<^verbatim>\<open>KetiNewDataBlockIterator\<close> on contents that were read: the block and its iterator.\<close>

definition KetiInitBlockIterator :: "bytes \<Rightarrow> BlockIter exec" where
  "KetiInitBlockIterator contents = bind_exec (Block_new contents) KetiNewDataIterator"

definition BlockIter_Valid :: "BlockIter \<Rightarrow> bool" where
  "BlockIter_Valid it \<longleftrightarrow> current it < restarts it"

definition the_data :: "BlockIter \<Rightarrow> bytes exec" where
  "the_data it = (case iter_data it of None \<Rightarrow> Abort NullPointer | Some data \<Rightarrow> ret data)"

definition BlockIter_entry :: "BlockIter \<Rightarrow> entry exec" where
  "BlockIter_entry it =
     (if \<not> BlockIter_Valid it then Abort AssertFailed
      else bind_exec (the_data it) (\<lambda>data.
        case val_slice it of None \<Rightarrow> Abort BadIndex
        | Some (off, len) \<Rightarrow> bind_exec (slice_at data off len) (\<lambda>v. ret (raw_key it, v))))"

definition NextEntryOffset :: "BlockIter \<Rightarrow> nat exec" where
  "NextEntryOffset it =
     (case val_slice it of None \<Rightarrow> Abort BadIndex | Some (off, len) \<Rightarrow> ret ((off + len) mod 2 ^ 32))"

definition GetRestartPoint :: "BlockIter \<Rightarrow> nat \<Rightarrow> nat exec" where
  "GetRestartPoint it index =
     (if \<not> index < iter_restarts it then Abort AssertFailed
      else bind_exec (the_data it) (\<lambda>data. DecodeFixed32 data (restarts it + index * 4)))"

definition SeekToRestartPoint :: "nat \<Rightarrow> BlockIter \<Rightarrow> BlockIter exec" where
  "SeekToRestartPoint index it =
     bind_exec (GetRestartPoint it index) (\<lambda>offset.
       ret (it\<lparr>raw_key := [], restart_index := index, val_slice := Some (offset, 0)\<rparr>))"

definition CorruptionError :: "BlockIter \<Rightarrow> BlockIter" where
  "CorruptionError it =
     it\<lparr>current := restarts it, restart_index := iter_restarts it, status_ok := False,
        raw_key := [], val_slice := None\<rparr>"

text \<open>The lengths of an entry and the bytes behind them; \<open>None\<close> is the null pointer.\<close>

definition DecodeEntry :: "bytes \<Rightarrow> (32 word \<times> 32 word \<times> 32 word \<times> bytes) option exec" where
  "DecodeEntry p =
     (if \<not> length p \<ge> 3 then Abort AssertFailed
      else
        let decoded =
          (if (p ! 0 OR p ! 1 OR p ! 2) < 128
           then Some (ucast (p ! 0), ucast (p ! 1), ucast (p ! 2), drop 3 p)
           else case GetVarint32Ptr p of None \<Rightarrow> None
             | Some (shared, p) \<Rightarrow> (case GetVarint32Ptr p of None \<Rightarrow> None
               | Some (non_shared, p) \<Rightarrow> (case GetVarint32Ptr p of None \<Rightarrow> None
                 | Some (value_length, p) \<Rightarrow> Some (shared, non_shared, value_length, p))))
        in case decoded of None \<Rightarrow> ret None
           | Some (shared, non_shared, value_length, p) \<Rightarrow>
               if (of_nat (length p) :: 32 word) < non_shared + value_length then Abort AssertFailed
               else ret (Some (shared, non_shared, value_length, p)))"

function skip_restarts :: "BlockIter \<Rightarrow> BlockIter exec" where
  "skip_restarts it =
     (if restart_index it + 1 < iter_restarts it
      then bind_exec (GetRestartPoint it (restart_index it + 1)) (\<lambda>offset.
        if offset < current it then skip_restarts (it\<lparr>restart_index := restart_index it + 1\<rparr>) else ret it)
      else ret it)"
  by pat_completeness auto

termination
  by (relation "measure (\<lambda>it. iter_restarts it - restart_index it)") auto

declare skip_restarts.simps [simp del]

text \<open>\<^verbatim>\<open>ParseNextKey<DecodeEntry>\<close>; the limit is the restart array.\<close>

definition ParseNextKey :: "BlockIter \<Rightarrow> (bool \<times> BlockIter) exec" where
  "ParseNextKey it =
     bind_exec (NextEntryOffset it) (\<lambda>cur.
     let it = it\<lparr>current := cur\<rparr> in
     if cur \<ge> restarts it
     then ret (False, it\<lparr>current := restarts it, restart_index := iter_restarts it\<rparr>)
     else bind_exec (the_data it) (\<lambda>data.
          bind_exec (slice_at data cur (restarts it - cur)) (\<lambda>p.
          bind_exec (DecodeEntry p) (\<lambda>decoded.
          case decoded of None \<Rightarrow> ret (False, CorruptionError it)
          | Some (shared, non_shared, value_length, p) \<Rightarrow>
              if length (raw_key it) < unat shared then ret (False, CorruptionError it)
              else
                let off = restarts it - length p in
                bind_exec (slice_at data off (unat non_shared)) (\<lambda>delta.
                let it = it\<lparr>raw_key := (if shared = 0 then delta else take (unat shared) (raw_key it) @ delta),
                            val_slice := Some (off + unat non_shared, unat value_length)\<rparr>
                in bind_exec (if shared = 0 then skip_restarts it else ret it) (\<lambda>it. ret (True, it)))))))"

definition NextImpl :: "BlockIter \<Rightarrow> BlockIter exec" where
  "NextImpl it = bind_exec (ParseNextKey it) (\<lambda>(parsed, it). ret it)"

definition SeekToFirstImpl :: "BlockIter \<Rightarrow> BlockIter exec" where
  "SeekToFirstImpl it =
     (if iter_data it = None then ret it
      else bind_exec (SeekToRestartPoint 0 it) NextImpl)"

definition CompareCurrentKey :: "BlockIter \<Rightarrow> bytes \<Rightarrow> int exec" where
  "CompareCurrentKey it other = InternalKey_Compare (raw_key it) other"

text \<open>
  \<^verbatim>\<open>while (left != right)\<close> of \<^verbatim>\<open>BinarySeek\<close>: \<open>left\<close> never passes \<open>right\<close>. The result is \<open>None\<close>
  for a corrupt block, and otherwise the index and whether the linear scan is skipped.
\<close>

function binary_loop ::
  "bytes \<Rightarrow> int \<Rightarrow> int \<Rightarrow> bool \<Rightarrow> BlockIter \<Rightarrow> ((nat \<times> bool) option \<times> BlockIter) exec" where
  "binary_loop target left right skip it =
     (if left < right
      then
        let mid = left + (right - left + 1) div 2 in
        bind_exec (GetRestartPoint it (nat mid)) (\<lambda>region_offset.
        bind_exec (the_data it) (\<lambda>data.
        bind_exec (if restarts it < region_offset then Abort AssertFailed
                   else slice_at data region_offset (restarts it - region_offset)) (\<lambda>p.
        bind_exec (DecodeEntry p) (\<lambda>decoded.
        case decoded of None \<Rightarrow> ret (None, CorruptionError it)
        | Some (shared, non_shared, value_length, p) \<Rightarrow>
            if shared \<noteq> 0 then ret (None, CorruptionError it)
            else
              bind_exec (slice_at data (restarts it - length p) (unat non_shared)) (\<lambda>mid_key.
              let it = it\<lparr>raw_key := mid_key\<rparr> in
              bind_exec (CompareCurrentKey it target) (\<lambda>cmp.
                if cmp < 0 then binary_loop target mid right skip it
                else if cmp > 0 then binary_loop target left (mid - 1) skip it
                else binary_loop target mid mid True it))))))
      else ret (Some (if left = -1 then (0, True) else (nat left, skip)), it))"
  by pat_completeness auto

termination
  by (relation "measure (\<lambda>(target, left, right, skip, it). nat (right - left))") auto

declare binary_loop.simps [simp del]

definition BinarySeek :: "bytes \<Rightarrow> BlockIter \<Rightarrow> ((nat \<times> bool) option \<times> BlockIter) exec" where
  "BinarySeek target it =
     (if restarts it = 0 then ret (None, it)
      else binary_loop target (-1) (int (iter_restarts it) - 1) False it)"

text \<open>The linear search within a restart interval; \<open>None\<close> is a search without end.\<close>

partial_function (option) linear_loop :: "bytes \<Rightarrow> nat \<Rightarrow> BlockIter \<Rightarrow> BlockIter exec option" where
  "linear_loop target max_offset it =
     (case NextImpl it of
        Abort e \<Rightarrow> Some (Abort e)
      | Done it l \<Rightarrow>
          if \<not> BlockIter_Valid it then Some (Done it l)
          else case CompareCurrentKey it target of
              Abort e \<Rightarrow> Some (Abort e)
            | Done cmp l' \<Rightarrow>
                if current it = max_offset
                then Some (if cmp > 0 then Done it (l @ l') else Abort AssertFailed)
                else if cmp \<ge> 0 then Some (Done it (l @ l'))
                else Option.bind (linear_loop target max_offset it) (\<lambda>m. Some (bind_exec (flag (l @ l')) (\<lambda>u. m))))"

definition FindKeyAfterBinarySeek :: "bytes \<Rightarrow> nat \<Rightarrow> bool \<Rightarrow> BlockIter \<Rightarrow> BlockIter exec" where
  "FindKeyAfterBinarySeek target index skip_linear_scan it =
     bind_exec (SeekToRestartPoint index it) (\<lambda>it.
     bind_exec (NextImpl it) (\<lambda>it.
       if skip_linear_scan then ret it
       else bind_exec (if index + 1 < iter_restarts it then GetRestartPoint it (index + 1) else ret (2 ^ 32 - 1))
         (\<lambda>max_offset. case linear_loop target max_offset it of None \<Rightarrow> Abort NoReturn | Some m \<Rightarrow> m)))"

definition SeekImpl :: "bytes \<Rightarrow> BlockIter \<Rightarrow> BlockIter exec" where
  "SeekImpl target it =
     (if iter_data it = None then ret it
      else bind_exec (BinarySeek target it) (\<lambda>(found, it).
        case found of None \<Rightarrow> ret it
        | Some (index, skip) \<Rightarrow> FindKeyAfterBinarySeek target index skip it))"

text \<open>\<^verbatim>\<open>for (; it->Valid(); it->Next())\<close> with the entries it sees, at most \<open>n\<close> of them.\<close>

primrec walk_entries :: "('i \<Rightarrow> 'i exec) \<Rightarrow> ('i \<Rightarrow> bool) \<Rightarrow> ('i \<Rightarrow> entry exec) \<Rightarrow> nat \<Rightarrow> 'i \<Rightarrow> entry list exec" where
  "walk_entries step valid cur 0 i = ret []"
| "walk_entries step valid cur (Suc n) i =
     (if valid i then bind_exec (cur i) (\<lambda>e. bind_exec (step i) (\<lambda>i.
        bind_exec (walk_entries step valid cur n i) (\<lambda>es. ret (e # es)))) else ret [])"

text \<open>A block opened, positioned and read to its end.\<close>

definition entries_from :: "(BlockIter \<Rightarrow> BlockIter exec) \<Rightarrow> nat \<Rightarrow> bytes \<Rightarrow> entry list exec" where
  "entries_from position n contents =
     bind_exec (KetiInitBlockIterator contents) (\<lambda>it.
     bind_exec (position it) (walk_entries NextImpl BlockIter_Valid BlockIter_entry n))"

section \<open>Blocks on the device\<close>

text \<open>
  \<^verbatim>\<open>PbaBlockFetcher\<close>: the parts of a block are read one behind the other into
  \<^verbatim>\<open>char internal_buf[5000]\<close>; the contents are the block without its five bytes of trailer. The
  device is the bytes it holds; \<open>None\<close> is a device that cannot be opened, where every \<^verbatim>\<open>read\<close>
  returns -1. \<^verbatim>\<open>read\<close> stops at the end of the device.
\<close>

definition read_part :: "bytes option \<Rightarrow> nat \<Rightarrow> nat \<Rightarrow> bytes option" where
  "read_part dev off len = map_option (\<lambda>d. take len (drop off d)) dev"

fun fetch_parts :: "bytes option \<Rightarrow> nat list \<Rightarrow> nat list \<Rightarrow> bytes \<Rightarrow> nat \<Rightarrow> (bytes \<times> nat) exec" where
  "fetch_parts dev [] sizes internal_buf got = ret (internal_buf, got)"
| "fetch_parts dev (off # offs) [] internal_buf got = Abort BadIndex"
| "fetch_parts dev (off # offs) (len # lens) internal_buf got =
     (case read_part dev off len of
        None \<Rightarrow> fetch_parts dev offs lens internal_buf ((got + (2 ^ 64 - 1)) mod 2 ^ 64)
      | Some part \<Rightarrow> bind_exec (memcpy_into internal_buf (int got) part) (\<lambda>buf.
          fetch_parts dev offs lens buf ((got + length part) mod 2 ^ 64)))"

definition ReadBlockContentsByPBA :: "bytes option \<Rightarrow> nat list \<Rightarrow> nat list \<Rightarrow> bytes exec" where
  "ReadBlockContentsByPBA dev block_offset block_size =
     (let block_size_with_trailer = sum_list block_size mod 2 ^ 64;
          contents_size = (block_size_with_trailer + (2 ^ 64 - 5)) mod 2 ^ 64
      in bind_exec (fetch_parts dev block_offset block_size (replicate 5000 0) 0) (\<lambda>(internal_buf, got).
           Done (take contents_size internal_buf)
             (if contents_size > 5000 then [Overread (contents_size - 5000)] else [])))"

end
