(* ===== verification/Db_Iter.thy ===== *)
theory Db_Iter
  imports Block_Format
begin

text \<open>
  The iterator the scan is given, \<^verbatim>\<open>DBIter\<close> over the iterator of a block as \<^verbatim>\<open>SstBlockReader\<close> sets it
  up: it turns internal keys (user key, sequence number, type) into user keys, newest visible
  version first, and hides deleted ones. The options are those of the reader: no bounds, prefix,
  timestamps, range deletions, read callback or merge operator; a blob index is passed on as it is.
  Forward direction only.
\<close>

section \<open>Internal keys\<close>

text \<open>The types of a table; the other codes of \<^verbatim>\<open>ValueType\<close> occur in the log only and are refused by
  \<^verbatim>\<open>IsExtendedValueType\<close>.\<close>

datatype ValueType =
  kTypeDeletion | kTypeValue | kTypeMerge | kTypeSingleDeletion | kTypeRangeDeletion | kTypeBlobIndex
  | kTypeDeletionWithTimestamp

fun type_code :: "ValueType \<Rightarrow> nat" where
  "type_code kTypeDeletion = 0x0"
| "type_code kTypeValue = 0x1"
| "type_code kTypeMerge = 0x2"
| "type_code kTypeSingleDeletion = 0x7"
| "type_code kTypeRangeDeletion = 0xF"
| "type_code kTypeBlobIndex = 0x11"
| "type_code kTypeDeletionWithTimestamp = 0x14"

text \<open>The types \<^verbatim>\<open>IsExtendedValueType\<close> accepts.\<close>

definition value_type_of_code :: "nat \<Rightarrow> ValueType option" where
  "value_type_of_code c =
     (if c = 0x0 then Some kTypeDeletion else if c = 0x1 then Some kTypeValue
      else if c = 0x2 then Some kTypeMerge else if c = 0x7 then Some kTypeSingleDeletion
      else if c = 0xF then Some kTypeRangeDeletion else if c = 0x11 then Some kTypeBlobIndex
      else if c = 0x14 then Some kTypeDeletionWithTimestamp else None)"

definition kMaxSequenceNumber :: nat where
  "kMaxSequenceNumber = 2 ^ 56 - 1"

definition PackSequenceAndType :: "nat \<Rightarrow> ValueType \<Rightarrow> nat exec" where
  "PackSequenceAndType seq t =
     (if \<not> seq \<le> kMaxSequenceNumber then Abort AssertFailed else ret (seq * 256 + type_code t))"

definition AppendInternalKey :: "bytes \<Rightarrow> nat \<Rightarrow> ValueType \<Rightarrow> bytes exec" where
  "AppendInternalKey user_key seq t =
     bind_exec (PackSequenceAndType seq t) (\<lambda>packed. ret (user_key @ le_bytes 8 (int packed)))"

text \<open>\<open>None\<close> is \<^verbatim>\<open>Status::Corruption\<close>.\<close>

definition ParseInternalKey :: "bytes \<Rightarrow> (bytes \<times> nat \<times> ValueType) option exec" where
  "ParseInternalKey internal_key =
     (let n = length internal_key in
      if n < 8 then ret None
      else
        let num = nat (le_uint (drop (n - 8) internal_key)); c = num mod 256
        in if \<not> c \<le> 0x7F then Abort AssertFailed
           else ret (map_option (\<lambda>t. (take (n - 8) internal_key, num div 256, t)) (value_type_of_code c)))"

section \<open>The iterator\<close>

record DBIter =
  inner :: BlockIter
  db_sequence :: nat
  max_skip :: nat
  max_skippable_internal_keys :: nat
  num_internal_keys_skipped :: nat
  saved_key :: bytes
  db_valid :: bool
  db_ok :: bool
  current_entry_is_merged :: bool
  is_key_seqnum_zero :: bool

text \<open>\<^verbatim>\<open>SstBlockReader::NewIterator\<close> with default read options.\<close>

definition DBIter_new :: "BlockIter \<Rightarrow> DBIter" where
  "DBIter_new it =
     \<lparr>inner = it, db_sequence = kMaxSequenceNumber, max_skip = 8, max_skippable_internal_keys = 0,
      num_internal_keys_skipped = 0, saved_key = [], db_valid = False, db_ok = True,
      current_entry_is_merged = False, is_key_seqnum_zero = False\<rparr>"

definition inner_key :: "DBIter \<Rightarrow> bytes exec" where
  "inner_key db = (if \<not> BlockIter_Valid (inner db) then Abort AssertFailed else ret (raw_key (inner db)))"

definition IsVisible :: "DBIter \<Rightarrow> nat \<Rightarrow> bool" where
  "IsVisible db seq \<longleftrightarrow> seq \<le> db_sequence db"

definition TooManyInternalKeysSkipped :: "DBIter \<Rightarrow> bool \<times> DBIter" where
  "TooManyInternalKeysSkipped db =
     (if max_skippable_internal_keys db > 0 \<and> num_internal_keys_skipped db > max_skippable_internal_keys db
      then (True, db\<lparr>db_valid := False, db_ok := False\<rparr>)
      else (False, db\<lparr>num_internal_keys_skipped := num_internal_keys_skipped db + 1\<rparr>))"

text \<open>\<^verbatim>\<open>MergeValuesNewToOld\<close> without a merge operator.\<close>

definition MergeValuesNewToOld :: "DBIter \<Rightarrow> bool \<times> DBIter" where
  "MergeValuesNewToOld db = (False, db\<lparr>db_ok := False, db_valid := False\<rparr>)"

text \<open>
  One turn of the loop of \<^verbatim>\<open>FindNextUserEntryInternal\<close>. The scalar variables of the loop are
  \<open>skipping_saved_key\<close>, \<open>num_skipped\<close> and \<open>reseek_done\<close>. \<open>find_entry\<close> looks at the current entry and
  returns (\<open>Inl\<close>) or goes on with them; \<open>find_advance\<close> moves the inner iterator.
\<close>

type_synonym skip_state = "bool \<times> nat \<times> bool \<times> DBIter"

definition find_visible :: "bytes \<Rightarrow> ValueType \<Rightarrow> skip_state \<Rightarrow> (bool \<times> DBIter) + skip_state" where
  "find_visible user_key t s =
     (case s of (skipping, num_skipped, reseek_done, db) \<Rightarrow>
        let kept = db\<lparr>saved_key := user_key\<rparr> in
        case t of
          kTypeDeletion \<Rightarrow> Inr (True, 0, False, kept)
        | kTypeDeletionWithTimestamp \<Rightarrow> Inr (True, 0, False, kept)
        | kTypeSingleDeletion \<Rightarrow> Inr (True, 0, False, kept)
        | kTypeValue \<Rightarrow> Inl (True, kept\<lparr>db_valid := True\<rparr>)
        | kTypeBlobIndex \<Rightarrow> Inl (True, kept\<lparr>db_valid := True\<rparr>)
        | kTypeMerge \<Rightarrow> Inl (MergeValuesNewToOld (kept\<lparr>current_entry_is_merged := True, db_valid := True\<rparr>))
        | kTypeRangeDeletion \<Rightarrow> Inl (False, db\<lparr>db_valid := False, db_ok := False\<rparr>))"

definition find_entry :: "skip_state \<Rightarrow> ((bool \<times> DBIter) + skip_state) exec" where
  "find_entry s =
     (case s of (skipping, num_skipped, reseek_done, db) \<Rightarrow>
        let prev_zero = is_key_seqnum_zero db in
        bind_exec (inner_key db) (\<lambda>k.
        bind_exec (ParseInternalKey k) (\<lambda>parsed.
        case parsed of
          None \<Rightarrow> ret (Inl (False, db\<lparr>db_ok := False, db_valid := False, is_key_seqnum_zero := False\<rparr>))
        | Some (user_key, seq, t) \<Rightarrow>
            let (too_many, db) = TooManyInternalKeysSkipped (db\<lparr>is_key_seqnum_zero := (seq = 0)\<rparr>) in
            if too_many then ret (Inl (False, db))
            else if IsVisible db seq
            then
              if \<not> prev_zero \<and> skipping \<and> Slice_compare user_key (saved_key db) \<le> 0
              then ret (Inr (skipping, num_skipped + 1, reseek_done, db))
              else if skipping \<and> \<not> Slice_compare user_key (saved_key db) > 0 then Abort AssertFailed
              else ret (find_visible user_key t (skipping, num_skipped, reseek_done, db))
            else
              let cmp = Slice_compare user_key (saved_key db) in
              if cmp = 0 \<or> skipping \<and> cmp < 0
              then ret (Inr (skipping, num_skipped + 1, reseek_done, db))
              else ret (Inr (False, 0, False, db\<lparr>saved_key := user_key\<rparr>)))))"

definition find_advance :: "skip_state \<Rightarrow> skip_state exec" where
  "find_advance s =
     (case s of (skipping, num_skipped, reseek_done, db) \<Rightarrow>
        if num_skipped > max_skip db \<and> \<not> reseek_done
        then
          bind_exec (if skipping then AppendInternalKey (saved_key db) 0 kTypeDeletion
                     else AppendInternalKey (saved_key db) (db_sequence db) kTypeDeletionWithTimestamp) (\<lambda>key.
          bind_exec (SeekImpl key (inner db)) (\<lambda>it.
            ret (skipping, 0, True, db\<lparr>is_key_seqnum_zero := False, inner := it\<rparr>)))
        else bind_exec (NextImpl (inner db)) (\<lambda>it. ret (skipping, num_skipped, reseek_done, db\<lparr>inner := it\<rparr>)))"

definition find_turn :: "skip_state \<Rightarrow> ((bool \<times> DBIter) + skip_state) exec" where
  "find_turn s =
     bind_exec (find_entry s) (\<lambda>r. case r of Inl result \<Rightarrow> ret (Inl result)
     | Inr s \<Rightarrow> bind_exec (find_advance s) (\<lambda>(skipping, num_skipped, reseek_done, db).
         ret (if BlockIter_Valid (inner db) then Inr (skipping, num_skipped, reseek_done, db)
              else Inl (status_ok (inner db), db\<lparr>db_valid := False\<rparr>))))"

partial_function (option) find_loop :: "skip_state \<Rightarrow> (bool \<times> DBIter) exec option" where
  "find_loop s =
     (case find_turn s of
        Abort e \<Rightarrow> Some (Abort e)
      | Done r l \<Rightarrow> (case r of
            Inl result \<Rightarrow> Some (Done result l)
          | Inr s' \<Rightarrow> Option.bind (find_loop s') (\<lambda>m. Some (bind_exec (flag l) (\<lambda>u. m)))))"

definition FindNextUserEntryInternal :: "bool \<Rightarrow> DBIter \<Rightarrow> (bool \<times> DBIter) exec" where
  "FindNextUserEntryInternal skipping db =
     (if \<not> BlockIter_Valid (inner db) \<or> \<not> db_ok db then Abort AssertFailed
      else case find_loop (skipping, 0, False, db\<lparr>current_entry_is_merged := False\<rparr>) of
          None \<Rightarrow> Abort NoReturn | Some m \<Rightarrow> m)"

definition DBIter_Next :: "DBIter \<Rightarrow> DBIter exec" where
  "DBIter_Next db =
     (if \<not> db_valid db \<or> \<not> db_ok db then Abort AssertFailed
      else
        bind_exec (if current_entry_is_merged db then ret (db\<lparr>num_internal_keys_skipped := 0\<rparr>)
                   else if \<not> BlockIter_Valid (inner db) then Abort AssertFailed
                   else bind_exec (NextImpl (inner db)) (\<lambda>it. ret (db\<lparr>num_internal_keys_skipped := 0, inner := it\<rparr>))) (\<lambda>db.
        if BlockIter_Valid (inner db)
        then bind_exec (FindNextUserEntryInternal True db) (\<lambda>(found, db). ret db)
        else ret (db\<lparr>is_key_seqnum_zero := False, db_valid := False\<rparr>)))"

definition DBIter_Seek :: "bytes \<Rightarrow> DBIter \<Rightarrow> DBIter exec" where
  "DBIter_Seek target db =
     bind_exec (AppendInternalKey target (db_sequence db) kTypeDeletionWithTimestamp) (\<lambda>key.
     bind_exec (SeekImpl key (inner db)) (\<lambda>it.
       let db = db\<lparr>db_ok := True, num_internal_keys_skipped := 0, is_key_seqnum_zero := False,
                   saved_key := target, inner := it\<rparr> in
       if \<not> BlockIter_Valid it then ret (db\<lparr>db_valid := False\<rparr>)
       else bind_exec (FindNextUserEntryInternal False db) (\<lambda>(found, db). ret db)))"

definition DBIter_SeekToFirst :: "DBIter \<Rightarrow> DBIter exec" where
  "DBIter_SeekToFirst db =
     bind_exec (SeekToFirstImpl (inner db)) (\<lambda>it.
       let db = db\<lparr>db_ok := True, num_internal_keys_skipped := 0, is_key_seqnum_zero := False, inner := it\<rparr> in
       if BlockIter_Valid it
       then bind_exec (ExtractUserKey (raw_key it)) (\<lambda>user_key.
            bind_exec (FindNextUserEntryInternal False (db\<lparr>saved_key := user_key\<rparr>)) (\<lambda>(found, db). ret db))
       else ret (db\<lparr>db_valid := False\<rparr>))"

definition DBIter_entry :: "DBIter \<Rightarrow> entry exec" where
  "DBIter_entry db =
     (if \<not> db_valid db then Abort AssertFailed
      else if current_entry_is_merged db then Abort NotModelled
      else bind_exec (BlockIter_entry (inner db)) (\<lambda>e. ret (saved_key db, snd e)))"

definition DBIter_status_ok :: "DBIter \<Rightarrow> bool" where
  "DBIter_status_ok db \<longleftrightarrow> db_ok db \<and> status_ok (inner db)"

text \<open>
  A block opened at its places on the device and read through the user-key iterator
  (\<^verbatim>\<open>SstBlockReader::Open\<close>, \<^verbatim>\<open>NewIterator\<close>); the numbers become \<^verbatim>\<open>size_t\<close>. The contents are a slice
  of \<^verbatim>\<open>internal_buf\<close>, a member of the fetcher that \<^verbatim>\<open>ReadBlockFromFileByPBA\<close> has on its stack: the
  block is parsed and iterated after that function has returned. What the bytes of the dead buffer
  then hold is not up to this code, so it is a parameter: \<open>left_over contents\<close> is what is found there.
\<close>

definition SstBlockReader_open :: "(bytes \<Rightarrow> bytes) \<Rightarrow> bytes option \<Rightarrow> int list \<Rightarrow> int list \<Rightarrow> DBIter exec" where
  "SstBlockReader_open left_over dev offs sizes =
     bind_exec (ReadBlockContentsByPBA dev (map (\<lambda>x. nat (x mod 2 ^ 64)) offs) (map (\<lambda>x. nat (x mod 2 ^ 64)) sizes)) (\<lambda>contents.
     bind_exec (KetiInitBlockIterator (left_over contents)) (\<lambda>it. ret (DBIter_new it)))"

definition user_entries_from :: "(DBIter \<Rightarrow> DBIter exec) \<Rightarrow> nat \<Rightarrow> DBIter \<Rightarrow> entry list exec" where
  "user_entries_from position n db =
     bind_exec (position db) (walk_entries DBIter_Next db_valid DBIter_entry n)"

end
