(* ===== verification/Block_Coding.thy ===== *)
theory Block_Coding
  imports Block_Format
begin

text \<open>
  Laws of the codings a block is made of: a variable-length integer reads back with the bytes behind
  it, the fast path of \<^verbatim>\<open>DecodeEntry\<close> agrees with the general one, and the comparison of internal
  keys is a strict total order.
\<close>

section \<open>Variable-length integers\<close>


lemma unat_exp: "k < 32 \<Longrightarrow> unat (2 ^ k :: 32 word) = 2 ^ k"
proof -
  assume "k < 32"
  then have "(2 :: nat) ^ k < 2 ^ 32" by (intro power_strict_increasing) simp_all
  then show ?thesis using unat_of_nat [of "2 ^ k", where 'a = 32] by simp
qed

lemma small_word_bits:
  fixes v :: "32 word"
  assumes "v < 2 ^ k" "k < 32" "k \<le> n"
  shows "\<not> bit v n"
proof
  assume "bit v n"
  then have n: "n < 32" using bit_imp_le_length [of v n] by simp
  have "unat v < 2 ^ k" using assms(1,2) by (simp add: word_less_nat_alt unat_exp)
  then have "take_bit k (unat v) = unat v" by (simp add: take_bit_nat_eq_self)
  then have "bit (unat v) n \<longleftrightarrow> n < k \<and> bit (unat v) n" by (metis bit_take_bit_iff)
  moreover have "bit (unat v) n" using \<open>bit v n\<close> by (simp add: bit_unsigned_iff)
  ultimately show False using assms by simp
qed

lemma mask_bits: "bit (127 :: int) n \<longleftrightarrow> n < 7" "bit (128 :: int) n \<longleftrightarrow> n = 7"
proof -
  have m: "(127 :: int) = mask 7" "(128 :: int) = 2 ^ 7" by (simp_all add: mask_eq_exp_minus_1)
  show "bit (127 :: int) n \<longleftrightarrow> n < 7" by (simp only: m bit_mask_iff) simp
  show "bit (128 :: int) n \<longleftrightarrow> n = 7" by (simp only: m bit_exp_iff) auto
qed

lemma continuation_set: "(ucast (ucast (w OR 128 :: 32 word) :: 8 word) :: 32 word) AND 128 \<noteq> 0"
proof -
  have "bit ((ucast (ucast (w OR 128 :: 32 word) :: 8 word) :: 32 word) AND 128) 7"
    by (simp add: mask_bits bit_simps)
  then show ?thesis by auto
qed

lemma continuation_clear:
  fixes w :: "32 word"
  assumes "w < 2 ^ 7"
  shows "(ucast (ucast w :: 8 word) :: 32 word) = w" "w AND 128 = 0"
proof -
  note b = small_word_bits [OF assms]
  show "(ucast (ucast w :: 8 word) :: 32 word) = w"
    using b by (intro bit_word_eqI) (auto simp: bit_simps not_less intro: ccontr)
  show "w AND 128 = 0"
    using b [of 7] by (intro bit_word_eqI) (auto simp: mask_bits bit_simps)
qed

lemma continuation_low: "(ucast (ucast (w OR 128 :: 32 word) :: 8 word) :: 32 word) AND 127 = take_bit 7 w"
  by (rule bit_word_eqI) (auto simp: mask_bits bit_simps)

lemma drop_bit_small:
  fixes v :: "32 word"
  assumes "v < 2 ^ k" "k < 32"
  shows "j \<le> k \<Longrightarrow> drop_bit j v < 2 ^ (k - j)"
proof -
  assume j: "j \<le> k"
  have "unat v < 2 ^ k" using assms by (simp add: word_less_nat_alt unat_exp)
  then have "unat v div 2 ^ j < 2 ^ (k - j)"
    using j by (simp add: less_mult_imp_div_less power_add [symmetric])
  moreover have "unat (drop_bit j v) = unat v div 2 ^ j"
    by (simp only: unat_drop_bit_eq) (simp only: drop_bit_eq_div)
  ultimately show ?thesis
    using assms j by (simp only: word_less_nat_alt unat_exp less_imp_diff_less)
qed

lemma varint_step:
  "shift \<le> 28 \<Longrightarrow> GetVarint32PtrFallback shift result (ucast (w OR 128 :: 32 word) # p)
     = GetVarint32PtrFallback (shift + 7) (result OR push_bit shift (take_bit 7 w)) p"
  by (simp add: continuation_set continuation_low)

lemma varint_end:
  "shift \<le> 28 \<Longrightarrow> w < 2 ^ 7 \<Longrightarrow>
   GetVarint32PtrFallback shift result (ucast (w :: 32 word) # p) = Some (result OR push_bit shift w, p)"
  by (simp add: continuation_clear)

lemma bits_joined:
  fixes v :: "32 word"
  shows "take_bit k v OR push_bit k (take_bit 7 (drop_bit k v)) = take_bit (k + 7) v"
    and "take_bit k v OR push_bit k (drop_bit k v) = v"
proof -
  show "take_bit k v OR push_bit k (take_bit 7 (drop_bit k v)) = take_bit (k + 7) v"
    by (rule bit_word_eqI) (auto simp: bit_simps)
  show "take_bit k v OR push_bit k (drop_bit k v) = v"
  proof (rule bit_word_eqI)
    fix n
    show "bit (take_bit k v OR push_bit k (drop_bit k v)) n \<longleftrightarrow> bit v n" if "n < LENGTH(32)"
      using that by (cases "n < k") (auto simp: bit_simps)
  qed
qed

lemma varint_first:
  "GetVarint32Ptr (ucast (w OR 128 :: 32 word) # p) = GetVarint32PtrFallback 7 (take_bit 7 w) p"
  using varint_step [of 0 0 w p] continuation_set [of w] by simp

lemma varint_more:
  fixes v :: "32 word"
  assumes "k \<le> 28"
  shows "GetVarint32PtrFallback k (take_bit k v) (ucast (drop_bit k v OR 128) # p)
           = GetVarint32PtrFallback (k + 7) (take_bit (k + 7) v) p"
  using varint_step [OF assms] by (simp add: bits_joined)

lemma varint_last:
  fixes v :: "32 word"
  assumes "k \<le> 28" and "drop_bit k v < 2 ^ 7"
  shows "GetVarint32PtrFallback k (take_bit k v) (ucast (drop_bit k v) # p) = Some (v, p)"
  using varint_end [OF assms] by (simp add: bits_joined)

lemma varint_roundtrip: "GetVarint32Ptr (EncodeVarint32 v @ r) = Some (v, r)"
proof -
  have top: "drop_bit 28 v < 2 ^ 7"
  proof -
    have "unat v < 2 ^ 32" using unsigned_less [of v] by simp
    then have "unat v div 2 ^ 28 < 2 ^ 7" by simp
    moreover have "unat (drop_bit 28 v) = unat v div 2 ^ 28"
      by (simp only: unat_drop_bit_eq) (simp only: drop_bit_eq_div)
    ultimately show ?thesis using unat_exp [of 7] by (simp only: word_less_nat_alt)
  qed
  consider "v < 2 ^ 7" | "\<not> v < 2 ^ 7" "v < 2 ^ 14" | "\<not> v < 2 ^ 7" "\<not> v < 2 ^ 14" "v < 2 ^ 21"
    | "\<not> v < 2 ^ 7" "\<not> v < 2 ^ 14" "\<not> v < 2 ^ 21" "v < 2 ^ 28"
    | "\<not> v < 2 ^ 7" "\<not> v < 2 ^ 14" "\<not> v < 2 ^ 21" "\<not> v < 2 ^ 28" by blast
  then show ?thesis
  proof cases
    case 1
    then have "EncodeVarint32 v = [ucast v]" by (simp only: EncodeVarint32_def if_True)
    then show ?thesis using continuation_clear [OF 1] by simp
  next
    case 2
    then have e: "EncodeVarint32 v = [ucast (v OR 128), ucast (drop_bit 7 v)]"
      by (simp only: EncodeVarint32_def if_True if_False)
    have "drop_bit 7 v < 2 ^ 7" using drop_bit_small [OF 2(2), of 7] by simp
    then show ?thesis by (simp only: e append.simps varint_first varint_last)
  next
    case 3
    then have e: "EncodeVarint32 v = [ucast (v OR 128), ucast (drop_bit 7 v OR 128), ucast (drop_bit 14 v)]"
      by (simp only: EncodeVarint32_def if_True if_False)
    have "drop_bit 14 v < 2 ^ 7" using drop_bit_small [OF 3(3), of 14] by simp
    then show ?thesis
      using varint_more [of 7 v] varint_last [of 14 v r]
      by (simp only: e append.simps varint_first) simp
  next
    case 4
    then have e: "EncodeVarint32 v =
        [ucast (v OR 128), ucast (drop_bit 7 v OR 128), ucast (drop_bit 14 v OR 128), ucast (drop_bit 21 v)]"
      by (simp only: EncodeVarint32_def if_True if_False)
    have "drop_bit 21 v < 2 ^ 7" using drop_bit_small [OF 4(4), of 21] by simp
    then show ?thesis
      using varint_more [of 7 v] varint_more [of 14 v] varint_last [of 21 v r]
      by (simp only: e append.simps varint_first) simp
  next
    case 5
    then have e: "EncodeVarint32 v =
        [ucast (v OR 128), ucast (drop_bit 7 v OR 128), ucast (drop_bit 14 v OR 128),
         ucast (drop_bit 21 v OR 128), ucast (drop_bit 28 v)]"
      by (simp only: EncodeVarint32_def if_True if_False)
    show ?thesis
      using varint_more [of 7 v] varint_more [of 14 v] varint_more [of 21 v] varint_last [of 28 v r] top
      by (simp only: e append.simps varint_first) simp
  qed
qed

section \<open>The order of keys\<close>

lemma Slice_compare_Cons:
  "Slice_compare (a # as) (b # bs) = (if a = b then Slice_compare as bs else if a < b then -1 else 1)"
  by (simp add: Slice_compare_def Let_def)

lemma Slice_compare_cases:
  "(Slice_compare a b < 0 \<longleftrightarrow> a < b) \<and> (Slice_compare a b = 0 \<longleftrightarrow> a = b) \<and> (0 < Slice_compare a b \<longleftrightarrow> b < a)"
proof (induction a arbitrary: b)
  case Nil
  then show ?case by (cases b) (simp_all add: Slice_compare_def)
next
  case (Cons x xs)
  show ?case
  proof (cases b)
    case Nil
    then show ?thesis by (simp add: Slice_compare_def)
  next
    case (Cons y ys)
    with Cons.IH [of ys] show ?thesis by (auto simp: Slice_compare_Cons)
  qed
qed

definition ikey_before :: "bytes \<Rightarrow> bytes \<Rightarrow> bool" where
  "ikey_before a b \<longleftrightarrow>
     take (length a - 8) a < take (length b - 8) b
     \<or> take (length a - 8) a = take (length b - 8) b
       \<and> le_uint (drop (length b - 8) b) < le_uint (drop (length a - 8) a)"

lemma ikey_before_trans: "ikey_before a b \<Longrightarrow> ikey_before b c \<Longrightarrow> ikey_before a c"
  by (auto simp: ikey_before_def)

lemma ikey_before_irrefl [simp]: "\<not> ikey_before a a"
  by (simp add: ikey_before_def)

lemma ikey_total:
  assumes "8 \<le> length a" "8 \<le> length b" "\<not> ikey_before a b" "\<not> ikey_before b a"
  shows "a = b"
proof -
  have u: "take (length a - 8) a = take (length b - 8) b"
    and n: "le_uint (drop (length a - 8) a) = le_uint (drop (length b - 8) b)"
    using assms(3,4) by (auto simp: ikey_before_def)
  have "drop (length a - 8) a = drop (length b - 8) b"
    using le_bytes_le_uint [of "drop (length a - 8) a"] le_bytes_le_uint [of "drop (length b - 8) b"] n assms(1,2)
    by simp
  with u show ?thesis by (metis append_take_drop_id)
qed

lemma InternalKey_Compare_cases:
  assumes "8 \<le> length a" "8 \<le> length b"
  obtains c where "InternalKey_Compare a b = ret c" "c < 0 \<longleftrightarrow> ikey_before a b" "0 < c \<longleftrightarrow> ikey_before b a"
proof -
  let ?r = "Slice_compare (take (length a - 8) a) (take (length b - 8) b)"
  let ?m = "le_uint (drop (length a - 8) a)" and ?n = "le_uint (drop (length b - 8) b)"
  let ?c = "if ?r = 0 then (if ?m > ?n then -1 else if ?m < ?n then 1 else 0) else ?r"
  have "InternalKey_Compare a b = ret ?c"
    using assms by (simp add: InternalKey_Compare_def ExtractUserKey_def Let_def)
  moreover have "?c < 0 \<longleftrightarrow> ikey_before a b" "0 < ?c \<longleftrightarrow> ikey_before b a"
    using Slice_compare_cases [of "take (length a - 8) a" "take (length b - 8) b"]
    by (auto simp: ikey_before_def)
  ultimately show ?thesis by (rule that)
qed

section \<open>Decoding an entry\<close>

lemma byte_high_bit: "(b :: byte) < 128 \<longleftrightarrow> \<not> bit b 7"
proof -
  have u: "unat b < 256" using unsigned_less [of b] by simp
  have "bit b 7 \<longleftrightarrow> bit (unat b) 7" by (simp add: bit_unsigned_iff)
  also have "\<dots> \<longleftrightarrow> odd (unat b div 128)" by (simp add: bit_iff_odd)
  also have "unat b div 128 = (if 128 \<le> unat b then 1 else 0)"
    using u by (auto intro: div_nat_eqI)
  also have "odd (if 128 \<le> unat b then 1 else 0 :: nat) \<longleftrightarrow> 128 \<le> unat b" by simp
  finally show ?thesis by (simp add: word_less_nat_alt not_le)
qed

lemma single_byte: "\<not> bit b 7 \<Longrightarrow> GetVarint32Ptr (b # p) = Some (ucast b, p)"
proof -
  assume "\<not> bit b 7"
  then have "(ucast b :: 32 word) AND 128 = 0"
    by (intro bit_word_eqI) (auto simp: bit_simps mask_bits)
  then show ?thesis by simp
qed

definition get_lengths :: "bytes \<Rightarrow> (32 word \<times> 32 word \<times> 32 word \<times> bytes) option" where
  "get_lengths p =
     (case GetVarint32Ptr p of None \<Rightarrow> None
      | Some (shared, p) \<Rightarrow> (case GetVarint32Ptr p of None \<Rightarrow> None
        | Some (non_shared, p) \<Rightarrow> (case GetVarint32Ptr p of None \<Rightarrow> None
          | Some (value_length, p) \<Rightarrow> Some (shared, non_shared, value_length, p))))"

text \<open>The fast path for three lengths of one byte each agrees with the general one.\<close>

lemma DecodeEntry_general:
  assumes "3 \<le> length p"
  shows "DecodeEntry p =
     (case get_lengths p of None \<Rightarrow> ret None
      | Some (shared, non_shared, value_length, p) \<Rightarrow>
          if (of_nat (length p) :: 32 word) < non_shared + value_length then Abort AssertFailed
          else ret (Some (shared, non_shared, value_length, p)))"
proof -
  obtain a b c q where p: "p = a # b # c # q"
    using assms by (auto simp: numeral_3_eq_3 Suc_le_length_iff)
  have "get_lengths p = Some (ucast a, ucast b, ucast c, q)" if "(a OR b OR c) < 128"
    using that by (simp add: p get_lengths_def single_byte byte_high_bit bit_or_iff del: GetVarint32Ptr.simps)
  then show ?thesis
    using assms by (auto simp: DecodeEntry_def get_lengths_def p Let_def simp del: GetVarint32Ptr.simps)
qed

definition enc_entry :: "nat \<Rightarrow> bytes \<Rightarrow> bytes \<Rightarrow> bytes" where
  "enc_entry s k v =
     EncodeVarint32 (of_nat s) @ EncodeVarint32 (of_nat (length k - s)) @ EncodeVarint32 (of_nat (length v))
     @ drop s k @ v"

lemma EncodeVarint32_length: "1 \<le> length (EncodeVarint32 v)"
  by (simp add: EncodeVarint32_def)

lemma enc_entry_length: "3 + (length k - s) + length v \<le> length (enc_entry s k v)"
  using EncodeVarint32_length [of "of_nat s"] EncodeVarint32_length [of "of_nat (length k - s)"]
    EncodeVarint32_length [of "of_nat (length v)"]
  by (simp add: enc_entry_def)

lemma DecodeEntry_enc:
  assumes len: "length (enc_entry s k v @ r) < 2 ^ 32"
  shows "DecodeEntry (enc_entry s k v @ r)
     = ret (Some (of_nat s, of_nat (length k - s), of_nat (length v), drop s k @ v @ r))"
proof -
  have "get_lengths (enc_entry s k v @ r)
      = Some (of_nat s, of_nat (length k - s), of_nat (length v), drop s k @ v @ r)"
    by (simp add: get_lengths_def enc_entry_def varint_roundtrip)
  moreover have "\<not> (of_nat (length (drop s k @ v @ r)) :: 32 word) < of_nat (length k - s) + of_nat (length v)"
  proof -
    have b: "length (drop s k @ v @ r) < 2 ^ 32" using len enc_entry_length [of k s v] by simp
    have "of_nat (length k - s) + of_nat (length v) = (of_nat (length k - s + length v) :: 32 word)" by simp
    then show ?thesis using b by (simp only: word_less_nat_alt unat_of_nat) simp
  qed
  moreover have "3 \<le> length (enc_entry s k v @ r)" using enc_entry_length [of k s v] by simp
  ultimately show ?thesis by (simp add: DecodeEntry_general)
qed

end
