(* ===== verification/Block_Laws.thy ===== *)
theory Block_Laws
  imports Block_Coding
begin

text \<open>
  What the block builder lays out and what the iterator reads back: runs of entries between restart
  points (\<open>coded\<close>, \<open>runs_of\<close>), positions of the iterator (\<open>before\<close>, \<open>block_remains\<close>), the cursor
  interface both iterators of the development satisfy, and the finished block.
\<close>


section \<open>Runs of entries\<close>

text \<open>\<open>coded prev es bs\<close>: behind the key \<open>prev\<close>, the bytes hold the entries, each key by what it shares.\<close>

inductive coded :: "bytes \<Rightarrow> entry list \<Rightarrow> bytes \<Rightarrow> bool" where
  coded_Nil: "coded prev [] []"
| coded_Cons: "s \<le> length prev \<Longrightarrow> s \<le> length k \<Longrightarrow> take s prev = take s k \<Longrightarrow> coded k es bs
    \<Longrightarrow> coded prev ((k, v) # es) (enc_entry s k v @ bs)"

inductive_cases coded_NilE: "coded prev [] bs"
inductive_cases coded_ConsE: "coded prev (e # es) bs"

lemma coded_append: "coded prev es bs \<Longrightarrow> coded [] es' bs' \<Longrightarrow> coded prev (es @ es') (bs @ bs')"
proof (induction rule: coded.induct)
  case (coded_Nil prev)
  then show ?case by (cases rule: coded.cases) (auto intro: coded.intros)
next
  case (coded_Cons s prev k es bs v)
  then show ?case using coded.coded_Cons [of s prev k "es @ es'" "bs @ bs'" v] by simp
qed

lemma coded_snoc:
  "coded prev es bs \<Longrightarrow> l = (if es = [] then prev else fst (last es)) \<Longrightarrow>
   s \<le> length l \<Longrightarrow> s \<le> length k \<Longrightarrow> take s l = take s k \<Longrightarrow> coded prev (es @ [(k, v)]) (bs @ enc_entry s k v)"
proof (induction rule: coded.induct)
  case (coded_Nil prev)
  then show ?case using coded.coded_Cons [OF _ _ _ coded.coded_Nil, of s prev k v] by simp
next
  case (coded_Cons s' prev k' es bs v')
  then have "coded k' (es @ [(k, v)]) (bs @ enc_entry s k v)" by (auto split: if_splits)
  then show ?case using coded.coded_Cons [OF coded_Cons.hyps(1-3), of _ _ v'] by simp
qed

lemma coded_empty: "coded prev es bs \<Longrightarrow> es = [] \<longleftrightarrow> bs = []"
  by (cases rule: coded.cases) (auto simp: enc_entry_def EncodeVarint32_def)

lemma coded_concat:
  "\<forall>s \<in> set segs. coded [] (fst s) (snd s) \<Longrightarrow> coded [] (concat (map fst segs)) (concat (map snd segs))"
proof (induction segs)
  case Nil
  then show ?case by (simp add: coded_Nil)
next
  case (Cons s segs)
  then show ?case using coded_append [of "[]" "fst s" "snd s"] by simp
qed

text \<open>The bytes determine the first key behind a restart point.\<close>

lemma coded_first_key:
  assumes "coded prev ((k, v) # es) bs" "coded [] ((k', v') # es') bs" "length bs < 2 ^ 32" "length prev < 2 ^ 32"
  shows "k = k'"
proof -
  obtain s r where s: "s \<le> length prev" "s \<le> length k" and b: "bs = enc_entry s k v @ r"
    using assms(1) by (auto elim: coded_ConsE)
  obtain r' where b': "bs = enc_entry 0 k' v' @ r'"
    using assms(2) by (auto elim: coded_ConsE)
  have e: "DecodeEntry bs = ret (Some (of_nat s, of_nat (length k - s), of_nat (length v), drop s k @ v @ r))"
    using DecodeEntry_enc [of s k v r] assms(3) b by simp
  have e': "DecodeEntry bs = ret (Some (0, of_nat (length k'), of_nat (length v'), k' @ v' @ r'))"
    using DecodeEntry_enc [of 0 k' v' r'] assms(3) b' by simp
  have s0: "s = 0"
  proof -
    have "(of_nat s :: 32 word) = 0" using e e' by simp
    then have "s mod 2 ^ 32 = 0" using unat_of_nat [of s, where 'a = 32] by simp
    moreover have "s < 2 ^ 32" using s(1) assms(4) by simp
    ultimately show ?thesis by simp
  qed
  have "length k < 2 ^ 32" using assms(3) b enc_entry_length [of k s v] s0 by simp
  moreover have "length k' < 2 ^ 32" using assms(3) enc_entry_length [of k' 0 v'] by (simp add: b')
  moreover have "(of_nat (length k) :: 32 word) = of_nat (length k')" using e e' s0 by simp
  then have "unat (of_nat (length k) :: 32 word) = unat (of_nat (length k') :: 32 word)" by simp
  then have "length k mod 2 ^ 32 = length k' mod 2 ^ 32" by (simp only: unat_of_nat) simp
  ultimately have "length k = length k'" by simp
  moreover have "k @ v @ r = k' @ v' @ r'" using e e' s0 by simp
  ultimately show ?thesis by simp
qed

section \<open>Positions in a block\<close>

definition block_ok :: "bytes \<Rightarrow> nat \<Rightarrow> nat \<Rightarrow> bool" where
  "block_ok data rs n \<longleftrightarrow> 0 < n \<and> rs + 4 * n \<le> length data \<and> length data < 2 ^ 32"

definition over :: "bytes \<Rightarrow> nat \<Rightarrow> nat \<Rightarrow> BlockIter \<Rightarrow> bool" where
  "over data rs n it \<longleftrightarrow> iter_data it = Some data \<and> restarts it = rs \<and> iter_restarts it = n \<and> status_ok it
     \<and> block_ok data rs n"

definition before :: "bytes \<Rightarrow> nat \<Rightarrow> nat \<Rightarrow> BlockIter \<Rightarrow> nat \<Rightarrow> entry list \<Rightarrow> bool" where
  "before data rs n it off es \<longleftrightarrow> over data rs n it
     \<and> (\<exists>vo vl. val_slice it = Some (vo, vl) \<and> vo + vl = off) \<and> length (raw_key it) \<le> off \<and> off \<le> rs
     \<and> coded (raw_key it) es (drop off (take rs data))"

lemma restart_point:
  "over data rs n it \<Longrightarrow> i < n \<Longrightarrow>
   GetRestartPoint it i = ret (nat (le_uint (take 4 (drop (rs + i * 4) data))))"
  by (simp add: over_def block_ok_def GetRestartPoint_def the_data_def DecodeFixed32_def slice_at_def)

lemma skip_restarts_index: "over data rs n it \<Longrightarrow> \<exists>j. skip_restarts it = ret (it\<lparr>restart_index := j\<rparr>)"
proof (induction it rule: skip_restarts.induct)
  case (1 it)
  show ?case
  proof (cases "restart_index it + 1 < iter_restarts it")
    case True
    then have r: "restart_index it + 1 < n" using "1.prems" by (simp add: over_def)
    note g = restart_point [OF "1.prems" r]
    let ?it = "it\<lparr>restart_index := restart_index it + 1\<rparr>"
    have "over data rs n ?it" using "1.prems" by (simp add: over_def)
    note IH = "1.IH" [OF True _ this]
    show ?thesis
    proof (cases "nat (le_uint (take 4 (drop (rs + (restart_index it + 1) * 4) data))) < current it")
      case c: True
      from IH [OF c] obtain j where "skip_restarts ?it = ret (?it\<lparr>restart_index := j\<rparr>)" ..
      then have "skip_restarts it = ret (it\<lparr>restart_index := j\<rparr>)"
        using True c g by (subst skip_restarts.simps) simp
      then show ?thesis ..
    next
      case False
      then have "skip_restarts it = ret (it\<lparr>restart_index := restart_index it\<rparr>)"
        using True g by (subst skip_restarts.simps) simp
      then show ?thesis ..
    qed
  next
    case False
    then have "skip_restarts it = ret (it\<lparr>restart_index := restart_index it\<rparr>)"
      by (subst skip_restarts.simps) simp
    then show ?thesis ..
  qed
qed

lemma parse_end:
  assumes "before data rs n it off []"
  shows "\<exists>it'. ParseNextKey it = ret (False, it') \<and> over data rs n it' \<and> current it' = rs"
proof -
  have o: "over data rs n it" "off \<le> rs" and b: "drop off (take rs data) = []"
    using assms by (auto simp: before_def elim: coded_NilE)
  have l: "rs \<le> length data" "length data < 2 ^ 32" using o by (auto simp: over_def block_ok_def)
  then have "off = rs" using o b by simp
  moreover have "NextEntryOffset it = ret off"
    using assms l o by (auto simp: before_def NextEntryOffset_def)
  ultimately show ?thesis using o by (simp add: ParseNextKey_def over_def Let_def)
qed

lemma slice_prefix:
  assumes "drop off (take rs data) = a @ b" "off \<le> rs" "rs \<le> length data"
  shows "slice_at data off (length a) = ret a" "drop (off + length a) (take rs data) = b"
    "off + length a \<le> rs"
proof -
  have l: "rs - off = length a + length b" using arg_cong [OF assms(1), of length] assms(2,3) by simp
  have "take (length a) (drop off data) = take (length a) (drop off (take rs data))"
    using l by (simp add: drop_take)
  then show "slice_at data off (length a) = ret a" using assms l by (simp add: slice_at_def)
  have "drop (off + length a) (take rs data) = drop (length a) (drop off (take rs data))"
    by (simp add: add.commute)
  then show "drop (off + length a) (take rs data) = b" by (simp add: assms(1))
  show "off + length a \<le> rs" using l assms(2) by linarith
qed

text \<open>An entry found at its offset: its lengths, its key bytes, its value and the place behind it.\<close>

lemma entry_decoded:
  assumes ok: "block_ok data rs n" and c: "coded prev ((k, v) # es) (drop off (take rs data))"
    and o: "length prev \<le> off" "off \<le> rs"
  obtains s p q where "s \<le> length prev" "s \<le> length k" "take s prev = take s k" "off < rs"
    "slice_at data off (rs - off) = ret p"
    "DecodeEntry p = ret (Some (of_nat s, of_nat (length k - s), of_nat (length v), q))"
    "unat (of_nat s :: 32 word) = s" "unat (of_nat (length k - s) :: 32 word) = length k - s"
    "unat (of_nat (length v) :: 32 word) = length v"
    "slice_at data (rs - length q) (length k - s) = ret (drop s k)"
    "slice_at data (rs - length q + (length k - s)) (length v) = ret v"
    "coded k es (drop (rs - length q + (length k - s) + length v) (take rs data))"
    "rs - length q + (length k - s) + length v \<le> rs" "length k \<le> rs - length q + (length k - s) + length v"
proof -
  obtain s r where s: "s \<le> length prev" "s \<le> length k" "take s prev = take s k"
    and d: "drop off (take rs data) = enc_entry s k v @ r" and r: "coded k es r"
    using c by (auto elim: coded_ConsE)
  let ?q = "drop s k @ v @ r"
  have l: "rs \<le> length data" "length data < 2 ^ 32" using ok by (auto simp: block_ok_def)
  have dl: "rs - off = length (enc_entry s k v @ r)" using arg_cong [OF d, of length] l by simp
  then have bnd: "length (enc_entry s k v @ r) < 2 ^ 32" and off: "off < rs" "off < 2 ^ 32"
    using l o enc_entry_length [of k s v] by simp_all
  have "s < 2 ^ 32" "length k - s < 2 ^ 32" "length v < 2 ^ 32"
    using s o off bnd enc_entry_length [of k s v] by simp_all
  then have u: "unat (of_nat s :: 32 word) = s" "unat (of_nat (length k - s) :: 32 word) = length k - s"
    "unat (of_nat (length v) :: 32 word) = length v"
    by (simp_all add: unat_of_nat)
  have p: "slice_at data off (rs - off) = ret (enc_entry s k v @ r)"
    using off l d by (simp add: slice_at_def drop_take)
  have q: "drop (rs - length ?q) (take rs data) = ?q"
  proof -
    have "rs - length ?q = off + (length (enc_entry s k v @ r) - length ?q)"
      using dl off enc_entry_length [of k s v] by simp
    then have "drop (rs - length ?q) (take rs data)
        = drop (length (enc_entry s k v @ r) - length ?q) (drop off (take rs data))"
      by (simp only: drop_drop add.commute)
    also have "\<dots> = drop (length (enc_entry s k v @ r) - length ?q) (enc_entry s k v @ r)"
      by (simp only: d)
    also have "\<dots> = ?q" by (simp add: enc_entry_def)
    finally show ?thesis .
  qed
  note k = slice_prefix [OF q diff_le_self l(1)]
  note v = slice_prefix [OF k(2,3) l(1)]
  have "rs - length ?q + (length k - s) + length v = off + length (enc_entry s k v)"
    using dl off enc_entry_length [of k s v] by simp
  then have kl: "length k \<le> rs - length ?q + (length k - s) + length v"
    using s o enc_entry_length [of k s v] by linarith
  show ?thesis
    using that [OF s off(1) p DecodeEntry_enc [OF bnd] u] k(1) v r kl by simp
qed

lemma parse_entry:
  assumes "before data rs n it off ((k, v) # es)"
  shows "\<exists>it'. ParseNextKey it = ret (True, it') \<and> raw_key it' = k \<and> current it' = off \<and> off < rs
     \<and> BlockIter_entry it' = ret (k, v) \<and> (\<exists>off'. before data rs n it' off' es)"
proof -
  have o: "over data rs n it" "off \<le> rs" "length (raw_key it) \<le> off"
    and c: "coded (raw_key it) ((k, v) # es) (drop off (take rs data))" and ok: "block_ok data rs n"
    using assms by (auto simp: before_def over_def)
  from entry_decoded [OF ok c o(3,2)] obtain s p q
    where s: "s \<le> length (raw_key it)" "s \<le> length k" "take s (raw_key it) = take s k" and off: "off < rs"
      and p: "slice_at data off (rs - off) = ret p"
      and d: "DecodeEntry p = ret (Some (of_nat s, of_nat (length k - s), of_nat (length v), q))"
      and u: "unat (of_nat s :: 32 word) = s" "unat (of_nat (length k - s) :: 32 word) = length k - s"
        "unat (of_nat (length v) :: 32 word) = length v"
      and k: "slice_at data (rs - length q) (length k - s) = ret (drop s k)"
      and v: "slice_at data (rs - length q + (length k - s)) (length v) = ret v"
      and r: "coded k es (drop (rs - length q + (length k - s) + length v) (take rs data))"
      and e: "rs - length q + (length k - s) + length v \<le> rs" "length k \<le> rs - length q + (length k - s) + length v" .
  have z: "(of_nat s :: 32 word) = 0 \<longleftrightarrow> s = 0" using u(1) by auto
  have next_off: "NextEntryOffset it = ret off"
    using assms off ok by (auto simp: before_def NextEntryOffset_def block_ok_def)
  let ?it = "it\<lparr>current := off, raw_key := k, val_slice := Some (rs - length q + (length k - s), length v)\<rparr>"
  have ov: "over data rs n ?it" using o by (simp add: over_def)
  obtain j where j: "(if s = 0 then skip_restarts ?it else ret ?it) = ret (?it\<lparr>restart_index := j\<rparr>)"
  proof (cases "s = 0")
    case True
    then show ?thesis using skip_restarts_index [OF ov] that by auto
  next
    case False
    then show ?thesis using that [of "restart_index ?it"] by simp
  qed
  let ?it' = "?it\<lparr>restart_index := j\<rparr>"
  have key: "(if s = 0 then drop s k else take s (raw_key it) @ drop s k) = k" using s by simp
  have data: "iter_data it = Some data" "restarts it = rs" using o by (simp_all add: over_def)
  have "ParseNextKey it = bind_exec (if s = 0 then skip_restarts ?it else ret ?it) (\<lambda>it. ret (True, it))"
    using off next_off p d k u z key data s(1)
    by (cases "s = 0") (simp_all add: ParseNextKey_def Let_def the_data_def)
  then have "ParseNextKey it = ret (True, ?it')" by (simp only: j bind_ret)
  moreover have "BlockIter_entry ?it' = ret (k, v)"
    using data off v by (simp add: BlockIter_entry_def BlockIter_Valid_def the_data_def)
  moreover have "before data rs n ?it' (rs - length q + (length k - s) + length v) es"
    using ov e r by (simp add: before_def over_def)
  ultimately show ?thesis using off by fastforce
qed

section \<open>Cursors\<close>

text \<open>
  What a loop over an iterator relies on: \<open>remains i es\<close> says that the entries \<open>es\<close> are still to
  come, the current one first.
\<close>

locale entry_cursor =
  fixes step :: "'i \<Rightarrow> 'i exec"
    and valid :: "'i \<Rightarrow> bool"
    and cur :: "'i \<Rightarrow> entry exec"
    and remains :: "'i \<Rightarrow> entry list \<Rightarrow> bool"
  assumes valid_remains: "remains i es \<Longrightarrow> valid i \<longleftrightarrow> es \<noteq> []"
    and cur_remains: "remains i (e # es) \<Longrightarrow> cur i = ret e"
    and step_remains: "remains i (e # es) \<Longrightarrow> \<exists>j. step i = ret j \<and> remains j es"
begin

lemma walk_all: "remains i es \<Longrightarrow> length es \<le> n \<Longrightarrow> walk_entries step valid cur n i = ret es"
proof (induction n arbitrary: i es)
  case 0
  then show ?case by simp
next
  case (Suc n)
  show ?case
  proof (cases es)
    case Nil
    then show ?thesis using valid_remains [OF Suc.prems(1)] by simp
  next
    case (Cons e es')
    then have r: "remains i (e # es')" using Suc.prems(1) by simp
    obtain j where "step i = ret j" "remains j es'" using step_remains [OF r] by blast
    then show ?thesis
      using Suc.IH [of j es'] Suc.prems(2) valid_remains [OF r] cur_remains [OF r] Cons by simp
  qed
qed

end

text \<open>The iterator over a block is such a cursor, and so is the one the scan layer sees.\<close>

definition block_remains :: "bytes \<Rightarrow> nat \<Rightarrow> nat \<Rightarrow> BlockIter \<Rightarrow> entry list \<Rightarrow> bool" where
  "block_remains data rs n it es \<longleftrightarrow> over data rs n it
     \<and> (case es of [] \<Rightarrow> current it = rs
        | e # es' \<Rightarrow> current it < rs \<and> raw_key it = fst e \<and> BlockIter_entry it = ret e
            \<and> (\<exists>off. before data rs n it off es'))"

lemma next_remains:
  assumes "before data rs n it off es"
  obtains it' where "NextImpl it = ret it'" "block_remains data rs n it' es" "es \<noteq> [] \<Longrightarrow> current it' = off"
proof (cases es)
  case Nil
  then show ?thesis
    using parse_end [of data rs n it off] assms that by (auto simp: NextImpl_def block_remains_def)
next
  case (Cons e es')
  obtain k v where e: "e = (k, v)" by (cases e)
  show ?thesis
    using parse_entry [of data rs n it off k v es'] assms that Cons e
    by (auto simp: NextImpl_def block_remains_def before_def)
qed

interpretation bc: entry_cursor NextImpl BlockIter_Valid BlockIter_entry "block_remains data rs n"
proof
  show "block_remains data rs n i es \<Longrightarrow> BlockIter_Valid i \<longleftrightarrow> es \<noteq> []" for i es
    by (auto simp: block_remains_def over_def BlockIter_Valid_def split: list.splits)
  show "block_remains data rs n i (e # es) \<Longrightarrow> BlockIter_entry i = ret e" for i e es
    by (simp add: block_remains_def)
  show "block_remains data rs n i (e # es) \<Longrightarrow> \<exists>j. NextImpl i = ret j \<and> block_remains data rs n j es" for i e es
    by (auto simp: block_remains_def elim: next_remains)
qed

interpretation kc: entry_cursor "\<lambda>i. ret (Next i)" Valid "\<lambda>i. ret (entry_of i)" "\<lambda>i es. ahead i = es"
  by unfold_locales (auto simp: Valid_def entry_of_def Next_def)

section \<open>What the builder lays out\<close>

lemma difference_offset_prefix:
  "difference_offset a b \<le> length a \<and> difference_offset a b \<le> length b
   \<and> take (difference_offset a b) b = take (difference_offset a b) a"
  by (induction a b rule: difference_offset.induct) auto

lemma EncodeVarint32_bound: "length (EncodeVarint32 v) \<le> 5"
  by (simp add: EncodeVarint32_def)

lemma enc_entry_bound: "s \<le> length k \<Longrightarrow> length (enc_entry s k v) \<le> 15 + length k + length v"
  using EncodeVarint32_bound [of "of_nat s"] EncodeVarint32_bound [of "of_nat (length k - s)"]
    EncodeVarint32_bound [of "of_nat (length v)"]
  by (simp add: enc_entry_def)

text \<open>The runs between restart points: the entries of each with its bytes.\<close>

type_synonym runs = "(entry list \<times> bytes) list"

definition run_start :: "runs \<Rightarrow> nat \<Rightarrow> nat" where
  "run_start segs i = length (concat (map snd (take i segs)))"

definition runs_of :: "entry list \<Rightarrow> runs \<Rightarrow> bool" where
  "runs_of es segs \<longleftrightarrow> segs \<noteq> [] \<and> (\<forall>s \<in> set segs. coded [] (fst s) (snd s)) \<and> concat (map fst segs) = es
     \<and> (\<forall>s \<in> set (butlast segs). fst s \<noteq> []) \<and> (es \<noteq> [] \<longrightarrow> fst (last segs) \<noteq> [])"

lemma runs_nonempty: "runs_of es segs \<Longrightarrow> es \<noteq> [] \<Longrightarrow> s \<in> set segs \<Longrightarrow> fst s \<noteq> []"
  by (cases segs rule: rev_cases) (auto simp: runs_of_def)

text \<open>An entry takes at most nineteen bytes beside its key and value: three lengths, one restart point.\<close>

definition block_bytes :: "entry list \<Rightarrow> nat" where
  "block_bytes es = (\<Sum>(k, v) \<leftarrow> es. length k + length v + 19) + 8"

definition built :: "entry list \<Rightarrow> BlockBuilder \<Rightarrow> runs \<Rightarrow> bool" where
  "built es b segs \<longleftrightarrow> \<not> finished b \<and> \<not> use_value_delta_encoding b
     \<and> 1 \<le> block_restart_interval b \<and> 0 \<le> counter b \<and> counter b \<le> block_restart_interval b
     \<and> (counter b = 0 \<longleftrightarrow> es = []) \<and> runs_of es segs
     \<and> block_buffer b = concat (map snd segs)
     \<and> restart_offsets b = map (\<lambda>i. of_nat (run_start segs i)) [0..<length segs]
     \<and> (use_delta_encoding b \<longrightarrow> last_key b = (if es = [] then [] else fst (last es)))
     \<and> length (block_buffer b) + 4 * length segs + 4 \<le> block_bytes es
     \<and> estimate b = length (block_buffer b) + 4 * length segs + 4"

lemma run_start_append: "i \<le> length segs \<Longrightarrow> run_start (segs @ segs') i = run_start segs i"
  by (simp add: run_start_def)

lemma run_start_length: "run_start segs (length segs) = length (concat (map snd segs))"
  by (simp add: run_start_def)

lemma block_bytes_snoc: "block_bytes (es @ [(k, v)]) = block_bytes es + (length k + length v + 19)"
  by (simp add: block_bytes_def)

lemma built_accepts:
  "built es b segs \<Longrightarrow> \<not> finished b \<and> \<not> use_value_delta_encoding b \<and> counter b \<le> block_restart_interval b"
  by (simp add: built_def)

lemma built_bytes: "built es b segs \<Longrightarrow> length (block_buffer b) + 4 * length segs + 4 \<le> block_bytes es"
  unfolding built_def by (elim conjE)

lemma add_restart:
  assumes b: "built es b segs" and r: "block_restart_interval b \<le> counter b"
  shows "\<exists>b'. BlockBuilder_Add k v None b = ret b'
     \<and> built (es @ [(k, v)]) b' (segs @ [([(k, v)], enc_entry 0 k v)])"
proof -
  let ?b = "b\<lparr>restart_offsets := restart_offsets b @ [of_nat (length (block_buffer b))],
              estimate := estimate b + 4, counter := 0\<rparr>"
  let ?buf = "block_buffer b @ enc_entry 0 k v"
  let ?b' = "?b\<lparr>block_buffer := ?buf, counter := 1,
                estimate := estimate b + 4 + (length ?buf - length (block_buffer b))\<rparr>"
  let ?b'' = "if use_delta_encoding b then ?b'\<lparr>last_key := k\<rparr> else ?b'"
  let ?s = "([(k, v)], enc_entry 0 k v)"
  have "BlockBuilder_Add k v None b = ret ?b''"
    using built_accepts [OF b] r
    by (simp add: BlockBuilder_Add_def AddWithLastKeyImpl_def Let_def enc_entry_def)
  moreover have "built (es @ [(k, v)]) ?b'' (segs @ [?s])"
  proof -
    have es: "es \<noteq> []" and rs: "runs_of es segs" using b r by (auto simp: built_def)
    have "runs_of (es @ [(k, v)]) (segs @ [?s])"
      using rs runs_nonempty [OF rs es] coded.coded_Cons [OF _ _ _ coded.coded_Nil, of 0 "[]" k v]
      by (simp add: runs_of_def)
    moreover have "restart_offsets ?b'' = map (\<lambda>i. of_nat (run_start (segs @ [?s]) i)) [0..<length (segs @ [?s])]"
      using b run_start_length [of segs] by (simp add: built_def run_start_append)
    moreover have "length ?buf + 4 * Suc (length segs) + 4 \<le> block_bytes (es @ [(k, v)])"
      using built_bytes [OF b] enc_entry_bound [of 0 k v] by (simp add: block_bytes_snoc)
    ultimately show ?thesis using b by (simp add: built_def)
  qed
  ultimately show ?thesis by blast
qed

lemma add_shared:
  assumes b: "built es b (segs @ [(e, bs)])" and r: "counter b < block_restart_interval b"
  shows "\<exists>b' s. BlockBuilder_Add k v None b = ret b'
     \<and> built (es @ [(k, v)]) b' (segs @ [(e @ [(k, v)], bs @ enc_entry s k v)])"
proof -
  define s where "s = (if use_delta_encoding b then difference_offset k (last_key b) else 0)"
  let ?buf = "block_buffer b @ enc_entry s k v"
  let ?b' = "b\<lparr>block_buffer := ?buf, counter := counter b + 1,
               estimate := estimate b + (length ?buf - length (block_buffer b))\<rparr>"
  let ?b'' = "if use_delta_encoding b then ?b'\<lparr>last_key := k\<rparr> else ?b'"
  let ?r = "(e @ [(k, v)], bs @ enc_entry s k v)"
  note d = difference_offset_prefix [of k "last_key b"]
  have sk: "s \<le> length k" using d by (simp add: s_def)
  have "BlockBuilder_Add k v None b = ret ?b''"
    using built_accepts [OF b] r
    by (simp add: s_def BlockBuilder_Add_def AddWithLastKeyImpl_def Let_def enc_entry_def)
  moreover have "built (es @ [(k, v)]) ?b'' (segs @ [?r])"
  proof -
    have es: "es = concat (map fst segs) @ e" and c: "coded [] e bs" and ne: "es \<noteq> [] \<Longrightarrow> e \<noteq> []"
      using b by (auto simp: built_def runs_of_def)
    have "s \<le> length (if e = [] then [] else fst (last e))
        \<and> take s (if e = [] then [] else fst (last e)) = take s k"
      using b d es ne by (auto simp: built_def s_def)
    then have "coded [] (e @ [(k, v)]) (bs @ enc_entry s k v)"
      using coded_snoc [OF c refl] sk by blast
    then have "runs_of (es @ [(k, v)]) (segs @ [?r])"
      using b es ne by (auto simp: built_def runs_of_def)
    moreover have "length ?buf + 4 * Suc (length segs) + 4 \<le> block_bytes (es @ [(k, v)])"
      using built_bytes [OF b] enc_entry_bound [OF sk, of v] by (simp add: block_bytes_snoc)
    ultimately show ?thesis using b r by (simp add: built_def run_start_append)
  qed
  ultimately show ?thesis by blast
qed

lemma add_built:
  assumes "built es b segs"
  shows "\<exists>b' segs'. BlockBuilder_Add k v None b = ret b' \<and> built (es @ [(k, v)]) b' segs'"
proof (cases "block_restart_interval b \<le> counter b")
  case True
  then show ?thesis using add_restart [OF assms] by blast
next
  case False
  obtain init e bs where "segs = init @ [(e, bs)]"
    using assms by (cases segs rule: rev_cases) (auto simp: built_def runs_of_def)
  then show ?thesis using add_shared [of es b init e bs k v] assms False by force
qed

lemma new_built:
  "1 \<le> interval \<Longrightarrow> \<exists>b. BlockBuilder_new interval delta False = ret b \<and> built [] b [([], [])]"
  by (simp add: BlockBuilder_new_def built_def runs_of_def coded_Nil run_start_def block_bytes_def)

lemma fold_built:
  "built es0 b0 segs0 \<Longrightarrow>
   \<exists>b segs. fold_exec (\<lambda>(k, v). BlockBuilder_Add k v None) es b0 = ret b \<and> built (es0 @ es) b segs"
proof (induction es arbitrary: es0 b0 segs0)
  case Nil
  then show ?case by auto
next
  case (Cons e es)
  obtain k v where e: "e = (k, v)" by (cases e)
  from add_built [OF Cons.prems, of k v] obtain b' segs' where b': "BlockBuilder_Add k v None b0 = ret b'"
    "built (es0 @ [(k, v)]) b' segs'" by blast
  from Cons.IH [OF b'(2)] show ?case using b'(1) by (simp add: e)
qed

section \<open>Blocks of a table\<close>

text \<open>
  The table builder passes the last key of the table instead of the one the block builder keeps.
  Within a block the two agree, at its start both are empty, and a key is never longer than the
  bytes that encode it and what is before it.
\<close>

lemma coded_last_key: "coded prev es bs \<Longrightarrow> es \<noteq> [] \<Longrightarrow> length (fst (last es)) \<le> length prev + length bs"
proof (induction rule: coded.induct)
  case (coded_Nil prev)
  then show ?case by simp
next
  case (coded_Cons s prev k es bs v)
  then show ?case using enc_entry_length [of k s v] by (cases "es = []") simp_all
qed

lemma runs_coded: "runs_of es segs \<Longrightarrow> coded [] es (concat (map snd segs))"
  unfolding runs_of_def using coded_concat [of segs] by metis

lemma built_coded: "built es b segs \<Longrightarrow> coded [] es (block_buffer b)"
  using runs_coded [of es segs] by (simp add: built_def)

lemma impl_last_key:
  "AddWithLastKeyImpl k v prev None n (b\<lparr>last_key := l\<rparr>)
   = bind_exec (AddWithLastKeyImpl k v prev None n b) (\<lambda>b'. ret (b'\<lparr>last_key := l\<rparr>))"
  by (simp add: AddWithLastKeyImpl_def Let_def)

lemma impl_options:
  "AddWithLastKeyImpl k v prev None n b = ret b' \<Longrightarrow>
   block_restart_interval b' = block_restart_interval b \<and> use_delta_encoding b' = use_delta_encoding b
   \<and> use_value_delta_encoding b' = use_value_delta_encoding b"
  by (auto simp: AddWithLastKeyImpl_def Let_def split: if_splits)

lemma impl_no_delta:
  "\<not> use_delta_encoding b \<Longrightarrow> AddWithLastKeyImpl k v prev None n b = AddWithLastKeyImpl k v prev' None n b"
  by (simp add: AddWithLastKeyImpl_def Let_def)

lemma add_options:
  "BlockBuilder_Add k v None b = ret b' \<Longrightarrow>
   block_restart_interval b' = block_restart_interval b \<and> use_delta_encoding b' = use_delta_encoding b
   \<and> use_value_delta_encoding b' = use_value_delta_encoding b"
  by (auto simp: BlockBuilder_Add_def bind_eq_Done dest!: impl_options)

lemma add_with_last_key:
  assumes b: "built es b segs" and lk: "es \<noteq> [] \<Longrightarrow> lk = fst (last es)" and add: "BlockBuilder_Add k v None b = ret b'"
  shows "BlockBuilder_AddWithLastKey k v lk None (b\<lparr>last_key := []\<rparr>) = ret (b'\<lparr>last_key := []\<rparr>)"
proof -
  let ?prev = "take (min (length (block_buffer b)) (length lk)) lk"
  note c = built_coded [OF b]
  have size: "block_buffer b = [] \<or> length lk \<le> length (block_buffer b)"
    using coded_last_key [OF c] coded_empty [OF c] lk by auto
  have "AddWithLastKeyImpl k v ?prev None (length (block_buffer b)) b
      = AddWithLastKeyImpl k v (last_key b) None (length (block_buffer b)) b"
  proof (cases "use_delta_encoding b")
    case True
    then have "last_key b = (if es = [] then [] else fst (last es))" using b by (simp add: built_def)
    then have "?prev = last_key b" using size lk coded_empty [OF c] by (auto simp: min_def)
    then show ?thesis by simp
  next
    case False
    then show ?thesis by (rule impl_no_delta)
  qed
  moreover obtain b1 where "AddWithLastKeyImpl k v (last_key b) None (length (block_buffer b)) b = ret b1"
    "b' = (if use_delta_encoding b1 then b1\<lparr>last_key := k\<rparr> else b1)"
    using add by (auto simp: BlockBuilder_Add_def bind_eq_Done)
  ultimately show ?thesis
    using size by (auto simp: BlockBuilder_AddWithLastKey_def Let_def impl_last_key)
qed

lemma fold_table:
  "built es0 b0 segs0 \<Longrightarrow> (es0 \<noteq> [] \<Longrightarrow> lk = fst (last es0)) \<Longrightarrow>
   \<exists>b segs lk'. fold_exec (\<lambda>(k, v). BlockBuilder_Add k v None) es b0 = ret b \<and> built (es0 @ es) b segs
     \<and> fold_exec add_to_data_block es (lk, b0\<lparr>last_key := []\<rparr>) = ret (lk', b\<lparr>last_key := []\<rparr>)
     \<and> block_restart_interval b = block_restart_interval b0 \<and> use_delta_encoding b = use_delta_encoding b0"
proof (induction es arbitrary: es0 b0 segs0 lk)
  case Nil
  then show ?case by auto
next
  case (Cons e es)
  obtain k v where e: "e = (k, v)" by (cases e)
  from add_built [OF Cons.prems(1), of k v] obtain b1 segs1 where b1: "BlockBuilder_Add k v None b0 = ret b1"
    "built (es0 @ [(k, v)]) b1 segs1" by blast
  have "add_to_data_block e (lk, b0\<lparr>last_key := []\<rparr>) = ret (k, b1\<lparr>last_key := []\<rparr>)"
    using add_with_last_key [OF Cons.prems(1,2) b1(1)] by (simp add: add_to_data_block_def e)
  then show ?case using Cons.IH [OF b1(2), of k] b1(1) add_options [OF b1(1)] by (simp add: e)
qed

section \<open>Reading a block back\<close>

definition laid_out :: "entry list \<Rightarrow> runs \<Rightarrow> bytes \<Rightarrow> nat \<Rightarrow> nat \<Rightarrow> bool" where
  "laid_out es segs data rs n \<longleftrightarrow> runs_of es segs \<and> n = length segs \<and> block_ok data rs n
     \<and> take rs data = concat (map snd segs) \<and> rs = length (concat (map snd segs))
     \<and> (\<forall>i < n. nat (le_uint (take 4 (drop (rs + i * 4) data))) = run_start segs i)"

lemma length_PutFixed32 [simp]: "length (PutFixed32 w) = 4"
  by (simp add: PutFixed32_def)

lemma le_uint_PutFixed32 [simp]: "le_uint (PutFixed32 w) = uint w"
  using uint_bounded [of w] by (simp add: PutFixed32_def le_uint_le_bytes)

lemma length_concat_PutFixed32 [simp]: "length (concat (map PutFixed32 ws)) = 4 * length ws"
  by (induction ws) simp_all

lemma drop_concat_PutFixed32:
  "i < length ws \<Longrightarrow> take 4 (drop (i * 4) (concat (map PutFixed32 ws) @ r)) = PutFixed32 (ws ! i)"
proof (induction ws arbitrary: i)
  case Nil
  then show ?case by simp
next
  case (Cons w ws)
  then show ?case by (cases i) simp_all
qed

lemma unpack_small:
  fixes w :: "32 word"
  assumes "unat w < 2 ^ 31"
  shows "UnPackIndexTypeAndNumRestarts w = (kDataBlockBinarySearch, w)"
proof -
  have "w < 2 ^ 31" using assms unat_exp [of 31] by (simp only: word_less_nat_alt)
  note nb = small_word_bits [OF this]
  have "\<not> bit (w AND push_bit 31 1) i" for i
    using nb [of i] by (simp only: bit_and_iff bit_push_bit_iff) auto
  then have "w AND push_bit 31 1 = 0" by (intro bit_word_eqI) (simp only: bit_0_eq bot_apply bot_bool_def)
  moreover have "w AND 0x7FFFFFFF = w"
  proof -
    have m: "(0x7FFFFFFF :: 32 word) = mask 31" by (simp add: mask_eq_exp_minus_1)
    have "take_bit 31 w = w"
      using nb by (intro bit_word_eqI) (auto simp only: bit_take_bit_iff not_less intro: leI ccontr)
    then show ?thesis by (simp only: m take_bit_eq_mask)
  qed
  ultimately show ?thesis by (simp add: UnPackIndexTypeAndNumRestarts_def)
qed

lemma finish_laid_out:
  assumes b: "built es b segs" and bytes: "block_bytes es < 2 ^ 32"
  obtains data b' where "BlockBuilder_Finish b = ret (data, b')"
    "laid_out es segs data (length (block_buffer b)) (length segs)"
    "length data = length (block_buffer b) + 4 * length segs + 4"
    "drop (length data - 4) data = PutFixed32 (of_nat (length segs))"
proof -
  let ?ro = "restart_offsets b" and ?f = "of_nat (length segs) :: 32 word"
  let ?data = "block_buffer b @ concat (map PutFixed32 ?ro) @ PutFixed32 ?f"
  have ro: "?ro = map (\<lambda>i. of_nat (run_start segs i)) [0..<length segs]" and n: "length ?ro = length segs"
    and runs: "runs_of es segs" and buf: "block_buffer b = concat (map snd segs)"
    using b by (simp_all add: built_def)
  have len: "length ?data = length (block_buffer b) + 4 * length segs + 4" by (simp add: n)
  have lt: "length ?data < 2 ^ 32" using len built_bytes [OF b] bytes by simp
  have small: "length segs < 2 ^ 31" using lt len by simp
  then have "unat ?f = length segs" by (simp add: unat_of_nat)
  then have "\<not> ?f > 0x7FFFFFFF" using small by (simp add: word_less_nat_alt)
  then have "BlockBuilder_Finish b = ret (?data, b\<lparr>block_buffer := ?data, finished := True\<rparr>)"
    by (simp add: BlockBuilder_Finish_def PackIndexTypeAndNumRestarts_def n Let_def)
  moreover have "laid_out es segs ?data (length (block_buffer b)) (length segs)"
  proof -
    have "nat (le_uint (take 4 (drop (length (block_buffer b) + i * 4) ?data))) = run_start segs i"
      if i: "i < length segs" for i
    proof -
      have "run_start segs i \<le> length (block_buffer b)"
        using append_take_drop_id [of i segs] unfolding run_start_def buf
        by (metis concat_append le_add1 length_append map_append)
      then have "unat (of_nat (run_start segs i) :: 32 word) = run_start segs i"
        using lt by (simp add: unat_of_nat)
      then have u: "nat (uint (of_nat (run_start segs i) :: 32 word)) = run_start segs i"
        by (simp only: unat_eq_nat_uint)
      have "take 4 (drop (length (block_buffer b) + i * 4) ?data) = PutFixed32 (?ro ! i)"
        using drop_concat_PutFixed32 [of i ?ro] i n by simp
      then show ?thesis using u i by (simp add: ro)
    qed
    moreover have "segs \<noteq> []" using runs by (simp add: runs_of_def)
    then have "block_ok ?data (length (block_buffer b)) (length segs)"
      using len lt by (simp add: block_ok_def n)
    ultimately show ?thesis using runs buf unfolding laid_out_def by simp
  qed
  moreover have "drop (length ?data - 4) ?data = PutFixed32 ?f" by simp
  ultimately show ?thesis using that len by blast
qed

lemma iterator_over:
  assumes l: "laid_out es segs data rs n" and len: "length data = rs + 4 * n + 4"
    and foot: "drop (length data - 4) data = PutFixed32 (of_nat n)"
  shows "\<exists>b it. Block_new data = ret b \<and> KetiNewDataIterator b = ret it \<and> over data rs n it \<and> current it = rs"
proof -
  have ok: "0 < n" "length data < 2 ^ 32" and okb: "block_ok data rs n"
    using l by (auto simp: laid_out_def block_ok_def)
  let ?n = "of_nat n :: 32 word" and ?rs = "of_nat rs :: 32 word"
  have un: "unat ?n = n" and ur: "unat ?rs = rs" using ok len by (simp_all add: unat_of_nat)
  have footer: "DecodeFixed32 data (length data - 4) = ret n"
  proof -
    have "take 4 (drop (length data - 4) data) = PutFixed32 ?n" by (simp add: foot)
    moreover have "nat (uint ?n) = n" using un by (simp only: unat_eq_nat_uint)
    ultimately show ?thesis using len by (simp add: DecodeFixed32_def slice_at_def)
  qed
  have small: "unat ?n < 2 ^ 31" using un ok len by simp
  have nr: "NumRestarts data (length data) = ret ?n"
    using footer len ok unpack_small [OF small] by (simp add: NumRestarts_def)
  have it: "IndexType data (length data) = ret kDataBlockBinarySearch"
    using footer len ok unpack_small [OF small] by (simp add: IndexType_def)
  have ro: "of_nat (length data) - (1 + ?n) * 4 = ?rs" by (simp add: len algebra_simps)
  let ?b = "\<lparr>block_data = data, block_size_of = length data, restart_offset = ?rs, num_restarts = ?n\<rparr>"
  have "Block_new data = ret ?b"
    using nr it ro ur len ok by (simp add: Block_new_def Let_def)
  moreover have "?n \<noteq> 0" using un ok by auto
  then have "\<exists>it. KetiNewDataIterator ?b = ret it \<and> over data rs n it \<and> current it = rs"
    using ok len un ur okb by (simp add: KetiNewDataIterator_def InitializeBase_def DataBlockIter_new_def over_def)
  ultimately show ?thesis by blast
qed

abbreviation fresh_builder :: "int \<Rightarrow> bool \<Rightarrow> BlockBuilder" where
  "fresh_builder interval delta \<equiv>
     \<lparr>block_restart_interval = interval, use_delta_encoding = delta, use_value_delta_encoding = False,
      block_buffer = [], restart_offsets = [0], counter = 0, finished = False, last_key = [], estimate = 8\<rparr>"

lemma write_block_resets:
  assumes b: "built es b segs" and f: "BlockBuilder_Finish b = ret (data, b')"
  shows "write_data_block (b\<lparr>last_key := []\<rparr>)
    = ret (data, fresh_builder (block_restart_interval b) (use_delta_encoding b))"
proof -
  have "segs \<noteq> []" and ro: "restart_offsets b = map (\<lambda>i. of_nat (run_start segs i)) [0..<length segs]"
    and vd: "\<not> use_value_delta_encoding b" using b by (auto simp: built_def runs_of_def)
  then have first: "take 1 (restart_offsets b @ [0]) = [0]"
    by (cases segs) (simp_all add: run_start_def upt_conv_Cons del: upt_Suc)
  obtain w where "PackIndexTypeAndNumRestarts kDataBlockBinarySearch (of_nat (length (restart_offsets b))) = ret w"
    "data = block_buffer b @ concat (map PutFixed32 (restart_offsets b)) @ PutFixed32 w"
    using f by (auto simp: BlockBuilder_Finish_def bind_eq_Done Let_def)
  then have "write_data_block (b\<lparr>last_key := []\<rparr>) = ret (data, b\<lparr>block_buffer := [], restart_offsets := [0],
      estimate := 8, counter := 0, finished := False, last_key := []\<rparr>)"
    using first by (simp add: write_data_block_def BlockBuilder_Finish_def BlockBuilder_SwapAndReset_def
      BlockBuilder_Reset_def Let_def)
  then show ?thesis using vd by (cases b) simp
qed

text \<open>Every block of a table is the block of its entries, whatever the blocks before it were.\<close>

lemma write_data_blocks_built:
  assumes "1 \<le> interval" and "\<forall>es \<in> set blocks. block_bytes es < 2 ^ 32"
  shows "\<exists>contents. write_data_blocks blocks (lk, fresh_builder interval delta) = ret contents
    \<and> list_all2 (\<lambda>es c. build_block interval delta es = ret c) blocks contents"
  using assms(2)
proof (induction blocks arbitrary: lk)
  case Nil
  then show ?case by simp
next
  case (Cons es blocks)
  have n: "BlockBuilder_new interval delta False = ret (fresh_builder interval delta)"
    and f0: "built [] (fresh_builder interval delta) [([], [])]"
    using new_built [OF assms(1), of delta] assms(1) by (auto simp: BlockBuilder_new_def)
  obtain b segs lk' where b: "fold_exec (\<lambda>(k, v). BlockBuilder_Add k v None) es (fresh_builder interval delta) = ret b"
    "built es b segs" "fold_exec add_to_data_block es (lk, fresh_builder interval delta) = ret (lk', b\<lparr>last_key := []\<rparr>)"
    "block_restart_interval b = interval" "use_delta_encoding b = delta"
    using fold_table [OF f0, of lk es] by auto
  obtain data b' where f: "BlockBuilder_Finish b = ret (data, b')"
    by (rule finish_laid_out [OF b(2)]) (use Cons.prems in auto)
  have w: "write_data_block (b\<lparr>last_key := []\<rparr>) = ret (data, fresh_builder interval delta)"
    using write_block_resets [OF b(2) f] b(4,5) by simp
  have "build_block interval delta es = ret data" using n b(1) f by (simp add: build_block_def)
  moreover obtain rest where "write_data_blocks blocks (lk', fresh_builder interval delta) = ret rest"
    "list_all2 (\<lambda>es c. build_block interval delta es = ret c) blocks rest"
    using Cons.IH [of lk'] Cons.prems by auto
  ultimately show ?case using b(3) w by simp
qed

section \<open>Sizes\<close>

lemma VarintLength_cases:
  "v < 2 ^ 32 \<Longrightarrow> VarintLength v =
     (if v < 2 ^ 7 then 1 else if v < 2 ^ 14 then 2 else if v < 2 ^ 21 then 3 else if v < 2 ^ 28 then 4 else 5)"
proof -
  assume v: "v < 2 ^ 32"
  have step: "VarintLength w = (if w < 128 then 1 else Suc (VarintLength (w div 128)))" for w
    by (subst VarintLength.simps) simp
  have "v div 128 div 128 = v div 2 ^ 14" "v div 2 ^ 14 div 128 = v div 2 ^ 21" "v div 2 ^ 21 div 128 = v div 2 ^ 28"
    by (simp_all add: div_mult2_eq [symmetric])
  moreover have "v div 128 < 128 \<longleftrightarrow> v < 2 ^ 14" "v div 2 ^ 14 < 128 \<longleftrightarrow> v < 2 ^ 21" "v div 2 ^ 21 < 128 \<longleftrightarrow> v < 2 ^ 28"
    "v div 2 ^ 28 < 128"
    using v by (simp_all add: div_less_iff_less_mult)
  ultimately show ?thesis
    using step [of v] step [of "v div 128"] step [of "v div 2 ^ 14"] step [of "v div 2 ^ 21"] step [of "v div 2 ^ 28"]
    by simp
qed

lemma VarintLength_encode: "v < 2 ^ 32 \<Longrightarrow> length (EncodeVarint32 (of_nat v)) = VarintLength v"
  by (simp add: VarintLength_cases EncodeVarint32_def word_less_nat_alt unat_of_nat)

lemma VarintLength_mono: "v \<le> w \<Longrightarrow> w < 2 ^ 32 \<Longrightarrow> VarintLength v \<le> VarintLength w"
  by (simp add: VarintLength_cases)

lemma finish_size:
  assumes "built es b segs" and "block_bytes es < 2 ^ 32"
  shows "\<exists>data b'. BlockBuilder_Finish b = ret (data, b') \<and> length data = estimate b"
proof -
  obtain data b' where "BlockBuilder_Finish b = ret (data, b')"
    "length data = length (block_buffer b) + 4 * length segs + 4"
    by (rule finish_laid_out [OF assms])
  then show ?thesis using assms(1) by (simp add: built_def)
qed

text \<open>The size the flush policy asks for bounds the size after the entry, for keys below 256 megabytes.\<close>

lemma estimate_bounds:
  assumes b: "built es b segs" and k: "length k < 2 ^ 28" and v: "length v < 2 ^ 32"
    and add: "BlockBuilder_Add k v None b = ret b'"
  shows "estimate b' \<le> EstimateSizeAfterKV k v b"
proof -
  have enc: "length (enc_entry s k v) \<le> 4 + VarintLength (length k) + VarintLength (length v) + length k + length v"
    if s: "s \<le> length k" for s
  proof -
    have "VarintLength s \<le> 4" using s k by (simp add: VarintLength_cases)
    moreover have "VarintLength (length k - s) \<le> VarintLength (length k)" using k by (intro VarintLength_mono) simp_all
    ultimately show ?thesis
      using s k v by (simp add: enc_entry_def VarintLength_encode del: of_nat_diff)
  qed
  note a = built_accepts [OF b]
  let ?r = "block_restart_interval b \<le> counter b"
  let ?s = "if \<not> ?r \<and> use_delta_encoding b then difference_offset k (last_key b) else 0"
  have "estimate b' = estimate b + (if ?r then 4 else 0) + length (enc_entry ?s k v)"
    using add a by (auto simp: BlockBuilder_Add_def AddWithLastKeyImpl_def Let_def enc_entry_def)
  moreover have "?s \<le> length k" using difference_offset_prefix [of k "last_key b"] by simp
  ultimately show ?thesis using enc [of ?s] a by (simp add: EstimateSizeAfterKV_def Let_def)
qed

end
