(* ===== verification/Block_Seek.thy ===== *)
theory Block_Seek
  imports Block_Laws
begin

text \<open>
  \<^verbatim>\<open>SeekToFirst\<close> and \<^verbatim>\<open>Seek\<close> on a finished block: the binary search over the restart points, the linear
  search within a run, and the theorems on reading a block and on gathering it from the device.
\<close>


section \<open>Seeking\<close>

lemma run_point:
  assumes "laid_out es segs data rs n" "over data rs n it" "i < n"
  shows "GetRestartPoint it i = ret (run_start segs i)"
proof -
  have "nat (le_uint (take 4 (drop (rs + i * 4) data))) = run_start segs i"
    using assms(1,3) unfolding laid_out_def by blast
  then show ?thesis by (simp only: restart_point [OF assms(2,3)])
qed

lemma seek_restart:
  assumes l: "laid_out es segs data rs n" and o: "over data rs n it" and i: "i < n"
  shows "\<exists>it'. SeekToRestartPoint i it = ret it'
     \<and> before data rs n it' (run_start segs i) (concat (map fst (drop i segs)))"
proof -
  note rp = run_point [OF l o i]
  have cat: "concat (map snd segs) = concat (map snd (take i segs)) @ concat (map snd (drop i segs))"
    by (metis append_take_drop_id concat_append map_append)
  have rs: "take rs data = concat (map snd segs)" "rs = length (concat (map snd segs))" and runs: "runs_of es segs"
    using l unfolding laid_out_def by blast+
  have "run_start segs i \<le> rs"
    by (simp only: rs(2) cat run_start_def length_append le_add1)
  moreover have "drop (run_start segs i) (take rs data) = concat (map snd (drop i segs))"
    by (simp only: rs(1) cat run_start_def) simp
  moreover have "coded [] (concat (map fst (drop i segs))) (concat (map snd (drop i segs)))"
    using runs unfolding runs_of_def by (intro coded_concat) (meson in_set_dropD)
  ultimately show ?thesis using rp o by (simp add: SeekToRestartPoint_def before_def over_def)
qed

lemma position_restart:
  assumes "laid_out es segs data rs n" "over data rs n it" "i < n"
  obtains it' it'' where "SeekToRestartPoint i it = ret it'" "NextImpl it' = ret it''"
    "block_remains data rs n it'' (concat (map fst (drop i segs)))"
    "concat (map fst (drop i segs)) \<noteq> [] \<Longrightarrow> current it'' = run_start segs i"
proof -
  obtain it' where s: "SeekToRestartPoint i it = ret it'"
    and b: "before data rs n it' (run_start segs i) (concat (map fst (drop i segs)))"
    using seek_restart [OF assms] by blast
  show thesis by (rule next_remains [OF b]) (rule that [OF s])
qed

lemma seek_first:
  assumes "laid_out es segs data rs n" "over data rs n it"
  shows "\<exists>it'. SeekToFirstImpl it = ret it' \<and> block_remains data rs n it' es"
proof -
  have n: "0 < n" and es: "concat (map fst (drop 0 segs)) = es"
    using assms by (auto simp: over_def block_ok_def laid_out_def runs_of_def)
  obtain it' it'' where "SeekToRestartPoint 0 it = ret it'" "NextImpl it' = ret it''" "block_remains data rs n it'' es"
    by (rule position_restart [OF assms n, unfolded es])
  then show ?thesis using assms(2) by (simp add: SeekToFirstImpl_def over_def)
qed

text \<open>The first key of a run, as \<^verbatim>\<open>BinarySeek\<close> reads it.\<close>

definition run_key :: "runs \<Rightarrow> nat \<Rightarrow> bytes" where
  "run_key segs i = fst (hd (fst (segs ! i)))"

lemma drop_runs:
  assumes "runs_of es segs" "es \<noteq> []" "i < length segs"
  obtains v e where "concat (map fst (drop i segs)) = (run_key segs i, v) # e @ concat (map fst (drop (Suc i) segs))"
    "fst (segs ! i) = (run_key segs i, v) # e"
proof -
  have "fst (segs ! i) \<noteq> []" using runs_nonempty [OF assms(1,2)] assms(3) by simp
  then obtain k v e where s: "fst (segs ! i) = (k, v) # e" by (metis list.exhaust prod.exhaust)
  moreover have "drop i segs = segs ! i # drop (Suc i) segs" using assms(3) by (simp add: Cons_nth_drop_Suc)
  ultimately show ?thesis using that [of v e] by (simp add: run_key_def)
qed

lemma restart_key:
  assumes l: "laid_out es segs data rs n" and o: "over data rs n it" and i: "i < n" and ne: "es \<noteq> []"
  shows "\<exists>p m u q. GetRestartPoint it i = ret (run_start segs i) \<and> run_start segs i \<le> rs
     \<and> slice_at data (run_start segs i) (rs - run_start segs i) = ret p
     \<and> DecodeEntry p = ret (Some (0, m, u, q))
     \<and> slice_at data (rs - length q) (unat m) = ret (run_key segs i)"
proof -
  have runs: "runs_of es segs" "i < length segs" using l i by (auto simp: laid_out_def)
  obtain v e where d: "concat (map fst (drop i segs)) = (run_key segs i, v) # e @ concat (map fst (drop (Suc i) segs))"
    by (rule drop_runs [OF runs(1) ne runs(2)])
  obtain it' where b: "before data rs n it' (run_start segs i) (concat (map fst (drop i segs)))"
    and sk: "SeekToRestartPoint i it = ret it'"
    using seek_restart [OF l o i] by blast
  have raw: "raw_key it' = []"
    using sk run_point [OF l o i] by (auto simp: SeekToRestartPoint_def)
  have c: "coded [] ((run_key segs i, v) # e @ concat (map fst (drop (Suc i) segs)))
      (drop (run_start segs i) (take rs data))" and le: "run_start segs i \<le> rs" and ok: "block_ok data rs n"
    using b raw d by (simp_all add: before_def over_def)
  note rp = run_point [OF l o i]
  show ?thesis
  proof (rule entry_decoded [OF ok c _ le])
    show "length [] \<le> run_start segs i" by simp
  qed (use rp le in force)
qed

lemma binary_turn:
  assumes l: "laid_out es segs data rs n" and o: "over data rs n it" and ne: "es \<noteq> []"
    and lr: "left < right" "- 1 \<le> left" "right < int n"
  defines "mid \<equiv> left + (right - left + 1) div 2"
  defines "it' \<equiv> it\<lparr>raw_key := run_key segs (nat mid)\<rparr>"
  assumes c: "InternalKey_Compare (run_key segs (nat mid)) target = ret c"
  shows "binary_loop target left right skip it =
     (if c < 0 then binary_loop target mid right skip it'
      else if c > 0 then binary_loop target left (mid - 1) skip it'
      else binary_loop target mid mid True it')"
proof -
  have "nat mid < n" using lr by (simp add: mid_def)
  from restart_key [OF l o this ne] obtain p m u q
    where r: "GetRestartPoint it (nat mid) = ret (run_start segs (nat mid))" "run_start segs (nat mid) \<le> rs"
      "slice_at data (run_start segs (nat mid)) (rs - run_start segs (nat mid)) = ret p"
      "DecodeEntry p = ret (Some (0, m, u, q))" "slice_at data (rs - length q) (unat m) = ret (run_key segs (nat mid))"
    by blast
  have d: "iter_data it = Some data" "restarts it = rs" using o by (simp_all add: over_def)
  show ?thesis
    unfolding binary_loop.simps [of target left right skip it]
    using lr r c d by (simp add: Let_def mid_def [symmetric] it'_def the_data_def CompareCurrentKey_def)
qed

lemma binary_search:
  assumes l: "laid_out es segs data rs n" and ne: "es \<noteq> []"
    and keys: "\<And>i. i < n \<Longrightarrow> 8 \<le> length (run_key segs i)" and t: "8 \<le> length target"
    and mono: "\<And>i j. i < j \<Longrightarrow> j < n \<Longrightarrow> ikey_before (run_key segs i) (run_key segs j)"
  shows "over data rs n it \<Longrightarrow> - 1 \<le> left \<Longrightarrow> left \<le> right \<Longrightarrow> right < int n \<Longrightarrow>
    (\<And>i. right < int i \<Longrightarrow> i < n \<Longrightarrow> ikey_before target (run_key segs i)) \<Longrightarrow>
    (0 \<le> left \<Longrightarrow> (if skip then run_key segs (nat left) = target else ikey_before (run_key segs (nat left)) target)) \<Longrightarrow>
    (skip \<Longrightarrow> left = right \<and> 0 \<le> left) \<Longrightarrow>
    \<exists>index s it'. binary_loop target left right skip it = ret (Some (index, s), it') \<and> over data rs n it' \<and> index < n
      \<and> (\<forall>i. index < i \<and> i < n \<longrightarrow> ikey_before target (run_key segs i))
      \<and> (if s then run_key segs index = target \<or> index = 0 \<and> ikey_before target (run_key segs 0)
         else ikey_before (run_key segs index) target)"
proof (induction "nat (right - left)" arbitrary: left right skip it rule: less_induct)
  case less
  note o = less.prems(1) and lb = less.prems(2) and le = less.prems(3) and rb = less.prems(4)
    and above = less.prems(5) and at_left = less.prems(6) and sk = less.prems(7)
  show ?case
  proof (cases "left < right")
    case False
    then have eq: "left = right" using le by simp
    have b: "binary_loop target left right skip it = ret (Some (if left = -1 then (0, True) else (nat left, skip)), it)"
      using False by (subst binary_loop.simps) simp
    have n: "0 < n" using o by (simp add: over_def block_ok_def)
    show ?thesis
    proof (cases "left = -1")
      case True
      then have "ikey_before target (run_key segs i)" if "i < n" for i using above that eq by simp
      then show ?thesis using b True o n by (intro exI [of _ 0] exI [of _ True] exI [of _ it]) simp
    next
      case False
      have "ikey_before target (run_key segs i)" if "nat left < i" "i < n" for i
        using above that eq False lb by simp
      then show ?thesis using b False o at_left lb rb eq by auto
    qed
  next
    case True
    then have s: "\<not> skip" using sk by auto
    define mid where "mid = left + (right - left + 1) div 2"
    define it' where "it' = it\<lparr>raw_key := run_key segs (nat mid)\<rparr>"
    have m: "left < mid" "mid \<le> right" "0 \<le> mid" "nat mid < n" using True lb rb by (simp_all add: mid_def)
    have o': "over data rs n it'" using o by (simp add: it'_def over_def)
    obtain c where c: "InternalKey_Compare (run_key segs (nat mid)) target = ret c"
      "c < 0 \<longleftrightarrow> ikey_before (run_key segs (nat mid)) target" "0 < c \<longleftrightarrow> ikey_before target (run_key segs (nat mid))"
      by (rule InternalKey_Compare_cases [OF keys [OF m(4)] t])
    note turn = binary_turn [OF l o ne True lb rb, folded mid_def, OF c(1), folded it'_def]
    consider "c < 0" | "c > 0" | "c = 0" by linarith
    then show ?thesis
    proof cases
      case 1
      have "nat (right - mid) < nat (right - left)" using m by linarith
      then show ?thesis unfolding turn
        using less.hyps [of right mid it' skip] o' m rb above c(2) 1 s by simp
    next
      case 2
      then have k: "ikey_before target (run_key segs (nat mid))" using c(3) by simp
      have "ikey_before target (run_key segs i)" if "mid - 1 < int i" "i < n" for i
      proof (cases "i = nat mid")
        case False
        then have "nat mid < i" using that m by linarith
        then show ?thesis using mono [of "nat mid" i] that k ikey_before_trans by blast
      qed (use k in simp)
      moreover have "nat (mid - 1 - left) < nat (right - left)" using m by linarith
      ultimately show ?thesis unfolding turn
        using less.hyps [of "mid - 1" left it' skip] o' m lb rb at_left 2 s by simp
    next
      case 3
      then have "run_key segs (nat mid) = target"
        using ikey_total [OF keys [OF m(4)] t] c(2,3) by simp
      moreover have "ikey_before target (run_key segs i)" if "mid < int i" "i < n" for i
        using mono [of "nat mid" i] that m calculation by simp
      moreover have "nat (mid - mid) < nat (right - left)" using m by simp
      ultimately show ?thesis unfolding turn
        using less.hyps [of mid mid it' True] o' m rb 3 by simp
    qed
  qed
qed

lemma split_runs:
  "runs_of es segs \<Longrightarrow> es = concat (map fst (take i segs)) @ concat (map fst (drop i segs))"
  unfolding runs_of_def by (metis append_take_drop_id concat_append map_append)

lemma linear_search:
  assumes t: "8 \<le> length target"
    and lim: "\<And>prev k v es'. coded prev ((k, v) # es') (drop m (take rs data)) \<Longrightarrow> length prev < 2 ^ 32 \<Longrightarrow>
      ikey_before target k"
  shows "block_remains data rs n it (e # es) \<Longrightarrow> (\<And>x. x \<in> set es \<Longrightarrow> 8 \<le> length (fst x)) \<Longrightarrow>
    \<exists>it'. linear_loop target m it = Some (ret it')
      \<and> block_remains data rs n it' (dropWhile (\<lambda>x. ikey_before (fst x) target) es)"
proof (induction es arbitrary: it e)
  case Nil
  obtain off where b: "before data rs n it off []" using Nil.prems(1) by (auto simp: block_remains_def)
  obtain it' where n: "NextImpl it = ret it'" and r: "block_remains data rs n it' []"
    by (rule next_remains [OF b])
  then show ?case using bc.valid_remains [OF r] by (subst linear_loop.simps) simp
next
  case (Cons x es)
  obtain k v where x: "x = (k, v)" by (cases x)
  obtain off where b: "before data rs n it off (x # es)" using Cons.prems(1) by (auto simp: block_remains_def)
  obtain it' where nx: "NextImpl it = ret it'" and r: "block_remains data rs n it' (x # es)" and cur: "current it' = off"
    by (rule next_remains [OF b]) simp
  have valid: "BlockIter_Valid it'" using bc.valid_remains [OF r] by simp
  have "raw_key it' = k" using r x by (simp add: block_remains_def)
  moreover have "8 \<le> length k" using Cons.prems(2) [of x] x by simp
  ultimately obtain c where c: "CompareCurrentKey it' target = ret c" "c < 0 \<longleftrightarrow> ikey_before k target"
      "0 < c \<longleftrightarrow> ikey_before target k"
    unfolding CompareCurrentKey_def using InternalKey_Compare_cases [OF _ t] by metis
  show ?case
  proof (cases "off = m")
    case True
    have "coded (raw_key it) ((k, v) # es) (drop m (take rs data))" "length (raw_key it) < 2 ^ 32"
      using b x True by (auto simp: before_def over_def block_ok_def)
    then have "ikey_before target k" by (rule lim)
    then have "0 < c" "\<not> ikey_before k target" using c by auto
    then show ?thesis using nx valid c(1) cur True r x by (subst linear_loop.simps) simp
  next
    case False
    show ?thesis
    proof (cases "ikey_before k target")
      case lt: True
      obtain it'' where "linear_loop target m it' = Some (ret it'')"
        "block_remains data rs n it'' (dropWhile (\<lambda>x. ikey_before (fst x) target) es)"
        using Cons.IH [OF r] Cons.prems(2) by auto
      then show ?thesis using nx valid c cur False lt x
        by (subst linear_loop.simps) (simp add: flag_def)
    next
      case ge: False
      then show ?thesis using nx valid c cur False r x by (subst linear_loop.simps) simp
    qed
  qed
qed

lemma find_key:
  assumes l: "laid_out es segs data rs n" and o: "over data rs n it" and ne: "es \<noteq> []" and i: "index < n"
    and keys: "\<And>x. x \<in> set es \<Longrightarrow> 8 \<le> length (fst x)" and t: "8 \<le> length target"
    and above: "\<And>i. index < i \<Longrightarrow> i < n \<Longrightarrow> ikey_before target (run_key segs i)"
  shows "\<exists>it'. FindKeyAfterBinarySeek target index skip it = ret it'
     \<and> block_remains data rs n it'
         (if skip then concat (map fst (drop index segs))
          else dropWhile (\<lambda>x. ikey_before (fst x) target) (tl (concat (map fst (drop index segs)))))"
proof -
  have runs: "runs_of es segs" "index < length segs" "n = length segs" using l i by (auto simp: laid_out_def)
  obtain v e where d: "concat (map fst (drop index segs))
      = (run_key segs index, v) # e @ concat (map fst (drop (Suc index) segs))"
    by (rule drop_runs [OF runs(1) ne runs(2)])
  obtain it1 it2 where s: "SeekToRestartPoint index it = ret it1" "NextImpl it1 = ret it2"
    and r: "block_remains data rs n it2 (concat (map fst (drop index segs)))"
    by (rule position_restart [OF l o i])
  have o2: "over data rs n it2" using r by (simp add: block_remains_def)
  define m where "m = (if index + 1 < n then run_start segs (index + 1) else 2 ^ 32 - 1)"
  have m: "(if index + 1 < iter_restarts it2 then GetRestartPoint it2 (index + 1) else ret (2 ^ 32 - 1)) = ret m"
    using run_point [OF l o2] o2 by (simp add: m_def over_def)
  have bnd: "rs < 2 ^ 32" using o by (simp add: over_def block_ok_def)
  have lim: "ikey_before target k" if c: "coded prev ((k, u) # es') (drop m (take rs data))" and p: "length prev < 2 ^ 32"
    for prev k u es'
  proof (cases "index + 1 < n")
    case True
    obtain v' e' where d': "concat (map fst (drop (index + 1) segs))
        = (run_key segs (index + 1), v') # e' @ concat (map fst (drop (Suc (index + 1)) segs))"
      using drop_runs [OF runs(1) ne] True runs(3) by metis
    obtain it3 where b: "before data rs n it3 (run_start segs (index + 1)) (concat (map fst (drop (index + 1) segs)))"
      and sk: "SeekToRestartPoint (index + 1) it = ret it3"
      using seek_restart [OF l o True] by blast
    have "raw_key it3 = []" using sk run_point [OF l o True] by (auto simp: SeekToRestartPoint_def)
    then have "coded [] ((run_key segs (index + 1), v') # e' @ concat (map fst (drop (Suc (index + 1)) segs)))
        (drop m (take rs data))"
      using b d' True by (simp add: before_def m_def)
    from coded_first_key [OF c this _ p] have "k = run_key segs (index + 1)" using bnd by simp
    then show ?thesis using above [of "index + 1"] True by simp
  next
    case False
    then have "drop m (take rs data) = []" using bnd by (simp add: m_def)
    then show ?thesis using coded_empty [OF c] by simp
  qed
  have tail: "8 \<le> length (fst x)" if "x \<in> set (tl (concat (map fst (drop index segs))))" for x
  proof -
    have "x \<in> set (concat (map fst (drop index segs)))" using that by (rule list.set_sel(2) [rotated]) (simp add: d)
    then have "x \<in> set es" by (subst split_runs [OF runs(1), of index]) simp
    then show ?thesis by (rule keys)
  qed
  show ?thesis
  proof (cases skip)
    case True
    then show ?thesis using s r by (simp add: FindKeyAfterBinarySeek_def)
  next
    case False
    have r': "block_remains data rs n it2 ((run_key segs index, v) # tl (concat (map fst (drop index segs))))"
      using r d by simp
    obtain it3 where "linear_loop target m it2 = Some (ret it3)"
      "block_remains data rs n it3 (dropWhile (\<lambda>x. ikey_before (fst x) target) (tl (concat (map fst (drop index segs)))))"
      using linear_search [where m = m, OF t _ r'] lim tail by blast
    then show ?thesis using False s m by (simp add: FindKeyAfterBinarySeek_def)
  qed
qed

lemma run_keys_sorted:
  assumes runs: "runs_of es segs" and ne: "es \<noteq> []" and sorted: "sorted_wrt ikey_before (map fst es)"
    and ij: "i < j" "j < length segs"
  shows "ikey_before (run_key segs i) (run_key segs j)"
proof -
  have i: "i < length segs" using ij by simp
  obtain v e where d: "concat (map fst (drop i segs)) = (run_key segs i, v) # e @ concat (map fst (drop (Suc i) segs))"
    by (rule drop_runs [OF runs ne i])
  obtain v' e' where s: "fst (segs ! j) = (run_key segs j, v') # e'"
    using drop_runs [OF runs ne ij(2)] by metis
  have "segs ! j \<in> set (drop (Suc i) segs)"
    using ij by (auto simp: in_set_conv_nth intro!: exI [of _ "j - Suc i"])
  then have "(run_key segs j, v') \<in> set (concat (map fst (drop (Suc i) segs)))"
    using s by (auto intro!: bexI [of _ "segs ! j"])
  then have "run_key segs j \<in> fst ` set (e @ concat (map fst (drop (Suc i) segs)))" by force
  moreover have "sorted_wrt ikey_before (map fst (concat (map fst (drop i segs))))"
    using sorted by (subst (asm) split_runs [OF runs, of i]) (simp only: map_append sorted_wrt_append)
  then have "\<forall>k \<in> fst ` set (e @ concat (map fst (drop (Suc i) segs))). ikey_before (run_key segs i) k"
    by (simp only: d list.map sorted_wrt.simps fst_conv set_map) blast
  ultimately show ?thesis by blast
qed

lemma seek_position:
  assumes l: "laid_out es segs data rs n" and o: "over data rs n it" and c: "es = [] \<Longrightarrow> current it = rs"
    and sorted: "sorted_wrt ikey_before (map fst es)" and keys: "\<And>x. x \<in> set es \<Longrightarrow> 8 \<le> length (fst x)"
    and t: "8 \<le> length target"
  shows "\<exists>it'. SeekImpl target it = ret it'
     \<and> block_remains data rs n it' (dropWhile (\<lambda>x. ikey_before (fst x) target) es)"
proof (cases "es = []")
  case True
  have rs: "rs = length (concat (map snd segs))" and runs: "runs_of es segs"
    using l unfolding laid_out_def by blast+
  have "concat (map snd segs) = []" using coded_empty [OF runs_coded [OF runs]] True by simp
  then have "rs = 0" using rs by simp
  then have "SeekImpl target it = ret it" using o by (simp add: SeekImpl_def BinarySeek_def over_def)
  then show ?thesis using o c True by (simp add: block_remains_def)
next
  case ne: False
  have runs: "runs_of es segs" "n = length segs" using l by (auto simp: laid_out_def)
  have rk: "8 \<le> length (run_key segs i)" if i: "i < n" for i
  proof -
    obtain v e where "concat (map fst (drop i segs)) = (run_key segs i, v) # e @ concat (map fst (drop (Suc i) segs))"
      by (rule drop_runs [OF runs(1) ne i [unfolded runs(2)]])
    then have "(run_key segs i, v) \<in> set es" by (subst split_runs [OF runs(1), of i]) simp
    then show ?thesis using keys by fastforce
  qed
  have mono: "ikey_before (run_key segs i) (run_key segs j)" if "i < j" "j < n" for i j
    using run_keys_sorted [OF runs(1) ne sorted] that runs(2) by simp
  have it: "iter_data it = Some data" "restarts it = rs" "iter_restarts it = n" and n: "0 < n"
    using o by (auto simp: over_def block_ok_def)
  have rs: "rs \<noteq> 0"
    using restart_key [OF l o n ne] by (auto simp: DecodeEntry_def slice_at_def split: if_splits)
  obtain index s it' where b: "binary_loop target (-1) (int n - 1) False it = ret (Some (index, s), it')"
    and o': "over data rs n it'" and i: "index < n"
    and above: "\<forall>i. index < i \<and> i < n \<longrightarrow> ikey_before target (run_key segs i)"
    and at: "if s then run_key segs index = target \<or> index = 0 \<and> ikey_before target (run_key segs 0)
         else ikey_before (run_key segs index) target"
    using binary_search [OF l ne rk t mono o, of "-1" "int n - 1" False] n by auto
  have sk: "SeekImpl target it = FindKeyAfterBinarySeek target index s it'"
    using b it rs by (simp add: SeekImpl_def BinarySeek_def)
  obtain v e where d: "concat (map fst (drop index segs))
      = (run_key segs index, v) # e @ concat (map fst (drop (Suc index) segs))"
    by (rule drop_runs [OF runs(1) ne i [unfolded runs(2)]])
  let ?P = "\<lambda>x. ikey_before (fst x) target" and ?A = "concat (map fst (take index segs))"
  have es: "es = ?A @ (run_key segs index, v) # e @ concat (map fst (drop (Suc index) segs))"
    using split_runs [OF runs(1), of index] d by simp
  have A: "ikey_before (fst x) (run_key segs index)" if "x \<in> set ?A" for x
    using sorted that by (subst (asm) es) (auto simp: sorted_wrt_append)
  have "dropWhile ?P es = (if s then concat (map fst (drop index segs)) else dropWhile ?P (tl (concat (map fst (drop index segs)))))"
  proof (cases "s \<and> index = 0 \<and> ikey_before target (run_key segs 0)")
    case True
    then have "\<not> ikey_before (run_key segs index) target" using ikey_before_trans ikey_before_irrefl by blast
    then show ?thesis using True es d by simp
  next
    case False
    then have "ikey_before (fst x) target" if "x \<in> set ?A" for x
      using A [OF that] at ikey_before_trans by (auto split: if_splits)
    then have "dropWhile ?P es = dropWhile ?P (concat (map fst (drop index segs)))"
      using dropWhile_append2 [of ?A ?P] by (subst es) (simp only: d)
    then show ?thesis using False at d by (auto split: if_splits)
  qed
  then show ?thesis
    using find_key [OF l o' ne i keys t, of s] above sk by simp
qed

section \<open>What reading a block gives\<close>

lemma block_opened:
  assumes "1 \<le> interval" and "block_bytes es < 2 ^ 32" and "build_block interval delta es = ret contents"
  obtains it segs rs n where "KetiInitBlockIterator contents = ret it" "laid_out es segs contents rs n" "over contents rs n it" "current it = rs"
proof -
  obtain b0 where b0: "BlockBuilder_new interval delta False = ret b0" "built [] b0 [([], [])]"
    using new_built [OF assms(1)] by blast
  obtain b segs where b: "fold_exec (\<lambda>(k, v). BlockBuilder_Add k v None) es b0 = ret b" "built es b segs"
    using fold_built [OF b0(2), of es] by auto
  obtain data b' where f: "BlockBuilder_Finish b = ret (data, b')"
    "laid_out es segs data (length (block_buffer b)) (length segs)"
    "length data = length (block_buffer b) + 4 * length segs + 4"
    "drop (length data - 4) data = PutFixed32 (of_nat (length segs))"
    by (rule finish_laid_out [OF b(2) assms(2)])
  have "contents = data" using assms(3) b0 b f by (simp add: build_block_def)
  moreover obtain it where "KetiInitBlockIterator data = ret it"
    "over data (length (block_buffer b)) (length segs) it" "current it = length (block_buffer b)"
    using iterator_over [OF f(2-4)] by (auto simp: KetiInitBlockIterator_def)
  ultimately show ?thesis using that f(2) by blast
qed

lemma read_block_entries:
  assumes "1 \<le> interval" "block_bytes es < 2 ^ 32" "build_block interval delta es = ret contents"
  shows "entries_from SeekToFirstImpl (Suc (length es)) contents = ret es"
proof -
  obtain it segs rs n where it: "KetiInitBlockIterator contents = ret it"
    and l: "laid_out es segs contents rs n" "over contents rs n it"
    by (rule block_opened [OF assms(1-3)])
  obtain it' where s: "SeekToFirstImpl it = ret it'" and r: "block_remains contents rs n it' es"
    using seek_first [OF l] by blast
  have "walk_entries NextImpl BlockIter_Valid BlockIter_entry (Suc (length es)) it' = ret es"
    by (rule bc.walk_all [OF r]) simp
  then show ?thesis using it s by (simp add: entries_from_def)
qed

lemma seek_block_entries:
  assumes "1 \<le> interval" "block_bytes es < 2 ^ 32" "build_block interval delta es = ret contents"
    and "sorted_wrt ikey_before (map fst es)" "\<forall>e \<in> set es. 8 \<le> length (fst e)" "8 \<le> length target"
  shows "entries_from (SeekImpl target) (Suc (length es)) contents
     = ret (dropWhile (\<lambda>e. ikey_before (fst e) target) es)"
proof -
  let ?d = "dropWhile (\<lambda>e. ikey_before (fst e) target) es"
  obtain it segs rs n where it: "KetiInitBlockIterator contents = ret it"
    and l: "laid_out es segs contents rs n" "over contents rs n it" "current it = rs"
    by (rule block_opened [OF assms(1-3)])
  obtain it' where s: "SeekImpl target it = ret it'" and r: "block_remains contents rs n it' ?d"
    using seek_position [OF l(1,2) _ assms(4) _ assms(6)] l(3) assms(5) by blast
  have "walk_entries NextImpl BlockIter_Valid BlockIter_entry (Suc (length es)) it' = ret ?d"
    by (rule bc.walk_all [OF r]) (rule order_trans [OF length_dropWhile_le le_SucI [OF order_refl]])
  then show ?thesis using it s by (simp add: entries_from_def)
qed

text \<open>
  C7: the data blocks of a table round-trip. Whatever entries the blocks are built from, with or without
  prefix compression, for every restart interval and whatever key came before, building succeeds and
  the iterator over each block returns its entries in order, key for key and value for value, and ends.
\<close>

theorem table_blocks_roundtrip:
  assumes "1 \<le> interval" and "\<forall>es \<in> set blocks. block_bytes es < 2 ^ 32"
  shows "\<exists>b contents. BlockBuilder_new interval delta False = ret b \<and> write_data_blocks blocks (lk, b) = ret contents
    \<and> list_all2 (\<lambda>es c. entries_from SeekToFirstImpl (Suc (length es)) c = ret es) blocks contents"
proof -
  obtain contents where w: "write_data_blocks blocks (lk, fresh_builder interval delta) = ret contents"
    and c: "list_all2 (\<lambda>es c. build_block interval delta es = ret c) blocks contents"
    using write_data_blocks_built [OF assms] by blast
  have "list_all2 (\<lambda>es c. entries_from SeekToFirstImpl (Suc (length es)) c = ret es) blocks contents"
    using c assms by (auto simp: list_all2_iff intro!: read_block_entries dest: set_zip_leftD)
  then show ?thesis using w assms(1) by (simp add: BlockBuilder_new_def)
qed

theorem table_blocks_roundtrip_witness:
  "\<exists>b contents. BlockBuilder_new 2 True False = ret b
    \<and> write_data_blocks [[([1, 2, 3], [7]), ([1, 2, 4], []), ([1, 5], [8, 9])], [([1, 5, 6], [1])]] ([], b) = ret contents
    \<and> list_all2 (\<lambda>es c. entries_from SeekToFirstImpl (Suc (length es)) c = ret es)
        [[([1, 2, 3], [7]), ([1, 2, 4], []), ([1, 5], [8, 9])], [([1, 5, 6], [1])]] contents"
  by (rule table_blocks_roundtrip) (simp_all add: block_bytes_def)

text \<open>
  C8: seeking in a data block of a table. Where the internal keys increase strictly, \<^verbatim>\<open>Seek\<close>
  (a binary search over the restart points and a linear one within a run) stops at the first entry
  whose key is not before the target, for every target, and the later entries follow.
\<close>

theorem table_block_seek:
  assumes "1 \<le> interval" and "\<forall>es \<in> set blocks. block_bytes es < 2 ^ 32"
    and "\<forall>es \<in> set blocks. sorted_wrt ikey_before (map fst es) \<and> (\<forall>e \<in> set es. 8 \<le> length (fst e))"
    and "8 \<le> length target"
  shows "\<exists>b contents. BlockBuilder_new interval delta False = ret b \<and> write_data_blocks blocks (lk, b) = ret contents
    \<and> list_all2 (\<lambda>es c. entries_from (SeekImpl target) (Suc (length es)) c
        = ret (dropWhile (\<lambda>e. ikey_before (fst e) target) es)) blocks contents"
proof -
  obtain contents where w: "write_data_blocks blocks (lk, fresh_builder interval delta) = ret contents"
    and c: "list_all2 (\<lambda>es c. build_block interval delta es = ret c) blocks contents"
    using write_data_blocks_built [OF assms(1,2)] by blast
  have "list_all2 (\<lambda>es c. entries_from (SeekImpl target) (Suc (length es)) c
      = ret (dropWhile (\<lambda>e. ikey_before (fst e) target) es)) blocks contents"
    using c assms by (auto simp: list_all2_iff intro!: seek_block_entries dest: set_zip_leftD)
  then show ?thesis using w assms(1) by (simp add: BlockBuilder_new_def)
qed

theorem table_block_seek_witness:
  "\<exists>b contents. BlockBuilder_new 2 True False = ret b
    \<and> write_data_blocks [[([1, 1, 9, 0, 0, 0, 0, 0, 0, 0], [10]), ([1, 1, 8, 0, 0, 0, 0, 0, 0, 0], [20]),
        ([1, 2, 7, 0, 0, 0, 0, 0, 0, 0], [30])]] ([], b) = ret contents
    \<and> list_all2 (\<lambda>es c. entries_from (SeekImpl [1, 1, 8, 0, 0, 0, 0, 0, 0, 0]) (Suc (length es)) c
        = ret (dropWhile (\<lambda>e. ikey_before (fst e) [1, 1, 8, 0, 0, 0, 0, 0, 0, 0]) es))
        [[([1, 1, 9, 0, 0, 0, 0, 0, 0, 0], [10]), ([1, 1, 8, 0, 0, 0, 0, 0, 0, 0], [20]),
          ([1, 2, 7, 0, 0, 0, 0, 0, 0, 0], [30])]] contents"
  by (rule table_block_seek) (simp_all add: block_bytes_def ikey_before_def)

section \<open>Reading a block from its places\<close>

lemma fetch_parts_all:
  "list_all2 (\<lambda>off len. off + len \<le> length d) offs lens \<Longrightarrow> got + sum_list lens \<le> length buf \<Longrightarrow>
   length buf < 2 ^ 64 \<Longrightarrow>
   \<exists>buf'. fetch_parts (Some d) offs lens buf got = ret (buf', got + sum_list lens) \<and> length buf' = length buf
     \<and> take (got + sum_list lens) buf' =
        take got buf @ concat (map2 (\<lambda>off len. take len (drop off d)) offs lens)"
proof (induction offs lens arbitrary: buf got rule: list_all2_induct)
  case Nil
  then show ?case by simp
next
  case (Cons off offs len lens)
  let ?p = "take len (drop off d)"
  let ?buf = "store_bytes buf got ?p"
  have p: "length ?p = len" using Cons.hyps by simp
  have fit: "got + length ?p \<le> length buf" using Cons.prems p by simp
  then have m: "memcpy_into buf (int got) ?p = ret ?buf" using memcpy_into_exact [of "int got" ?p buf] by simp
  have mod: "(got + length ?p) mod 2 ^ 64 = got + len" using Cons.prems p fit by simp
  have len: "length ?buf = length buf" by (rule length_store_bytes [OF fit])
  have "take (got + len) ?buf = take got buf @ ?p"
    using take_store_bytes [OF fit] p by simp
  moreover obtain buf' where "fetch_parts (Some d) offs lens ?buf (got + len) = ret (buf', got + len + sum_list lens)"
    "length buf' = length ?buf" "take (got + len + sum_list lens) buf' =
        take (got + len) ?buf @ concat (map2 (\<lambda>off len. take len (drop off d)) offs lens)"
    using Cons.IH [of "got + len" ?buf] Cons.prems len by (auto simp: add.assoc)
  ultimately show ?case using m mod len by (simp add: read_part_def add.assoc)
qed

lemma fetched_contents:
  assumes "list_all2 (\<lambda>off len. off + len \<le> length d) offs lens" and "sum_list lens \<le> 5000"
    and "concat (map2 (\<lambda>off len. take len (drop off d)) offs lens) = contents @ trailer" and "length trailer = 5"
  shows "ReadBlockContentsByPBA (Some d) offs lens = ret contents"
proof -
  let ?c = "concat (map2 (\<lambda>off len. take len (drop off d)) offs lens)"
  have sum: "length ?c = sum_list lens"
    using assms(1) by (induction rule: list_all2_induct) simp_all
  then have size: "sum_list lens = length contents + 5" using assms(3,4) by simp
  then have cs: "(sum_list lens mod 2 ^ 64 + (2 ^ 64 - 5)) mod 2 ^ 64 = length contents"
    using assms(2) by simp
  obtain buf where "fetch_parts (Some d) offs lens (replicate 5000 0) 0 = ret (buf, sum_list lens)"
    "take (sum_list lens) buf = ?c"
    using fetch_parts_all [OF assms(1), of 0 "replicate 5000 0"] assms(2) by auto
  moreover have "take (length contents) buf = take (length contents) (take (sum_list lens) buf)" using size by simp
  ultimately have "take (length contents) buf = contents" using assms(3) by simp
  then show ?thesis
    using \<open>fetch_parts _ _ _ _ _ = _\<close> cs size assms(2)
    by (simp only: ReadBlockContentsByPBA_def Let_def bind_ret prod.case) simp
qed

text \<open>
  C27: the parts of a block that lie inside the device and fit the buffer are put together in the
  order they are listed, and the contents are the block without its trailer, with nothing read or
  written outside the buffer.
\<close>

theorem fetched_block_contents:
  assumes "list_all2 (\<lambda>off len. off + len \<le> length d) offs lens" and "sum_list lens \<le> 5000"
    and "concat (map2 (\<lambda>off len. take len (drop off d)) offs lens) = contents @ trailer" and "length trailer = 5"
  shows "ReadBlockContentsByPBA (Some d) offs lens = ret contents"
  using assms by (rule fetched_contents)

theorem fetched_block_contents_witness:
  "ReadBlockContentsByPBA (Some [9, 8, 7, 6, 5, 4, 3, 2, 1, 0]) [4, 0] [3, 4] = ret [5, 4]"
  by (rule fetched_block_contents [where trailer = "[3, 9, 8, 7, 6]"]) (simp_all add: numeral_eq_Suc)

end
