(* ===== verification/Db_Laws.thy ===== *)
theory Db_Laws
  imports Db_Iter Block_Seek
begin

text \<open>
  What the database iterator shows of a block: for every user key its newest version that the
  snapshot sees, unless that is a deletion. On a block it refines the iterator of the scan layer.
\<close>

section \<open>Versions of a key\<close>

definition ukey :: "bytes \<Rightarrow> bytes" where
  "ukey k = take (length k - 8) k"

definition footer :: "bytes \<Rightarrow> nat" where
  "footer k = nat (le_uint (drop (length k - 8) k))"

definition seqno :: "bytes \<Rightarrow> nat" where
  "seqno k = footer k div 256"

definition vtype :: "bytes \<Rightarrow> ValueType option" where
  "vtype k = value_type_of_code (footer k mod 256)"

definition shows_value :: "entry \<Rightarrow> bool" where
  "shows_value e \<longleftrightarrow> vtype (fst e) \<in> {Some kTypeValue, Some kTypeBlobIndex}"

definition hides_key :: "entry \<Rightarrow> bool" where
  "hides_key e \<longleftrightarrow> vtype (fst e) \<in> {Some kTypeDeletion, Some kTypeSingleDeletion, Some kTypeDeletionWithTimestamp}"

definition version_ok :: "entry \<Rightarrow> bool" where
  "version_ok e \<longleftrightarrow> 8 \<le> length (fst e) \<and> (shows_value e \<or> hides_key e)"

definition version_before :: "bytes \<Rightarrow> bytes \<Rightarrow> bool" where
  "version_before a b \<longleftrightarrow> ukey a < ukey b \<or> ukey a = ukey b \<and> seqno b < seqno a"

lemma ikey_before_versions:
  "ikey_before a b \<longleftrightarrow> ukey a < ukey b \<or> ukey a = ukey b \<and> footer b < footer a"
  using le_uint_nonneg [of "drop (length b - 8) b"]
  by (auto simp: ikey_before_def ukey_def footer_def zless_nat_conj simp del: le_uint_nonneg intro: le_less_trans)

lemma version_ikey: "version_before a b \<Longrightarrow> ikey_before a b"
  using div_le_mono [of "footer a" "footer b" 256]
  by (auto simp: version_before_def ikey_before_versions seqno_def not_less [symmetric])

lemma versions_sorted: "sorted_wrt version_before ks \<Longrightarrow> sorted_wrt ikey_before ks"
  using sorted_wrt_mono_rel [of ks version_before ikey_before] version_ikey by blast

lemma type_code_le: "vtype k = Some t \<Longrightarrow> footer k mod 256 \<le> 0x14"
  by (auto simp: vtype_def value_type_of_code_def split: if_splits)

lemma parse_version:
  "8 \<le> length k \<Longrightarrow> vtype k = Some t \<Longrightarrow> ParseInternalKey k = ret (Some (ukey k, seqno k, t))"
  using type_code_le [of k t]
  by (simp add: ParseInternalKey_def Let_def ukey_def seqno_def vtype_def footer_def [symmetric])

lemma seek_key_parts:
  assumes "p < 2 ^ 64"
  shows "ukey (u @ le_bytes 8 (int p)) = u" "footer (u @ le_bytes 8 (int p)) = p"
  using assms by (simp_all add: ukey_def footer_def le_uint_le_bytes)

lemma append_key:
  assumes "s \<le> kMaxSequenceNumber"
  obtains key where "AppendInternalKey u s t = ret key" "8 \<le> length key" "ukey key = u"
    "footer key = s * 256 + type_code t"
proof -
  have "type_code t \<le> 0x14" by (cases t) simp_all
  then have "s * 256 + type_code t < 2 ^ 64" using assms by (simp add: kMaxSequenceNumber_def)
  note parts = seek_key_parts [OF this]
  show ?thesis
    using that [of "u @ le_bytes 8 (int (s * 256 + type_code t))"] parts assms
    by (simp add: AppendInternalKey_def PackSequenceAndType_def)
qed

text \<open>The user entries of a sorted list of versions; \<open>skip\<close> is the key whose versions are done.\<close>

fun user_view :: "nat \<Rightarrow> bytes option \<Rightarrow> entry list \<Rightarrow> entry list" where
  "user_view snap skip [] = []"
| "user_view snap skip (e # es) =
     (if snap < seqno (fst e) \<or> skip = Some (ukey (fst e)) then user_view snap skip es
      else if shows_value e then (ukey (fst e), snd e) # user_view snap (Some (ukey (fst e))) es
      else user_view snap (Some (ukey (fst e))) es)"

lemma user_view_skip:
  "\<forall>e \<in> set ds. snap < seqno (fst e) \<or> skip = Some (ukey (fst e)) \<Longrightarrow>
   user_view snap skip (ds @ es) = user_view snap skip es"
  by (induction ds) auto

lemma user_view_fresh:
  "\<forall>e \<in> set es. ukey (fst e) \<noteq> u \<Longrightarrow> user_view snap (Some u) es = user_view snap None es"
  by (induction es) auto

section \<open>One turn of the search\<close>

lemma Slice_compare_le: "Slice_compare a b \<le> 0 \<longleftrightarrow> a \<le> b"
  using Slice_compare_cases [of a b] by (auto simp: not_less [symmetric])

lemma find_loop_stop: "find_turn s = ret (Inl r) \<Longrightarrow> find_loop s = Some (ret r)"
  by (subst find_loop.simps) simp

lemma find_loop_go: "find_turn s = ret (Inr s') \<Longrightarrow> find_loop s = find_loop s'"
  by (subst find_loop.simps) (simp add: flag_def)

text \<open>An iterator over a block, before any positioning, and one whose user entries from here on are \<open>ul\<close>.\<close>

definition db_over :: "bytes \<Rightarrow> nat \<Rightarrow> nat \<Rightarrow> entry list \<Rightarrow> nat \<Rightarrow> DBIter \<Rightarrow> bool" where
  "db_over data rs n es snap db \<longleftrightarrow> max_skippable_internal_keys db = 0 \<and> db_sequence db = snap
     \<and> \<not> current_entry_is_merged db \<and> over data rs n (inner db) \<and> (es = [] \<longrightarrow> current (inner db) = rs)"

definition db_at :: "bytes \<Rightarrow> nat \<Rightarrow> nat \<Rightarrow> entry list \<Rightarrow> nat \<Rightarrow> DBIter \<Rightarrow> entry list \<Rightarrow> bool" where
  "db_at data rs n es snap db ul \<longleftrightarrow> db_over data rs n es snap db \<and> db_ok db
     \<and> (case ul of [] \<Rightarrow> \<not> db_valid db
        | (u, v) # ul' \<Rightarrow> db_valid db \<and> saved_key db = u
            \<and> (\<exists>ps k ls. es = ps @ (k, v) # ls \<and> ukey k = u \<and> block_remains data rs n (inner db) ((k, v) # ls)
                 \<and> ul' = user_view snap (Some u) ls \<and> is_key_seqnum_zero db = (seqno k = 0)))"

definition searching :: "bytes \<Rightarrow> nat \<Rightarrow> nat \<Rightarrow> entry list \<Rightarrow> nat \<Rightarrow> bool \<Rightarrow> DBIter \<Rightarrow> entry list \<Rightarrow> bool" where
  "searching data rs n es snap skipping db ls \<longleftrightarrow> db_ok db \<and> max_skippable_internal_keys db = 0
     \<and> db_sequence db = snap \<and> \<not> current_entry_is_merged db
     \<and> block_remains data rs n (inner db) ls \<and> (\<exists>ps. es = ps @ ls)
     \<and> (skipping \<longrightarrow> (\<forall>x \<in> set ls. saved_key db \<le> ukey (fst x)
          \<and> (is_key_seqnum_zero db \<longrightarrow> saved_key db < ukey (fst x))))"

text \<open>How the search goes on from an entry it does not return.\<close>

definition passes :: "nat \<Rightarrow> bool \<Rightarrow> nat \<Rightarrow> bool \<Rightarrow> DBIter \<Rightarrow> entry \<Rightarrow> bool" where
  "passes snap skipping num rd db e \<longleftrightarrow>
     (snap < seqno (fst e) \<or> skipping) \<and> (skipping \<longrightarrow> saved_key db = ukey (fst e))
     \<and> (num > max_skip db \<and> \<not> rd \<longrightarrow> saved_key db = ukey (fst e))"

abbreviation skip_of :: "bool \<Rightarrow> DBIter \<Rightarrow> bytes option" where
  "skip_of skipping db \<equiv> if skipping then Some (saved_key db) else None"

definition reading :: "nat \<Rightarrow> BlockIter \<Rightarrow> bool \<Rightarrow> DBIter \<Rightarrow> bool" where
  "reading snap it zero db \<longleftrightarrow> inner db = it \<and> db_ok db \<and> max_skippable_internal_keys db = 0
     \<and> db_sequence db = snap \<and> \<not> current_entry_is_merged db \<and> is_key_seqnum_zero db = zero"

lemma find_entry_start:
  assumes s: "searching data rs n es snap skipping db (e # ls)" and v: "version_ok e"
  obtains t db1 where "vtype (fst e) = Some t" "reading snap (inner db) (seqno (fst e) = 0) db1"
    "saved_key db1 = saved_key db" "max_skip db1 = max_skip db"
    "find_entry (skipping, num, rd, db) =
       (let user_key = ukey (fst e) in
        if seqno (fst e) \<le> snap
        then
          if \<not> is_key_seqnum_zero db \<and> skipping \<and> user_key \<le> saved_key db
          then ret (Inr (skipping, num + 1, rd, db1))
          else if skipping \<and> \<not> saved_key db < user_key then Abort AssertFailed
          else ret (find_visible user_key t (skipping, num, rd, db1))
        else if user_key = saved_key db \<or> skipping \<and> user_key < saved_key db
        then ret (Inr (skipping, num + 1, rd, db1))
        else ret (Inr (False, 0, False, db1\<lparr>saved_key := user_key\<rparr>)))"
proof -
  obtain t where t: "vtype (fst e) = Some t" and k: "8 \<le> length (fst e)"
    using v by (auto simp: version_ok_def shows_value_def hides_key_def)
  define db1 where "db1 = db\<lparr>is_key_seqnum_zero := (seqno (fst e) = 0),
     num_internal_keys_skipped := num_internal_keys_skipped db + 1\<rparr>"
  have key: "inner_key db = ret (fst e)"
    using s bc.valid_remains [of data rs n "inner db" "e # ls"]
    by (auto simp: searching_def inner_key_def block_remains_def)
  have many: "TooManyInternalKeysSkipped (db\<lparr>is_key_seqnum_zero := (seqno (fst e) = 0)\<rparr>) = (False, db1)"
    using s by (simp add: TooManyInternalKeysSkipped_def searching_def db1_def)
  show ?thesis
    using s by (intro that [of t db1])
      (simp_all add: t reading_def searching_def db1_def find_entry_def key parse_version [OF k t] many [unfolded db1_def]
         IsVisible_def Slice_compare_le Slice_compare_cases Let_def)
qed

lemma find_entry_cases:
  assumes s: "searching data rs n es snap skipping db (e # ls)" and v: "version_ok e"
    and later: "\<forall>x \<in> set ls. ukey (fst e) \<le> ukey (fst x)"
  obtains (found) db' where "find_entry (skipping, num, rd, db) = ret (Inl (True, db'))"
      "reading snap (inner db) (seqno (fst e) = 0) db'" "db_valid db'" "saved_key db' = ukey (fst e)"
      "user_view snap (skip_of skipping db) (e # ls) = (ukey (fst e), snd e) # user_view snap (Some (ukey (fst e))) ls"
  | (pass) sk num' rd' db' where "find_entry (skipping, num, rd, db) = ret (Inr (sk, num', rd', db'))"
      "reading snap (inner db) (seqno (fst e) = 0) db'" "passes snap sk num' rd' db' e"
      "user_view snap (skip_of skipping db) (e # ls) = user_view snap (skip_of sk db') ls"
      "rd' = rd \<or> num' \<le> max_skip db'"
proof -
  obtain t db1 where t: "vtype (fst e) = Some t" and r: "reading snap (inner db) (seqno (fst e) = 0) db1"
    and sv: "saved_key db1 = saved_key db"
    and f: "find_entry (skipping, num, rd, db) =
       (let user_key = ukey (fst e) in
        if seqno (fst e) \<le> snap
        then
          if \<not> is_key_seqnum_zero db \<and> skipping \<and> user_key \<le> saved_key db
          then ret (Inr (skipping, num + 1, rd, db1))
          else if skipping \<and> \<not> saved_key db < user_key then Abort AssertFailed
          else ret (find_visible user_key t (skipping, num, rd, db1))
        else if user_key = saved_key db \<or> skipping \<and> user_key < saved_key db
        then ret (Inr (skipping, num + 1, rd, db1))
        else ret (Inr (False, 0, False, db1\<lparr>saved_key := user_key\<rparr>)))"
    by (rule find_entry_start [OF s v])
  have ge: "skipping \<Longrightarrow> saved_key db \<le> ukey (fst e)"
    "skipping \<Longrightarrow> is_key_seqnum_zero db \<Longrightarrow> saved_key db < ukey (fst e)"
    using s by (auto simp: searching_def)
  have tail: "user_view snap (skip_of skipping db) ls = user_view snap None ls" if "ukey (fst e) \<noteq> saved_key db"
    using user_view_fresh [of ls "saved_key db" snap] ge(1) later that by fastforce
  have kinds: "t = kTypeValue \<or> t = kTypeBlobIndex \<or>
      t = kTypeDeletion \<or> t = kTypeSingleDeletion \<or> t = kTypeDeletionWithTimestamp"
    using v t by (auto simp: version_ok_def shows_value_def hides_key_def)
  consider (seen) "seqno (fst e) \<le> snap" "skipping" "ukey (fst e) = saved_key db"
    | (new) "seqno (fst e) \<le> snap" "skipping \<Longrightarrow> saved_key db < ukey (fst e)"
    | (hidden) "snap < seqno (fst e)" "ukey (fst e) = saved_key db"
    | (other) "snap < seqno (fst e)" "ukey (fst e) \<noteq> saved_key db"
    using ge(1) by force
  then show ?thesis
  proof cases
    case seen
    then have "\<not> is_key_seqnum_zero db" using ge(2) by auto
    then show ?thesis
      using seen f r sv by (intro pass [of skipping "num + 1" rd db1]) (auto simp: passes_def Let_def)
  next
    case new
    have fe: "find_entry (skipping, num, rd, db) = ret (find_visible (ukey (fst e)) t (skipping, num, rd, db1))"
      using new f by (cases skipping) (auto simp: Let_def)
    show ?thesis
    proof (cases "t = kTypeValue \<or> t = kTypeBlobIndex")
      case True
      then show ?thesis
        using new fe r t by (intro found [of "db1\<lparr>saved_key := ukey (fst e), db_valid := True\<rparr>"])
          (auto simp: find_visible_def reading_def shows_value_def)
    next
      case False
      then have "find_visible (ukey (fst e)) t (skipping, num, rd, db1) = Inr (True, 0, False, db1\<lparr>saved_key := ukey (fst e)\<rparr>)"
        and "\<not> shows_value e"
        using kinds t by (auto simp: find_visible_def shows_value_def)
      then show ?thesis
        using new fe r by (intro pass [of True 0 False "db1\<lparr>saved_key := ukey (fst e)\<rparr>"])
          (auto simp: reading_def passes_def)
    qed
  next
    case hidden
    then show ?thesis
      using f r sv by (intro pass [of skipping "num + 1" rd db1]) (auto simp: passes_def Let_def)
  next
    case other
    then have "\<not> (skipping \<and> ukey (fst e) < saved_key db)" using ge(1) by auto
    then show ?thesis
      using other f r tail by (intro pass [of False 0 False "db1\<lparr>saved_key := ukey (fst e)\<rparr>"])
        (auto simp: passes_def Let_def reading_def)
  qed
qed

section \<open>Moving on\<close>

text \<open>A block of versions: its bytes, and its entries in version order.\<close>

definition ordered_versions :: "entry list \<Rightarrow> bool" where
  "ordered_versions es \<longleftrightarrow> sorted_wrt version_before (map fst es) \<and> (\<forall>e \<in> set es. version_ok e)"

definition versions_block :: "bytes \<Rightarrow> nat \<Rightarrow> nat \<Rightarrow> entry list \<Rightarrow> bool" where
  "versions_block data rs n es \<longleftrightarrow> (\<exists>segs. laid_out es segs data rs n) \<and> ordered_versions es"

lemma seek_versions:
  assumes b: "versions_block data rs n es" and o: "over data rs n it" and c: "es = [] \<Longrightarrow> current it = rs"
    and k: "8 \<le> length key"
  shows "\<exists>it'. SeekImpl key it = ret it' \<and> block_remains data rs n it' (dropWhile (\<lambda>x. ikey_before (fst x) key) es)"
proof -
  obtain segs where l: "laid_out es segs data rs n" using b unfolding versions_block_def ordered_versions_def by blast
  have "sorted_wrt ikey_before (map fst es)" and "\<And>x. x \<in> set es \<Longrightarrow> 8 \<le> length (fst x)"
    using b versions_sorted by (auto simp: versions_block_def ordered_versions_def version_ok_def)
  then show ?thesis using seek_position [OF l o c] k by blast
qed

lemma versions_split:
  assumes "versions_block data rs n (ps @ e # ls)"
  shows "\<forall>x \<in> set ps. version_before (fst x) (fst e)" "\<forall>x \<in> set ls. version_before (fst e) (fst x)" "version_ok e"
  using assms by (auto simp: versions_block_def ordered_versions_def sorted_wrt_append)

lemma dropWhile_middle:
  assumes "\<forall>x \<in> set ps. P x"
  shows "\<exists>ds. dropWhile P (ps @ xs) = dropWhile P xs \<and> xs = ds @ dropWhile P xs \<and> (\<forall>d \<in> set ds. P d)"
  using assms by (intro exI [of _ "takeWhile P xs"]) (auto dest: set_takeWhileD)

text \<open>The key a reseek goes to lies behind what the search has passed, and drops nothing of the view.\<close>

definition reseek_key :: "nat \<Rightarrow> bool \<Rightarrow> bytes \<Rightarrow> bytes \<Rightarrow> bool" where
  "reseek_key snap sk u key \<longleftrightarrow> 8 \<le> length key \<and> ukey key = u
     \<and> footer key = (if sk then type_code kTypeDeletion else snap * 256 + type_code kTypeDeletionWithTimestamp)"

lemma reseek_passed:
  assumes "reseek_key snap sk (ukey (fst e)) key" "version_before (fst x) (fst e)" "sk \<or> snap < seqno (fst e)"
  shows "ikey_before (fst x) key"
proof (cases "ukey (fst x) = ukey (fst e)")
  case True
  then have "Suc (seqno (fst e)) * 256 \<le> footer (fst x)"
    using assms(2) by (auto simp: version_before_def seqno_def)
  moreover have "snap < seqno (fst e) \<Longrightarrow> snap * 256 + 20 < Suc (seqno (fst e)) * 256" by simp
  ultimately show ?thesis
    using assms True by (auto simp: reseek_key_def ikey_before_versions split: if_splits)
next
  case False
  then show ?thesis using assms by (auto simp: reseek_key_def ikey_before_versions version_before_def)
qed

lemma reseek_skippable:
  assumes "reseek_key snap sk u key" "ikey_before (fst x) key" "u \<le> ukey (fst x)" "version_ok x"
  shows "snap < seqno (fst x) \<or> sk \<and> u = ukey (fst x)"
proof (cases sk)
  case False
  obtain t where t: "vtype (fst x) = Some t"
    using assms(4) by (auto simp: version_ok_def shows_value_def hides_key_def)
  have "snap * 256 + 20 < footer (fst x)"
    using assms False by (auto simp: reseek_key_def ikey_before_versions)
  then have "snap < seqno (fst x)" 
    using type_code_le [OF t] div_mult_mod_eq [of "footer (fst x)" 256] unfolding seqno_def by linarith
  then show ?thesis by simp
next
  case True
  then show ?thesis using assms by (auto simp: reseek_key_def ikey_before_versions)
qed

lemma advance_cases:
  assumes b: "versions_block data rs n es" and es: "es = ps @ e # ls"
    and br: "block_remains data rs n it (e # ls)" and snap: "snap \<le> kMaxSequenceNumber"
    and r: "reading snap it (seqno (fst e) = 0) db" and p: "passes snap sk num rd db e"
  obtains num' rd' it' z ls' where
    "find_advance (sk, num, rd, db) = ret (sk, num', rd', db\<lparr>is_key_seqnum_zero := z, inner := it'\<rparr>)"
    "block_remains data rs n it' ls'" "\<exists>ps'. es = ps' @ ls'" "set ls' \<subseteq> set (e # ls)"
    "user_view snap (skip_of sk db) ls' = user_view snap (skip_of sk db) ls"
    "ls' = ls \<and> z = (seqno (fst e) = 0) \<or> \<not> z \<and> rd' \<and> \<not> rd \<and> num > max_skip db \<and> length ls' \<le> Suc (length ls)"
proof (cases "num > max_skip db \<and> \<not> rd")
  case False
  obtain it' where it': "NextImpl it = ret it'" "block_remains data rs n it' ls"
    using bc.step_remains [OF br] by blast
  show ?thesis
  proof (rule that [of num rd it' "seqno (fst e) = 0" ls])
    show "find_advance (sk, num, rd, db) = ret (sk, num, rd, db\<lparr>is_key_seqnum_zero := (seqno (fst e) = 0), inner := it'\<rparr>)"
      using False it'(1) r by (auto simp: find_advance_def reading_def)
    show "\<exists>ps'. es = ps' @ ls" using es by (intro exI [of _ "ps @ [e]"]) simp
  qed (use it' in auto)
next
  case True
  have sv: "saved_key db = ukey (fst e)" and seen: "sk \<or> snap < seqno (fst e)"
    using p True by (auto simp: passes_def)
  obtain key where key: "(if sk then AppendInternalKey (saved_key db) 0 kTypeDeletion
       else AppendInternalKey (saved_key db) (db_sequence db) kTypeDeletionWithTimestamp) = ret key"
    and rk: "reseek_key snap sk (ukey (fst e)) key"
  proof (cases sk)
    case True
    obtain k where "AppendInternalKey (saved_key db) 0 kTypeDeletion = ret k" "8 \<le> length k"
      "ukey k = saved_key db" "footer k = 0 * 256 + type_code kTypeDeletion"
      by (rule append_key [of 0 "saved_key db" kTypeDeletion]) simp
    then show ?thesis using that [of k] True sv by (simp add: reseek_key_def)
  next
    case False
    obtain k where "AppendInternalKey (saved_key db) snap kTypeDeletionWithTimestamp = ret k" "8 \<le> length k"
      "ukey k = saved_key db" "footer k = snap * 256 + type_code kTypeDeletionWithTimestamp"
      by (rule append_key [OF snap])
    then show ?thesis using that [of k] False sv r by (simp add: reseek_key_def reading_def)
  qed
  have k8: "8 \<le> length key" using rk by (simp add: reseek_key_def)
  have o: "over data rs n it" using br by (simp add: block_remains_def)
  obtain it' where it': "SeekImpl key it = ret it'"
      "block_remains data rs n it' (dropWhile (\<lambda>x. ikey_before (fst x) key) es)"
    using seek_versions [OF b o _ k8] es by blast
  have passed: "\<forall>x \<in> set ps. ikey_before (fst x) key"
    using versions_split(1) [OF b [unfolded es]] reseek_passed [OF rk _ seen] by blast
  obtain ds where ds: "dropWhile (\<lambda>x. ikey_before (fst x) key) es = dropWhile (\<lambda>x. ikey_before (fst x) key) (e # ls)"
      "e # ls = ds @ dropWhile (\<lambda>x. ikey_before (fst x) key) (e # ls)" "\<forall>d \<in> set ds. ikey_before (fst d) key"
    using dropWhile_middle [OF passed, of "e # ls"] es by blast
  define ls' where "ls' = dropWhile (\<lambda>x. ikey_before (fst x) key) (e # ls)"
  have split: "e # ls = ds @ ls'" using ds(2) by (simp add: ls'_def)
  have "snap < seqno (fst d) \<or> skip_of sk db = Some (ukey (fst d))" if d: "d \<in> set ds" for d
  proof -
    have "d \<in> set (e # ls)" using d split by (metis Un_iff set_append)
    then have "ukey (fst e) \<le> ukey (fst d)" "version_ok d"
      using versions_split(2) [OF b [unfolded es]] b es by (auto simp: version_before_def versions_block_def ordered_versions_def)
    then show ?thesis using reseek_skippable [OF rk, of d] ds(3) d sv by auto
  qed
  then have "user_view snap (skip_of sk db) (e # ls) = user_view snap (skip_of sk db) ls'"
    using user_view_skip [of ds snap "skip_of sk db" ls'] split by (metis (no_types, lifting))
  moreover have "user_view snap (skip_of sk db) (e # ls) = user_view snap (skip_of sk db) ls"
    using seen sv by auto
  ultimately have view: "user_view snap (skip_of sk db) ls' = user_view snap (skip_of sk db) ls" by metis
  show ?thesis
  proof (rule that [of 0 True it' False ls'])
    show "find_advance (sk, num, rd, db) = ret (sk, 0, True, db\<lparr>is_key_seqnum_zero := False, inner := it'\<rparr>)"
      using True key it'(1) r by (simp add: find_advance_def reading_def)
    show "block_remains data rs n it' ls'" using it'(2) ds(1) by (simp add: ls'_def)
    show "\<exists>ps'. es = ps' @ ls'" using es split by (intro exI [of _ "ps @ ds"]) simp
    show "set ls' \<subseteq> set (e # ls)" using split by (metis Un_upper2 set_append)
    have "length (e # ls) = length ds + length ls'" using split by (metis length_append)
    then show "ls' = ls \<and> False = (seqno (fst e) = 0) \<or> \<not> False \<and> True \<and> \<not> rd \<and> num > max_skip db \<and> length ls' \<le> Suc (length ls)"
      using True by simp
  qed (fact view)
qed

section \<open>The search ends at the next user entry\<close>

lemma find_loop_finds:
  assumes b: "versions_block data rs n es" and snap: "snap \<le> kMaxSequenceNumber"
  shows "searching data rs n es snap skipping db ls \<Longrightarrow> ls \<noteq> [] \<Longrightarrow>
    \<exists>found db'. find_loop (skipping, num, rd, db) = Some (ret (found, db'))
      \<and> db_at data rs n es snap db' (user_view snap (skip_of skipping db) ls)"
proof (induction "2 * length ls + (if rd then 0 else 1)" arbitrary: ls skipping num rd db rule: less_induct)
  case less
  obtain e ls0 where ls: "ls = e # ls0" using less.prems(2) by (cases ls) auto
  obtain ps where es: "es = ps @ e # ls0" using less.prems(1) ls by (auto simp: searching_def)
  have br: "block_remains data rs n (inner db) (e # ls0)" using less.prems(1) ls by (simp add: searching_def)
  then have o: "over data rs n (inner db)" by (simp add: block_remains_def)
  note at = versions_split [OF b [unfolded es]]
  have later: "\<forall>x \<in> set ls0. ukey (fst e) \<le> ukey (fst x)" using at(2) by (auto simp: version_before_def)
  note s = less.prems(1) [unfolded ls]
  show ?case
  proof (cases rule: find_entry_cases [OF s at(3) later, of num rd])
    case (1 db')
    then have "find_loop (skipping, num, rd, db) = Some (ret (True, db'))"
      by (intro find_loop_stop) (simp add: find_turn_def)
    moreover have "\<exists>ps' k ls'. es = ps' @ (k, snd e) # ls' \<and> ukey k = ukey (fst e)
        \<and> block_remains data rs n (inner db) ((k, snd e) # ls')
        \<and> user_view snap (Some (ukey (fst e))) ls0 = user_view snap (Some (ukey (fst e))) ls'
        \<and> (seqno (fst e) = 0) = (seqno k = 0)"
      using es br by (intro exI [of _ ps] exI [of _ "fst e"] exI [of _ ls0]) simp
    ultimately show ?thesis
      using 1 o es by (intro exI [of _ True] exI [of _ db']) (simp add: ls db_at_def db_over_def reading_def)
  next
    case (2 sk num' rd' db')
    obtain num2 rd2 it2 z ls2 where adv:
      "find_advance (sk, num', rd', db') = ret (sk, num2, rd2, db'\<lparr>is_key_seqnum_zero := z, inner := it2\<rparr>)"
      "block_remains data rs n it2 ls2" "\<exists>ps'. es = ps' @ ls2" "set ls2 \<subseteq> set (e # ls0)"
      "user_view snap (skip_of sk db') ls2 = user_view snap (skip_of sk db') ls0"
      "ls2 = ls0 \<and> z = (seqno (fst e) = 0) \<or> \<not> z \<and> rd2 \<and> \<not> rd' \<and> num' > max_skip db' \<and> length ls2 \<le> Suc (length ls0)"
      by (rule advance_cases [OF b es br snap 2(2,3)])
    define db2 where "db2 = db'\<lparr>is_key_seqnum_zero := z, inner := it2\<rparr>"
    have turn: "find_turn (skipping, num, rd, db) =
        ret (if ls2 \<noteq> [] then Inr (sk, num2, rd2, db2) else Inl (True, db2\<lparr>db_valid := False\<rparr>))"
      using 2(1) adv(1) bc.valid_remains [OF adv(2)] adv(2)
      by (simp add: find_turn_def db2_def block_remains_def over_def)
    have sv: "saved_key db2 = saved_key db'" by (simp add: db2_def)
    have view: "user_view snap (skip_of skipping db) ls = user_view snap (skip_of sk db2) ls2"
      unfolding ls sv by (rule trans [OF 2(4) adv(5) [symmetric]])
    show ?thesis
    proof (cases "ls2 = []")
      case True
      then have "find_loop (skipping, num, rd, db) = Some (ret (True, db2\<lparr>db_valid := False\<rparr>))"
        using turn by (intro find_loop_stop) simp
      moreover have "over data rs n it2" using adv(2) by (simp add: block_remains_def)
      ultimately show ?thesis
        using True view 2(2) es by (intro exI [of _ True] exI [of _ "db2\<lparr>db_valid := False\<rparr>"]) (simp add: db_at_def db_over_def reading_def db2_def)
    next
      case False
      have strict: "\<forall>x \<in> set ls2. ukey (fst e) < ukey (fst x)" if "z"
        using adv(6) at(2) that by (auto simp: version_before_def)
      have "searching data rs n es snap sk db2 ls2"
        using 2(2,3) adv(2,3,4) later strict by (auto simp: searching_def reading_def passes_def db2_def)
      moreover have "2 * length ls2 + (if rd2 then 0 else 1) < 2 * length ls + (if rd then 0 else 1)"
        using adv(6) 2(5) by (auto simp: ls)
      ultimately obtain found db3 where "find_loop (sk, num2, rd2, db2) = Some (ret (found, db3))"
        "db_at data rs n es snap db3 (user_view snap (skip_of sk db2) ls2)"
        using less.hyps [of ls2 rd2 sk db2 num2] False by blast
      then show ?thesis using find_loop_go [of "(skipping, num, rd, db)"] turn False view by simp
    qed
  qed
qed

lemma FindNext_finds:
  assumes b: "versions_block data rs n es" and snap: "snap \<le> kMaxSequenceNumber"
    and s: "searching data rs n es snap skipping db ls" and ls: "ls \<noteq> []"
  shows "\<exists>found db'. FindNextUserEntryInternal skipping db = ret (found, db')
      \<and> db_at data rs n es snap db' (user_view snap (skip_of skipping db) ls)"
proof -
  have "BlockIter_Valid (inner db)" "db_ok db" "db\<lparr>current_entry_is_merged := False\<rparr> = db"
    using s ls bc.valid_remains [of data rs n "inner db" ls] by (simp_all add: searching_def)
  then show ?thesis
    using find_loop_finds [OF b snap s ls, of 0 False] by (auto simp: FindNextUserEntryInternal_def)
qed

lemma db_next:
  assumes b: "versions_block data rs n es" and snap: "snap \<le> kMaxSequenceNumber"
    and at: "db_at data rs n es snap db (e # ul)"
  shows "\<exists>db'. DBIter_Next db = ret db' \<and> db_at data rs n es snap db' ul"
proof -
  obtain ps k ls where es: "es = ps @ (k, snd e) # ls" and k: "ukey k = fst e" "saved_key db = fst e"
    and br: "block_remains data rs n (inner db) ((k, snd e) # ls)" and ul: "ul = user_view snap (Some (fst e)) ls"
    and z: "is_key_seqnum_zero db = (seqno k = 0)" and ok: "db_over data rs n es snap db" "db_ok db" "db_valid db"
    using at by (cases e) (auto simp: db_at_def)
  have v: "BlockIter_Valid (inner db)" using bc.valid_remains [OF br] by simp
  obtain it where it: "NextImpl (inner db) = ret it" "block_remains data rs n it ls"
    using bc.step_remains [OF br] by blast
  define db1 where "db1 = db\<lparr>num_internal_keys_skipped := 0, inner := it\<rparr>"
  have nx: "DBIter_Next db = (if ls \<noteq> [] then bind_exec (FindNextUserEntryInternal True db1) (\<lambda>(found, db). ret db)
      else ret (db1\<lparr>is_key_seqnum_zero := False, db_valid := False\<rparr>))"
    using ok v it(1) bc.valid_remains [OF it(2)] by (simp add: DBIter_Next_def db_over_def db1_def)
  show ?thesis
  proof (cases "ls = []")
    case True
    then show ?thesis
      using nx ul ok it(2) es by (simp add: db_at_def db_over_def db1_def block_remains_def)
  next
    case False
    have "\<forall>x \<in> set ls. fst e \<le> ukey (fst x) \<and> (seqno k = 0 \<longrightarrow> fst e < ukey (fst x))"
      using versions_split(2) [OF b [unfolded es]] k by (auto simp: version_before_def)
    then have "searching data rs n es snap True db1 ls"
      using ok k z it(2) es by (auto simp: searching_def db_over_def db1_def)
    from FindNext_finds [OF b snap this False] show ?thesis
      using nx False ul k by (auto simp: db1_def)
  qed
qed

text \<open>Positioning: after \<^verbatim>\<open>Seek\<close> and after \<^verbatim>\<open>SeekToFirst\<close> the user entries of the rest remain.\<close>

lemma db_positioned:
  assumes b: "versions_block data rs n es" and snap: "snap \<le> kMaxSequenceNumber"
    and o: "db_over data rs n es snap db" and br: "block_remains data rs n (inner db) ls" "es = ps @ ls"
    and ok: "db_ok db"
  shows "\<exists>db'. (if ls \<noteq> [] then bind_exec (FindNextUserEntryInternal False db) (\<lambda>(found, db). ret db)
      else ret (db\<lparr>db_valid := False\<rparr>)) = ret db' \<and> db_at data rs n es snap db' (user_view snap None ls)"
proof (cases "ls = []")
  case True
  then show ?thesis using o ok by (simp add: db_at_def db_over_def)
next
  case False
  have "searching data rs n es snap False db ls" using o br ok by (auto simp: searching_def db_over_def)
  from FindNext_finds [OF b snap this False] show ?thesis using False by auto
qed

lemma db_seek:
  assumes b: "versions_block data rs n es" and snap: "snap \<le> kMaxSequenceNumber" and o: "db_over data rs n es snap db"
  obtains db' key where "DBIter_Seek target db = ret db'" "reseek_key snap False target key"
    "db_at data rs n es snap db' (user_view snap None (dropWhile (\<lambda>x. ikey_before (fst x) key) es))"
proof -
  obtain key where key: "AppendInternalKey target snap kTypeDeletionWithTimestamp = ret key" "8 \<le> length key"
    "ukey key = target" "footer key = snap * 256 + type_code kTypeDeletionWithTimestamp"
    by (rule append_key [OF snap])
  let ?ls = "dropWhile (\<lambda>x. ikey_before (fst x) key) es"
  have ov: "over data rs n (inner db)" "es = [] \<Longrightarrow> current (inner db) = rs" using o by (auto simp: db_over_def)
  obtain it where it: "SeekImpl key (inner db) = ret it" "block_remains data rs n it ?ls"
    using seek_versions [OF b ov key(2)] by blast
  define db1 where "db1 = db\<lparr>db_ok := True, num_internal_keys_skipped := 0, is_key_seqnum_zero := False,
                   saved_key := target, inner := it\<rparr>"
  have seek: "DBIter_Seek target db = (if ?ls \<noteq> [] then bind_exec (FindNextUserEntryInternal False db1) (\<lambda>(found, db). ret db)
      else ret (db1\<lparr>db_valid := False\<rparr>))"
    using o key(1) it(1) bc.valid_remains [OF it(2)] by (auto simp: DBIter_Seek_def db_over_def db1_def Let_def)
  have "over data rs n it" "es = [] \<Longrightarrow> current it = rs" using it(2) by (auto simp: block_remains_def)
  then have "db_over data rs n es snap db1" "db_ok db1" "block_remains data rs n (inner db1) ?ls"
    using o it(2) by (simp_all add: db_over_def db1_def)
  moreover have "es = takeWhile (\<lambda>x. ikey_before (fst x) key) es @ ?ls" by simp
  ultimately obtain db' where "DBIter_Seek target db = ret db'" "db_at data rs n es snap db' (user_view snap None ?ls)"
    using db_positioned [OF b snap, of db1 ?ls "takeWhile (\<lambda>x. ikey_before (fst x) key) es"] seek by metis
  moreover have "reseek_key snap False target key" using key by (simp add: reseek_key_def)
  ultimately show ?thesis using that by blast
qed

lemma db_seek_first:
  assumes b: "versions_block data rs n es" and snap: "snap \<le> kMaxSequenceNumber" and o: "db_over data rs n es snap db"
  shows "\<exists>db'. DBIter_SeekToFirst db = ret db' \<and> db_at data rs n es snap db' (user_view snap None es)"
proof -
  obtain segs where "laid_out es segs data rs n" using b unfolding versions_block_def ordered_versions_def by blast
  then obtain it where it: "SeekToFirstImpl (inner db) = ret it" "block_remains data rs n it es"
    using seek_first o unfolding db_over_def by blast
  define db1 where "db1 = db\<lparr>db_ok := True, num_internal_keys_skipped := 0, is_key_seqnum_zero := False, inner := it\<rparr>"
  have over1: "over data rs n it" "es = [] \<Longrightarrow> current it = rs" using it(2) by (auto simp: block_remains_def)
  show ?thesis
  proof (cases "es = []")
    case True
    then show ?thesis
      using o it bc.valid_remains [OF it(2)] over1 by (simp add: DBIter_SeekToFirst_def db_at_def db_over_def Let_def)
  next
    case False
    have "8 \<le> length (raw_key it)"
      using b it(2) False by (cases es) (auto simp: versions_block_def ordered_versions_def version_ok_def block_remains_def)
    then obtain u where u: "ExtractUserKey (raw_key it) = ret u" by (simp add: ExtractUserKey_def)
    have "db_over data rs n es snap (db1\<lparr>saved_key := u\<rparr>)" "db_ok (db1\<lparr>saved_key := u\<rparr>)"
      "block_remains data rs n (inner (db1\<lparr>saved_key := u\<rparr>)) es"
      using o it(2) over1 by (simp_all add: db_over_def db1_def)
    from db_positioned [OF b snap this(1,3) _ this(2), of "[]"] show ?thesis
      using it(1) u bc.valid_remains [OF it(2)] False by (simp add: DBIter_SeekToFirst_def db1_def Let_def)
  qed
qed

interpretation dc: entry_cursor DBIter_Next db_valid DBIter_entry
  "\<lambda>db ul. versions_block data rs n es \<and> snap \<le> kMaxSequenceNumber \<and> db_at data rs n es snap db ul"
proof
  fix db e ul assume at: "versions_block data rs n es \<and> snap \<le> kMaxSequenceNumber \<and> db_at data rs n es snap db (e # ul)"
  show "DBIter_entry db = ret e"
    using at by (cases e) (auto simp: db_at_def db_over_def DBIter_entry_def block_remains_def)
  show "\<exists>j. DBIter_Next db = ret j
      \<and> versions_block data rs n es \<and> snap \<le> kMaxSequenceNumber \<and> db_at data rs n es snap j ul"
    using at db_next by blast
qed (auto simp: db_at_def split: list.splits)

section \<open>The view and the order of the keys\<close>

lemma user_view_keys: "e \<in> set (user_view snap skip es) \<Longrightarrow> \<exists>x \<in> set es. fst e = ukey (fst x)"
  by (induction snap skip es rule: user_view.induct) (auto split: if_splits)

lemma length_user_view: "length (user_view snap skip es) \<le> length es"
  by (induction snap skip es rule: user_view.induct) (auto simp: le_SucI)

lemma user_view_split:
  assumes "\<forall>e \<in> set ds. ukey (fst e) < t \<or> snap < seqno (fst e)" and "\<forall>e \<in> set es. t \<le> ukey (fst e)"
    and "\<forall>u. skip = Some u \<longrightarrow> u < t"
  shows "dropWhile (\<lambda>e. fst e < t) (user_view snap skip (ds @ es)) = user_view snap None es"
  using assms(1,3)
proof (induction ds arbitrary: skip)
  case Nil
  have "user_view snap skip es = user_view snap None es"
    using Nil assms(2) by (cases skip) (auto intro!: user_view_fresh)
  moreover have "\<forall>e \<in> set (user_view snap None es). t \<le> fst e" using user_view_keys [of _ snap None es] assms(2) by fastforce
  ultimately show ?case by (cases "user_view snap None es") auto
next
  case (Cons d ds)
  have "\<forall>e \<in> set ds. ukey (fst e) < t \<or> snap < seqno (fst e)" using Cons.prems by simp
  note ih = Cons.IH [OF this]
  show ?case using ih [of skip] ih [of "Some (ukey (fst d))"] Cons.prems by auto
qed

lemma view_from_key:
  assumes b: "versions_block data rs n es" and k: "reseek_key snap False target key"
  shows "user_view snap None (dropWhile (\<lambda>x. ikey_before (fst x) key) es) = dropWhile (\<lambda>e. fst e < target) (user_view snap None es)"
proof -
  let ?P = "\<lambda>x. ikey_before (fst x) key"
  let ?ds = "takeWhile ?P es" and ?ls = "dropWhile ?P es"
  have ok: "\<forall>e \<in> set es. version_ok e" and sorted: "sorted_wrt ikey_before (map fst (?ds @ ?ls))"
    using b versions_sorted unfolding versions_block_def ordered_versions_def takeWhile_dropWhile_id by blast+
  have "ukey (fst d) < target \<or> snap < seqno (fst d)" if "d \<in> set ?ds" for d
    using reseek_skippable [OF k, of d] set_takeWhileD [OF that] ok by (cases "ukey (fst d) < target") auto
  moreover have "target \<le> ukey (fst x)" if x: "x \<in> set ?ls" for x
  proof -
    obtain e ls where ls: "?ls = e # ls" using x by (cases ?ls) auto
    then have e: "\<not> ikey_before (fst e) key" using hd_dropWhile [of ?P es] by (metis list.distinct(1) list.sel(1))
    have "x = e \<or> ikey_before (fst e) (fst x)" using sorted x by (auto simp: ls sorted_wrt_append)
    then have "\<not> ikey_before (fst x) key" using e ikey_before_trans by blast
    then show ?thesis using k by (auto simp: ikey_before_versions reseek_key_def not_less)
  qed
  ultimately show ?thesis using user_view_split [of ?ds target snap ?ls None] by simp
qed

section \<open>What the iterator shows of a block\<close>

lemma opened_db:
  assumes "1 \<le> interval" "block_bytes es < 2 ^ 32" "build_block interval delta es = ret contents" "ordered_versions es"
  obtains it rs n where "KetiInitBlockIterator contents = ret it" "versions_block contents rs n es"
    "db_over contents rs n es kMaxSequenceNumber (DBIter_new it)"
proof -
  obtain it segs rs n where "KetiInitBlockIterator contents = ret it" "laid_out es segs contents rs n"
      "over contents rs n it" "current it = rs"
    by (rule block_opened [OF assms(1-3)])
  then show ?thesis
    using assms(4) by (intro that [of it rs n]) (auto simp: versions_block_def ordered_versions_def db_over_def DBIter_new_def)
qed

lemma user_entries_first:
  assumes "versions_block data rs n es" "db_over data rs n es kMaxSequenceNumber db" "length es \<le> m"
  shows "user_entries_from DBIter_SeekToFirst m db = ret (user_view kMaxSequenceNumber None es)"
proof -
  obtain db' where "DBIter_SeekToFirst db = ret db'"
    and at: "db_at data rs n es kMaxSequenceNumber db' (user_view kMaxSequenceNumber None es)"
    using db_seek_first [OF assms(1) order_refl assms(2)] by blast
  moreover have "walk_entries DBIter_Next db_valid DBIter_entry m db' = ret (user_view kMaxSequenceNumber None es)"
    using dc.walk_all [of data rs n es kMaxSequenceNumber db'] assms(1,3) at
      order_trans [OF length_user_view assms(3)] by blast
  ultimately show ?thesis by (simp add: user_entries_from_def)
qed

lemma user_entries_seek:
  assumes "versions_block data rs n es" "db_over data rs n es kMaxSequenceNumber db" "length es \<le> m"
  shows "user_entries_from (DBIter_Seek target) m db
    = ret (dropWhile (\<lambda>e. fst e < target) (user_view kMaxSequenceNumber None es))"
proof -
  let ?v = "dropWhile (\<lambda>e. fst e < target) (user_view kMaxSequenceNumber None es)"
  obtain db' key where "DBIter_Seek target db = ret db'" and k: "reseek_key kMaxSequenceNumber False target key"
    and at: "db_at data rs n es kMaxSequenceNumber db' (user_view kMaxSequenceNumber None (dropWhile (\<lambda>x. ikey_before (fst x) key) es))"
    by (rule db_seek [OF assms(1) order_refl assms(2)])
  moreover have "length ?v \<le> m"
    by (rule order_trans [OF length_dropWhile_le order_trans [OF length_user_view assms(3)]])
  then have "walk_entries DBIter_Next db_valid DBIter_entry m db' = ret ?v"
    using dc.walk_all [of data rs n es kMaxSequenceNumber db'] assms(1) at [unfolded view_from_key [OF assms(1) k]] by blast
  ultimately show ?thesis by (simp add: user_entries_from_def)
qed

text \<open>
  C9: over a block of versions the database iterator refines the iterator of the scan layer: opened on
  the built block it returns, from the start and from any target, exactly what that iterator returns
  over the newest version of every user key that is not a deletion. Versions skipped by a reseek
  are counted as well as those stepped over, and the search always ends.
\<close>

theorem database_iterator_refines:
  assumes "1 \<le> interval" and "block_bytes es < 2 ^ 32" and "ordered_versions es"
  defines "view \<equiv> NewIterator (user_view kMaxSequenceNumber None es)"
  shows "\<exists>contents it. build_block interval delta es = ret contents \<and> KetiInitBlockIterator contents = ret it
    \<and> user_entries_from DBIter_SeekToFirst (Suc (length es)) (DBIter_new it) = ret (ahead (SeekToFirst view))
    \<and> user_entries_from (DBIter_Seek target) (Suc (length es)) (DBIter_new it) = ret (ahead (Seek target view))"
proof -
  obtain contents where "write_data_blocks [es] ([], fresh_builder interval delta) = ret [contents]"
    and c: "build_block interval delta es = ret contents"
    using write_data_blocks_built [OF assms(1), of "[es]" "[]" delta] assms(2) by (auto simp: list_all2_Cons1)
  obtain it rs n where it: "KetiInitBlockIterator contents = ret it" and b: "versions_block contents rs n es"
    "db_over contents rs n es kMaxSequenceNumber (DBIter_new it)"
    by (rule opened_db [OF assms(1,2) c assms(3)])
  show ?thesis
    using c it user_entries_first [OF b, of "Suc (length es)"] user_entries_seek [OF b, of "Suc (length es)" target]
    by (simp add: view_def NewIterator_def Seek_def SeekToFirst_def)
qed

theorem database_iterator_refines_witness:
  "\<exists>contents it. build_block 2 True [([1, 1, 9, 0, 0, 0, 0, 0, 0], [10]), ([1, 1, 8, 0, 0, 0, 0, 0, 0], [20]),
        ([2, 0, 7, 0, 0, 0, 0, 0, 0], []), ([2, 1, 3, 0, 0, 0, 0, 0, 0], [30]), ([3, 1, 1, 0, 0, 0, 0, 0, 0], [40])] = ret contents
    \<and> KetiInitBlockIterator contents = ret it
    \<and> user_entries_from DBIter_SeekToFirst 6 (DBIter_new it) = ret [([1], [10]), ([3], [40])]
    \<and> user_entries_from (DBIter_Seek [2]) 6 (DBIter_new it) = ret [([3], [40])]"
proof -
  let ?es = "[([1, 1, 9, 0, 0, 0, 0, 0, 0], [10]), ([1, 1, 8, 0, 0, 0, 0, 0, 0], [20]),
        ([2, 0, 7, 0, 0, 0, 0, 0, 0], []), ([2, 1, 3, 0, 0, 0, 0, 0, 0], [30]), ([3, 1, 1, 0, 0, 0, 0, 0, 0], [40])] :: entry list"
  note defs = seqno_def vtype_def footer_def ukey_def value_type_of_code_def
  have o: "ordered_versions ?es"
    by (simp add: ordered_versions_def version_before_def version_ok_def shows_value_def hides_key_def defs)
  have b: "block_bytes ?es < 2 ^ 32" by (simp add: block_bytes_def)
  have v: "ahead (SeekToFirst (NewIterator (user_view kMaxSequenceNumber None ?es))) = [([1], [10]), ([3], [40])]"
    "ahead (Seek [2] (NewIterator (user_view kMaxSequenceNumber None ?es))) = [([3], [40])]" "Suc (length ?es) = 6"
    by (simp_all add: SeekToFirst_def Seek_def NewIterator_def shows_value_def kMaxSequenceNumber_def defs)
  show ?thesis by (rule database_iterator_refines [of 2 ?es True "[2]", unfolded v, OF _ b o]) simp
qed

end
