(* ===== verification/Scan_Laws.thy ===== *)
theory Scan_Laws
  imports Scan_Layer
begin

unbundle bit_operations_syntax

text \<open>
  What a scan delivers: the conversion of keys, the rows of the blocks of a table in order, and
  the block counts by which the projection layer recognises the end of a snippet.
\<close>

section \<open>Keys\<close>

text \<open>The order-preserving form of an integer in a key: big-endian with the sign bit flipped.\<close>

definition key_int :: "int \<Rightarrow> bytes" where
  "key_int v = rev (le_bytes 4 (v + 2 ^ 31))"

lemma flip_table: "list_all (\<lambda>n. (word_of_int n XOR 0x80 :: byte) = word_of_int n + 0x80) [0..255]"
  by (simp add: upto.simps)

lemma flip_sign_bit: "(b XOR 0x80 :: byte) = b + 0x80"
proof -
  have "uint b \<in> set [0..255]" using uint_byte_bounds [of b] by simp
  then have "(word_of_int (uint b) XOR 0x80 :: byte) = word_of_int (uint b) + 0x80"
    using flip_table by (simp only: list_all_iff)
  then show ?thesis by simp
qed

definition flip_first :: "bytes \<Rightarrow> bytes" where
  "flip_first s = (case s of [] \<Rightarrow> [] | b # bs \<Rightarrow> (b XOR 0x80) # bs)"

lemma byte_shift: "(word_of_int (z + 256 * k) :: byte) = word_of_int z"
proof -
  have "(word_of_int (z + 256 * k) :: byte) = word_of_int z + word_of_int 256 * word_of_int k"
    by (simp only: wi_hom_mult wi_hom_add)
  also have "(word_of_int 256 :: byte) = 0" by simp
  finally show ?thesis by simp
qed

lemma flip_key_int: "rev (flip_first (key_int v)) = le_bytes 4 v"
proof -
  have q: "(z + 256 * k) div 256 = z div 256 + k" for z k :: int by simp
  have d: "(v + 2147483648) div 256 = v div 256 + 256 * 32768"
    using q [of v 8388608] by simp
  have d2: "(v div 256 + 256 * 32768) div 256 = v div 256 div 256 + 256 * 128"
    using q [of "v div 256" 32768] by simp
  have "(word_of_int (v div 256 div 256 div 256 + 128) XOR 0x80 :: byte) =
      word_of_int (v div 256 div 256 div 256 + 128 + 128)"
    by (simp only: flip_sign_bit wi_hom_add [symmetric] word_of_int_numeral)
  also have "\<dots> = word_of_int (v div 256 div 256 div 256)"
    using byte_shift [of "v div 256 div 256 div 256" 1] by (simp add: add.assoc)
  finally have top: "(word_of_int (v div 256 div 256 div 256 + 128) XOR 0x80 :: byte) =
      word_of_int (v div 256 div 256 div 256)" .
  have low: "(word_of_int (v + 2147483648) :: byte) = word_of_int v"
    using byte_shift [of v 8388608] by simp
  have le4: "le_bytes 4 z = [word_of_int z, word_of_int (z div 256), word_of_int (z div 256 div 256),
      word_of_int (z div 256 div 256 div 256)]" for z
  proof -
    have "(4 :: nat) = Suc (Suc (Suc (Suc 0)))" by simp
    then show ?thesis by (simp only: le_bytes.simps)
  qed
  have p: "(2 :: int) ^ 31 = 2147483648" by simp
  have "key_int v = [word_of_int (v div 256 div 256 div 256 + 128),
      word_of_int (v div 256 div 256), word_of_int (v div 256), word_of_int v]"
    by (simp only: key_int_def p le4 rev.simps append.simps low d d2 q [of "v div 256 div 256"] byte_shift)
  then show ?thesis
    by (simp only: flip_first_def list.case rev.simps append.simps top le4)
qed

text \<open>A schema whose primary key consists of four-byte integers.\<close>

definition int_key_schema :: "SchemaInfo \<Rightarrow> bool" where
  "int_key_schema sch \<longleftrightarrow>
     (\<forall>pk \<in> set (pk_column sch). nth_exec (column_length sch) (column_index sch pk) = ret 4 \<and>
        nth_exec (column_type sch) (column_index sch pk) = ret MySQL_INT32)"

lemma length_key_int [simp]: "length (key_int v) = 4"
  by (simp add: key_int_def)

lemma convert_columns:
  assumes "\<forall>pk \<in> set pks. nth_exec (column_length sch) (column_index sch pk) = ret 4 \<and>
      nth_exec (column_type sch) (column_index sch pk) = ret MySQL_INT32"
    and "length vs = length pks"
  shows "fold_exec (convert_column (pre @ concat (map key_int vs) @ rest) sch) pks (done_bytes, int (length pre)) =
    ret (done_bytes @ concat (map (le_bytes 4) vs), int (length pre) + 4 * int (length vs))"
  using assms
proof (induction pks arbitrary: vs pre done_bytes)
  case Nil
  then show ?case by simp
next
  case (Cons pk pks)
  then obtain v ws where vs: "vs = v # ws" by (cases vs) auto
  let ?key = "pre @ concat (map key_int vs) @ rest"
  have "keti_get_sliced_string ?key (int (length pre)) 4 = ret (key_int v)"
    by (simp add: keti_get_sliced_string_def vs)
  then have "convert_column ?key sch pk (done_bytes, int (length pre)) =
      ret (done_bytes @ le_bytes 4 v, int (length pre) + 4)"
    using Cons.prems(1) by (simp add: convert_column_def Let_def flip_first_def [symmetric] flip_key_int)
  moreover have "?key = (pre @ key_int v) @ concat (map key_int ws) @ rest" by (simp add: vs)
  moreover have "fold_exec (convert_column ((pre @ key_int v) @ concat (map key_int ws) @ rest) sch) pks
      (done_bytes @ le_bytes 4 v, int (length (pre @ key_int v))) =
    ret ((done_bytes @ le_bytes 4 v) @ concat (map (le_bytes 4) ws), int (length (pre @ key_int v)) + 4 * int (length ws))"
    by (rule Cons.IH) (use Cons.prems vs in simp_all)
  ultimately show ?case by (simp add: vs)
qed

lemma convert_int_key:
  assumes "int_key_schema sch" and "length vs = length (pk_column sch)"
  shows "convert_key_to_value (generate_seek_key n @ concat (map key_int vs) @ rest) sch =
    ret (concat (map (le_bytes 4) vs))"
  using convert_columns [of "pk_column sch" sch vs "generate_seek_key n" rest "[]"] assms
  by (simp add: convert_key_to_value_def int_key_schema_def)

text \<open>
  C26: a scanned row starts with the key columns as the row format stores them: the
  order-preserving integers of the key come back as four-byte little-endian cells, in front of
  the value.
\<close>

theorem scanned_row_restores_key:
  assumes "int_key_schema (schema_info snip)" and "pk_column (schema_info snip) \<noteq> []"
    and "length vs = length (pk_column (schema_info snip))"
  shows "scanned_row snip (generate_seek_key n @ concat (map key_int vs), v) =
    ret (concat (map (\<lambda>z. cell_bytes (IntCell z)) vs) @ v)"
  using assms(2) convert_int_key [OF assms(1,3), of n "[]"] by (simp add: scanned_row_def keyed_row_def)

definition key_snippet :: Snippet where
  "key_snippet = demo_snippet\<lparr>schema_info := \<lparr>column_name = [''a'', ''b''], column_offset = [0, 4, 8],
     column_length = [4, 4], column_type = [MySQL_INT32, MySQL_INT32], column_index_map = [(''a'', 0), (''b'', 1)],
     pk_column = [''a'', ''b''], index_column = [], table_index_number = 7, has_var_char = False\<rparr>\<rparr>"

theorem scanned_row_restores_key_witness:
  "scanned_row key_snippet ([0, 0, 0, 7, 127, 255, 255, 255, 128, 0, 1, 2], [9]) =
    ret [255, 255, 255, 255, 2, 1, 0, 0, 9]"
proof -
  have k: "generate_seek_key 7 @ concat (map key_int [-1, 258]) = [0, 0, 0, 7, 127, 255, 255, 255, 128, 0, 1, 2]"
    "concat (map (\<lambda>z. cell_bytes (IntCell z)) [-1, 258]) @ [9] = [255, 255, 255, 255, 2, 1, 0, 0, 9]"
    by code_simp+
  have "int_key_schema (schema_info key_snippet)" "pk_column (schema_info key_snippet) \<noteq> []"
    "length [-1, 258 :: int] = length (pk_column (schema_info key_snippet))"
    by (simp_all add: int_key_schema_def key_snippet_def column_index_def)
  from scanned_row_restores_key [OF this, of 7 "[9]"] show ?thesis by (simp only: k)
qed

section \<open>The rows of a table\<close>

text \<open>The table a key belongs to, read as an unsigned number.\<close>

definition table_of :: "bytes \<Rightarrow> int" where
  "table_of key = be_uint (take 4 key)"

definition keys_ok :: "entry list \<Rightarrow> bool" where
  "keys_ok es \<longleftrightarrow> sorted (map fst es) \<and> (\<forall>e \<in> set es. 4 \<le> length (fst e) \<and> table_of (fst e) < 2 ^ 31)"

lemma table_index_number_of:
  assumes "4 \<le> length key" and "table_of key < 2 ^ 31"
  shows "keti_get_table_index_number key = ret (table_of key)"
proof -
  have "le_uint (rev (take 4 key)) = table_of key"
    using be_uint_rev [of "rev (take 4 key)"] by (simp add: table_of_def)
  moreover have "0 \<le> table_of key" using be_uint_bounds [of "take 4 key"] by (simp add: table_of_def)
  ultimately show ?thesis
    using assms by (simp add: keti_get_table_index_number_def keti_get_sliced_string_def le_int32_def int32_ok_def)
qed

lemma take_mono: "(a :: bytes) \<le> b \<Longrightarrow> take n a \<le> take n b"
proof (induction n arbitrary: a b)
  case 0
  then show ?case by simp
next
  case (Suc n)
  then show ?case by (cases a; cases b) auto
qed

lemma table_of_mono:
  assumes "a \<le> b" and "4 \<le> length a" and "4 \<le> length b"
  shows "table_of a \<le> table_of b"
proof -
  have "take 4 a \<le> take 4 b" using assms(1) by (rule take_mono)
  then have "\<not> take 4 b < take 4 a" by simp
  then show ?thesis using assms(2,3) be_uint_less [of "take 4 b" "take 4 a"] by (simp add: table_of_def)
qed

lemma prefix_le: "(a :: bytes) \<le> a @ b"
  by (induction a) simp_all

lemma seek_key_below:
  assumes "0 \<le> t" and "t < 2 ^ 31" and "4 \<le> length key"
  shows "generate_seek_key t \<le> key \<longleftrightarrow> t \<le> table_of key"
proof
  have tk: "table_of (generate_seek_key t) = t"
    using assms by (simp add: table_of_def generate_seek_key_rev be_uint_rev le_uint_le_bytes)
  show "generate_seek_key t \<le> key \<Longrightarrow> t \<le> table_of key"
    using table_of_mono [of "generate_seek_key t" key] assms(3) tk by simp
  assume le: "t \<le> table_of key"
  then have "\<not> take 4 key < generate_seek_key t"
    using be_uint_less [of "take 4 key" "generate_seek_key t"] tk assms(3) by (simp add: table_of_def)
  then have "generate_seek_key t \<le> take 4 key" by simp
  also have "take 4 key \<le> take 4 key @ drop 4 key" by (rule prefix_le)
  finally show "generate_seek_key t \<le> key" by simp
qed

section \<open>What has been handed over\<close>

text \<open>
  A result with its rows and its block count; the queues after a list of results; and the buffer
  that is being filled. The list \<open>ps\<close> has the rows and the block count of every result so far.
\<close>

definition result_of :: "Snippet \<Rightarrow> bytes list \<times> int \<Rightarrow> CsdResult \<Rightarrow> bool" where
  "result_of snip p r \<longleftrightarrow>
     snippet r = snip \<and> holds_closed (data r) (fst p) \<and> current_block_count (data r) = snd p \<and>
     scanned_row_count (data r) = int (length (fst p)) \<and> filtered_row_count (data r) = 0"

definition handed_over :: "Snippet \<Rightarrow> ScanState \<Rightarrow> (bytes list \<times> int) list \<Rightarrow> ScanState \<Rightarrow> bool" where
  "handed_over snip st0 ps st \<longleftrightarrow>
     (\<exists>outs. list_all2 (result_of snip) ps outs \<and>
        to_filter st = to_filter (fold enqueue_scan_result outs st0) \<and>
        to_projection st = to_projection (fold enqueue_scan_result outs st0))"

definition filling :: "bytes list \<Rightarrow> int \<Rightarrow> Data \<Rightarrow> bool" where
  "filling rows blocks d \<longleftrightarrow>
     holds_rows d rows \<and> current_block_count d = blocks \<and>
     scanned_row_count d = int (length rows) \<and> filtered_row_count d = 0 \<and> rows_fit rows"

definition scan_inv ::
  "Snippet \<Rightarrow> ScanState \<Rightarrow> (bytes list \<times> int) list \<Rightarrow> bytes list \<Rightarrow> int \<Rightarrow> ScanState \<Rightarrow> bool" where
  "scan_inv snip st0 ps rows blocks st \<longleftrightarrow> handed_over snip st0 ps st \<and> filling rows blocks (scan_data st)"

lemma scan_inv_init: "scan_inv snip (ScanState_init snip fq pq mon) [] [] 0 (ScanState_init snip fq pq mon)"
  by (simp add: scan_inv_def handed_over_def filling_def ScanState_init_def CsdResult_init_def holds_rows_def
      Data_init_def)

lemma scan_inv_blocks:
  "scan_inv snip st0 ps rows blocks st \<Longrightarrow>
   scan_inv snip st0 ps rows n (st\<lparr>scan_data := (scan_data st)\<lparr>current_block_count := n\<rparr>, left_block_count := k\<rparr>)"
  by (simp add: scan_inv_def handed_over_def filling_def holds_rows_def)

lemma scan_inv_monitor:
  "scan_inv snip st0 ps rows blocks st \<Longrightarrow> scan_inv snip st0 ps rows blocks (st\<lparr>scan_monitor := m\<rparr>)"
  by (simp add: scan_inv_def handed_over_def)

lemma store_row_inv:
  assumes "scan_inv snip st0 ps rows blocks st" and "rows_fit (rows @ [row])"
  shows "\<exists>st'. value_of (store_row row st) = Some st' \<and> scan_inv snip st0 ps (rows @ [row]) blocks st' \<and>
    left_block_count st' = left_block_count st \<and> scan_monitor st' = scan_monitor st"
proof -
  have f: "filling rows blocks (scan_data st)" using assms(1) by (simp add: scan_inv_def)
  obtain d l where d: "append_row row (scan_data st) = Done d l" "holds_rows d (rows @ [row])"
    "current_block_count d = current_block_count (scan_data st)"
    "scanned_row_count d = scanned_row_count (scan_data st)"
    "filtered_row_count d = filtered_row_count (scan_data st)"
    using append_row_holds [of "scan_data st" rows row] f assms(2) by (auto simp: filling_def rows_fit_def)
  have "int32_ok (int (length rows) + 1)" using assms(2) by (simp add: rows_fit_def int32_ok_def)
  with d f assms show ?thesis
    by (auto simp: store_row_def scan_inv_def filling_def handed_over_def value_of_bind holds_rows_def)
qed

lemma enqueue_queues:
  assumes "to_filter st = to_filter st'" and "to_projection st = to_projection st'"
  shows "to_filter (enqueue_scan_result r st) = to_filter (enqueue_scan_result r st')"
    "to_projection (enqueue_scan_result r st) = to_projection (enqueue_scan_result r st')"
  using assms by (simp_all add: enqueue_scan_result_def)

lemma flush_scan_inv:
  assumes "scan_inv snip st0 ps rows blocks st"
  shows "scan_inv snip st0 (ps @ [(rows, blocks)]) [] 0 (flush_scan snip st)"
    "left_block_count (flush_scan snip st) = left_block_count st"
    "scan_monitor (flush_scan snip st) = scan_monitor st"
proof -
  let ?r = "\<lparr>snippet = snip, data = close_rows (scan_data st)\<rparr>"
  obtain outs where outs: "list_all2 (result_of snip) ps outs"
    "to_filter st = to_filter (fold enqueue_scan_result outs st0)"
    "to_projection st = to_projection (fold enqueue_scan_result outs st0)"
    using assms by (auto simp: scan_inv_def handed_over_def)
  have "result_of snip (rows, blocks) ?r"
    using assms close_rows_holds [of "scan_data st" rows]
    by (simp add: scan_inv_def filling_def result_of_def) (simp add: close_rows_def)
  then have "list_all2 (result_of snip) (ps @ [(rows, blocks)]) (outs @ [?r])"
    using outs(1) by (simp add: list_all2_appendI)
  moreover have "to_filter (flush_scan snip st) = to_filter (fold enqueue_scan_result (outs @ [?r]) st0)"
    "to_projection (flush_scan snip st) = to_projection (fold enqueue_scan_result (outs @ [?r]) st0)"
    using enqueue_queues [OF outs(2,3)] by (simp_all add: flush_scan_def)
  moreover have "filling [] 0 (scan_data (flush_scan snip st))"
    by (simp add: flush_scan_def filling_def holds_rows_def Data_init_def)
  ultimately show "scan_inv snip st0 (ps @ [(rows, blocks)]) [] 0 (flush_scan snip st)"
    unfolding scan_inv_def handed_over_def by blast
qed (simp_all add: flush_scan_def enqueue_scan_result_def)

section \<open>The entries of a block\<close>

text \<open>\<open>row\<close> says which row an entry of the table becomes.\<close>

definition converts :: "Snippet \<Rightarrow> (entry \<Rightarrow> bytes) \<Rightarrow> entry list \<Rightarrow> bool" where
  "converts snip row es \<longleftrightarrow>
     (\<forall>e \<in> set es. table_of (fst e) = table_index_number (schema_info snip) \<longrightarrow>
        value_of (scanned_row snip e) = Some (row e))"

definition own :: "Snippet \<Rightarrow> entry \<Rightarrow> bool" where
  "own snip e \<longleftrightarrow> table_of (fst e) = table_index_number (schema_info snip)"

lemma scan_own_entries:
  assumes "\<forall>e \<in> set es. own snip e \<and> keti_get_table_index_number (fst e) = ret (table_of (fst e)) \<and>
      value_of (f e) = Some (row e)"
    and "scan_inv snip st0 ps rows blocks st" and "rows_fit (rows @ map row es)"
  shows "\<exists>st'. scan_inv snip st0 ps (rows @ map row es) blocks st' \<and>
    left_block_count st' = left_block_count st \<and> scan_monitor st' = scan_monitor st \<and>
    (\<forall>more. value_of (scan_entries fin f snip (es @ more) st) = value_of (scan_entries fin f snip more st'))"
  using assms
proof (induction es arbitrary: rows st)
  case Nil
  then show ?case by auto
next
  case (Cons e es)
  have "rows_fit (rows @ [row e])"
    using rows_fit_append [of "rows @ [row e]" "map row es"] Cons.prems(3) by simp
  then obtain st1 where st1: "value_of (store_row (row e) st) = Some st1" "scan_inv snip st0 ps (rows @ [row e]) blocks st1"
    "left_block_count st1 = left_block_count st" "scan_monitor st1 = scan_monitor st"
    using store_row_inv [OF Cons.prems(2)] by blast
  have "value_of (scan_entry fin f snip e st) = Some (False, st1)"
    using Cons.prems(1) st1(1) by (simp add: scan_entry_def own_def value_of_bind)
  then have step: "value_of (scan_entries fin f snip ((e # es) @ more) st) = value_of (scan_entries fin f snip (es @ more) st1)" for more
    by (simp add: value_of_bind)
  obtain st' where "scan_inv snip st0 ps ((rows @ [row e]) @ map row es) blocks st'"
    "left_block_count st' = left_block_count st1" "scan_monitor st' = scan_monitor st1"
    "\<forall>more. value_of (scan_entries fin f snip (es @ more) st1) = value_of (scan_entries fin f snip more st')"
    using Cons.IH [OF _ st1(2)] Cons.prems(1,3) by auto
  then show ?case using st1 step by auto
qed

lemma split_tables:
  fixes f :: "entry \<Rightarrow> int"
  assumes "sorted (map f es)"
  shows "filter (\<lambda>e. t \<le> f e) es = filter (\<lambda>e. f e = t) es @ filter (\<lambda>e. t < f e) es"
  using assms
proof (induction es)
  case Nil
  then show ?case by simp
next
  case (Cons e es)
  have "filter (\<lambda>e. f e = t) es = []" if "t < f e"
    using Cons.prems that by (auto simp: filter_empty_conv)
  then show ?case using Cons by (cases "f e" t rule: linorder_cases) auto
qed

definition foreign :: "Snippet \<Rightarrow> entry list \<Rightarrow> bool" where
  "foreign snip es \<longleftrightarrow> (\<exists>e \<in> set es. table_index_number (schema_info snip) < table_of (fst e))"

definition table_ok :: "Snippet \<Rightarrow> bool" where
  "table_ok snip \<longleftrightarrow> 0 \<le> table_index_number (schema_info snip) \<and> table_index_number (schema_info snip) < 2 ^ 31"

lemma keys_ok_tables:
  assumes "keys_ok es"
  shows "sorted (map (\<lambda>e. table_of (fst e)) es)"
  using assms
proof (induction es)
  case Nil
  then show ?case by simp
next
  case (Cons e es)
  then show ?case by (auto simp: keys_ok_def intro: table_of_mono)
qed

text \<open>
  \<^verbatim>\<open>Seek\<close> to the key of the table, through the interface of the iterator: the entries of the
  table come first, those of later tables follow.
\<close>

lemma seek_table:
  assumes "keys_ok es" and "table_ok snip"
  shows "ahead (Seek (generate_seek_key (table_index_number (schema_info snip))) (NewIterator es)) =
    filter (own snip) es @ filter (\<lambda>e. table_index_number (schema_info snip) < table_of (fst e)) es"
proof -
  let ?t = "table_index_number (schema_info snip)"
  have "ahead (Seek (generate_seek_key ?t) (NewIterator es)) = filter (\<lambda>e. generate_seek_key ?t \<le> fst e) es"
    using kv.remaining_seek [of "NewIterator es"] assms(1) by (simp add: kv.content_new keys_ok_def)
  also have "\<dots> = filter (\<lambda>e. ?t \<le> table_of (fst e)) es"
    using assms by (intro filter_cong) (auto simp: seek_key_below table_ok_def keys_ok_def)
  also have "\<dots> = filter (own snip) es @ filter (\<lambda>e. ?t < table_of (fst e)) es"
    using split_tables [OF keys_ok_tables [OF assms(1)], of ?t] by (simp add: own_def [abs_def])
  finally show ?thesis .
qed

lemma end_of_block_inv:
  assumes "scan_inv snip st0 ps rows blocks st"
  shows "scan_inv snip st0
      (if blocks + 1 = NUM_OF_BLOCKS \<or> left_block_count st = 1 then ps @ [(rows, blocks + 1)] else ps)
      (if blocks + 1 = NUM_OF_BLOCKS \<or> left_block_count st = 1 then [] else rows)
      (if blocks + 1 = NUM_OF_BLOCKS \<or> left_block_count st = 1 then 0 else blocks + 1) (end_of_block snip st)"
    "left_block_count (end_of_block snip st) = left_block_count st - 1"
proof -
  have b: "current_block_count (scan_data st) = blocks" using assms by (simp add: scan_inv_def filling_def)
  let ?st = "st\<lparr>scan_data := (scan_data st)\<lparr>current_block_count := blocks + 1\<rparr>, left_block_count := left_block_count st - 1\<rparr>"
  have i: "scan_inv snip st0 ps rows (blocks + 1) ?st" using assms by (rule scan_inv_blocks)
  have e: "end_of_block snip st =
      (if blocks + 1 = NUM_OF_BLOCKS \<or> left_block_count st = 1 then flush_scan snip ?st else ?st)"
    by (simp add: end_of_block_def Let_def b)
  show "scan_inv snip st0
      (if blocks + 1 = NUM_OF_BLOCKS \<or> left_block_count st = 1 then ps @ [(rows, blocks + 1)] else ps)
      (if blocks + 1 = NUM_OF_BLOCKS \<or> left_block_count st = 1 then [] else rows)
      (if blocks + 1 = NUM_OF_BLOCKS \<or> left_block_count st = 1 then 0 else blocks + 1) (end_of_block snip st)"
    unfolding e using i flush_scan_inv(1) [OF i] by (simp split: if_splits)
  show "left_block_count (end_of_block snip st) = left_block_count st - 1"
    unfolding e using flush_scan_inv(2) [OF i] by (simp split: if_splits)
qed

lemma own_entries_ok:
  assumes "keys_ok es" and "converts snip row es"
  shows "\<forall>e \<in> set (filter (own snip) es). own snip e \<and>
    keti_get_table_index_number (fst e) = ret (table_of (fst e)) \<and> value_of (scanned_row snip e) = Some (row e)"
  using assms by (auto simp: keys_ok_def converts_def own_def table_index_number_of)

lemma read_block_inv:
  assumes "keys_ok es" and "table_ok snip" and "converts snip row es"
    and "read_block (partition_name (block_info snip)) off len = es"
    and "scan_inv snip st0 ps rows blocks st" and "rows_fit (rows @ map row (filter (own snip) es))"
  defines "m \<equiv> read_data_block read_block snip (generate_seek_key (table_index_number (schema_info snip))) (-1) off len st"
  shows "\<not> foreign snip es \<Longrightarrow> \<exists>st1. value_of m = Some (end_of_block snip st1) \<and>
      scan_inv snip st0 ps (rows @ map row (filter (own snip) es)) blocks st1 \<and> left_block_count st1 = left_block_count st"
    "foreign snip es \<Longrightarrow> \<exists>st'. value_of m = Some st' \<and> left_block_count st' = 0 \<and>
      scan_inv snip st0 (ps @ [(rows @ map row (filter (own snip) es), blocks + left_block_count st)]) [] 0 st'"
proof -
  let ?later = "filter (\<lambda>e. table_index_number (schema_info snip) < table_of (fst e)) es"
  let ?run = "\<lambda>es st. value_of (scan_entries add_left (scanned_row snip) snip es st)"
  obtain st1 where st1: "scan_inv snip st0 ps (rows @ map row (filter (own snip) es)) blocks st1"
    "left_block_count st1 = left_block_count st"
    "\<forall>more. ?run (filter (own snip) es @ more) st = ?run more st1"
    using scan_own_entries [OF own_entries_ok [OF assms(1,3)] assms(5,6)] by blast
  have m: "value_of m = Option.bind (?run ?later st1) (\<lambda>a. Some (if fst a then snd a else end_of_block snip (snd a)))"
    by (simp add: m_def read_data_block_def after_entries_def Let_def assms(4) seek_table [OF assms(1,2)]
        value_of_bind st1(3) case_prod_beta)
  show "\<exists>st1. value_of m = Some (end_of_block snip st1) \<and>
      scan_inv snip st0 ps (rows @ map row (filter (own snip) es)) blocks st1 \<and> left_block_count st1 = left_block_count st"
    if "\<not> foreign snip es"
  proof -
    have "?later = []" using that by (auto simp: foreign_def filter_empty_conv)
    then show ?thesis using m st1(1,2) by auto
  qed
  show "\<exists>st'. value_of m = Some st' \<and> left_block_count st' = 0 \<and>
      scan_inv snip st0 (ps @ [(rows @ map row (filter (own snip) es), blocks + left_block_count st)]) [] 0 st'"
    if "foreign snip es"
  proof -
    have "?later \<noteq> []" using that by (auto simp: foreign_def filter_empty_conv)
    then obtain e more where later: "?later = e # more" by (cases ?later) auto
    then have e: "e \<in> set es" "table_index_number (schema_info snip) < table_of (fst e)"
      by (auto simp: filter_eq_Cons_iff)
    then have ti: "keti_get_table_index_number (fst e) = ret (table_of (fst e))"
      using assms(1) by (simp add: keys_ok_def table_index_number_of)
    let ?st = "st1\<lparr>scan_data := add_left (left_block_count st1) (scan_data st1), left_block_count := 0\<rparr>"
    have "current_block_count (scan_data st1) = blocks" using st1(1) by (simp add: scan_inv_def filling_def)
    then have i: "scan_inv snip st0 ps (rows @ map row (filter (own snip) es)) (blocks + left_block_count st) ?st"
      using scan_inv_blocks [OF st1(1), of "blocks + left_block_count st" 0] by (simp add: add_left_def st1(2))
    have "value_of m = Some (flush_scan snip ?st)"
      using m e(2) by (simp add: later scan_entry_def ti)
    then show ?thesis using flush_scan_inv [OF i] by auto
  qed
qed

section \<open>A full scan\<close>

text \<open>
  The entry lists of the reads of a snippet; only the last read may reach into a later table.
\<close>

definition reads_hold :: "block_reader \<Rightarrow> Snippet \<Rightarrow> (entry \<Rightarrow> bytes) \<Rightarrow> (int list \<times> int list) list \<Rightarrow> entry list list \<Rightarrow> bool" where
  "reads_hold read_block snip row reads ess \<longleftrightarrow>
     ess = map (\<lambda>r. read_block (partition_name (block_info snip)) (fst r) (snd r)) reads \<and>
     (\<forall>es \<in> set ess. keys_ok es \<and> converts snip row es) \<and> (\<forall>es \<in> set (butlast ess). \<not> foreign snip es)"

text \<open>
  A buffer collects the rows of up to \<open>NUM_OF_BLOCKS\<close> reads, and \<^verbatim>\<open>read_data_block\<close> does not
  check its room: the rows of every 100 consecutive reads have to fit (\<open>buffers_fit\<close>). In the
  middle of a scan the buffer has \<open>rows\<close> and takes \<open>m\<close> more reads.
\<close>

definition table_rows :: "Snippet \<Rightarrow> (entry \<Rightarrow> bytes) \<Rightarrow> entry list list \<Rightarrow> bytes list" where
  "table_rows snip row ess = concat (map (\<lambda>es. map row (filter (own snip) es)) ess)"

definition fits_from :: "Snippet \<Rightarrow> (entry \<Rightarrow> bytes) \<Rightarrow> nat \<Rightarrow> bytes list \<Rightarrow> entry list list \<Rightarrow> bool" where
  "fits_from snip row m rows ess \<longleftrightarrow> rows_fit (rows @ table_rows snip row (take m ess)) \<and>
     (\<forall>k. rows_fit (table_rows snip row (take 100 (drop (m + 100 * k) ess))))"

definition buffers_fit :: "Snippet \<Rightarrow> (entry \<Rightarrow> bytes) \<Rightarrow> entry list list \<Rightarrow> bool" where
  "buffers_fit snip row ess \<longleftrightarrow> (\<forall>k. rows_fit (table_rows snip row (take 100 (drop (100 * k) ess))))"

lemma table_rows_Cons: "table_rows snip row (es # ess) = map row (filter (own snip) es) @ table_rows snip row ess"
  by (simp add: table_rows_def)

lemma fits_from_Cons:
  assumes "fits_from snip row (Suc m) rows (es # ess)"
  shows "fits_from snip row m (rows @ map row (filter (own snip) es)) ess"
    "rows_fit (rows @ map row (filter (own snip) es))"
  using assms rows_fit_append [of "rows @ map row (filter (own snip) es)" "table_rows snip row (take m ess)"]
  by (simp_all add: fits_from_def table_rows_Cons)

lemma fits_from_0: "fits_from snip row 0 rows ess \<Longrightarrow> buffers_fit snip row ess"
  by (simp add: fits_from_def buffers_fit_def)

lemma buffers_fit_from:
  assumes "buffers_fit snip row ess"
  shows "fits_from snip row 100 [] ess"
proof -
  have fit: "rows_fit (table_rows snip row (take 100 (drop (100 * k) ess)))" for k
    using assms by (simp add: buffers_fit_def)
  have "rows_fit (table_rows snip row (take 100 (drop (100 + 100 * k) ess)))" for k
    using fit [of "Suc k"] by (simp add: add.commute)
  then show ?thesis using fit [of 0] by (simp add: fits_from_def)
qed

lemma rows_fit_own_take: "rows_fit (table_rows snip row ess) \<Longrightarrow> rows_fit (table_rows snip row (take n ess))"
  using rows_fit_append [of "table_rows snip row (take n ess)" "table_rows snip row (drop n ess)"]
  by (simp add: table_rows_def flip: concat_append map_append)

text \<open>A table of at most 100 reads has one buffer.\<close>

lemma buffers_fit_small:
  assumes "length ess \<le> 100" and "rows_fit (table_rows snip row ess)"
  shows "buffers_fit snip row ess"
  unfolding buffers_fit_def
proof
  fix k
  show "rows_fit (table_rows snip row (take 100 (drop (100 * k) ess)))"
    using assms by (cases k) (simp_all add: table_rows_def)
qed

lemma full_scan_reads:
  assumes "table_ok snip" and "reads_hold read_block snip row reads ess" and "reads \<noteq> []"
    and "scan_inv snip st0 ps rows blocks st" and "0 \<le> blocks" and "blocks < NUM_OF_BLOCKS"
    and "left_block_count st = int (length reads)" and "fits_from snip row (nat (NUM_OF_BLOCKS - blocks)) rows ess"
  shows "\<exists>st' qs. value_of (fold_exec (\<lambda>(off, len). read_data_block read_block snip
        (generate_seek_key (table_index_number (schema_info snip))) (-1) off len) reads st) = Some st' \<and>
    scan_inv snip st0 (ps @ qs) [] 0 st' \<and>
    concat (map fst qs) = rows @ table_rows snip row ess \<and>
    sum_list (map snd qs) = blocks + int (length reads) \<and> (\<forall>q \<in> set qs. 0 < snd q \<and> snd q \<le> NUM_OF_BLOCKS) \<and> qs \<noteq> []"
  using assms(2-8)
proof (induction reads arbitrary: ess st ps rows blocks)
  case Nil
  then show ?case by simp
next
  case (Cons r reads)
  obtain off len where r: "r = (off, len)" by (cases r)
  define es where "es = read_block (partition_name (block_info snip)) off len"
  define ess' where "ess' = tl ess"
  have ess: "ess = es # ess'" "keys_ok es" "converts snip row es"
    using Cons.prems(1) by (simp_all add: reads_hold_def es_def ess'_def r)
  have rest: "reads_hold read_block snip row reads ess'" "reads \<noteq> [] \<Longrightarrow> \<not> foreign snip es"
    using Cons.prems(1) by (auto simp: reads_hold_def ess'_def es_def r split: if_splits)
  let ?read = "\<lambda>(off, len). read_data_block read_block snip
        (generate_seek_key (table_index_number (schema_info snip))) (-1) off len"
  let ?rows = "rows @ map row (filter (own snip) es)"
  have room: "nat (NUM_OF_BLOCKS - blocks) = Suc (nat (NUM_OF_BLOCKS - (blocks + 1)))"
    using Cons.prems(4,5) by simp
  note fits = fits_from_Cons [OF Cons.prems(7) [unfolded room ess(1)]]
  note blk = read_block_inv [where read_block = read_block, OF ess(2) assms(1) ess(3) es_def [symmetric] Cons.prems(3) fits(2)]
  show ?case
  proof (cases "foreign snip es")
    case True
    then have "reads = []" using rest(2) by blast
    moreover obtain st' where "value_of (?read (off, len) st) = Some st'"
      "scan_inv snip st0 (ps @ [(?rows, blocks + left_block_count st)]) [] 0 st'"
      using blk(2) [OF True] by auto
    ultimately show ?thesis
      using Cons.prems(4-6) rest(1)
      by (intro exI [of _ st'] exI [of _ "[(?rows, blocks + left_block_count st)]"])
        (simp add: r ess(1) value_of_bind reads_hold_def table_rows_def)
  next
    case False
    obtain st1 where st1: "value_of (?read (off, len) st) = Some (end_of_block snip st1)"
      "scan_inv snip st0 ps ?rows blocks st1" "left_block_count st1 = left_block_count st"
      using blk(1) [OF False] by auto
    note e = end_of_block_inv [OF st1(2)]
    show ?thesis
    proof (cases "reads = []")
      case True
      then have "left_block_count st1 = 1" using Cons.prems(6) st1(3) by simp
      then have "scan_inv snip st0 (ps @ [(?rows, blocks + 1)]) [] 0 (end_of_block snip st1)" using e(1) by simp
      then show ?thesis
        using True st1(1) Cons.prems(4,5) rest(1)
        by (intro exI [of _ "end_of_block snip st1"] exI [of _ "[(?rows, blocks + 1)]"])
          (simp add: r ess(1) value_of_bind reads_hold_def table_rows_def)
    next
      case more: False
      then have left: "left_block_count st1 \<noteq> 1" "left_block_count (end_of_block snip st1) = int (length reads)"
        using Cons.prems(6) st1(3) e(2) by auto
      show ?thesis
      proof (cases "blocks + 1 = NUM_OF_BLOCKS")
        case True
        then have i: "scan_inv snip st0 (ps @ [(?rows, blocks + 1)]) [] 0 (end_of_block snip st1)" using e(1) by simp
        have "fits_from snip row 100 [] ess'"
          using fits(1) True by (intro buffers_fit_from fits_from_0) simp
        then have "(0 :: int) < NUM_OF_BLOCKS" "fits_from snip row (nat (NUM_OF_BLOCKS - 0)) [] ess'"
          by (simp_all add: NUM_OF_BLOCKS_def)
        from Cons.IH [OF rest(1) more i order_refl this(1) left(2) this(2)] obtain st' qs where
          "value_of (fold_exec ?read reads (end_of_block snip st1)) = Some st'"
          "scan_inv snip st0 ((ps @ [(?rows, blocks + 1)]) @ qs) [] 0 st'"
          "concat (map fst qs) = table_rows snip row ess'"
          "sum_list (map snd qs) = int (length reads)" "\<forall>q \<in> set qs. 0 < snd q \<and> snd q \<le> NUM_OF_BLOCKS" by auto
        then show ?thesis
          using True st1(1) Cons.prems(4)
          by (intro exI [of _ st'] exI [of _ "(?rows, blocks + 1) # qs"])
            (auto simp: r ess(1) value_of_bind table_rows_Cons)
      next
        case small: False
        then have i: "scan_inv snip st0 ps ?rows (blocks + 1) (end_of_block snip st1)" using e(1) left(1) by simp
        from Cons.IH [OF rest(1) more i _ _ left(2) fits(1)] small Cons.prems(4,5) obtain st' qs where
          "value_of (fold_exec ?read reads (end_of_block snip st1)) = Some st'"
          "scan_inv snip st0 (ps @ qs) [] 0 st'"
          "concat (map fst qs) = ?rows @ table_rows snip row ess'"
          "sum_list (map snd qs) = blocks + 1 + int (length reads)"
          "\<forall>q \<in> set qs. 0 < snd q \<and> snd q \<le> NUM_OF_BLOCKS" "qs \<noteq> []" by auto
        then show ?thesis
          using st1(1) by (intro exI [of _ st'] exI [of _ qs]) (auto simp: r ess(1) value_of_bind table_rows_Cons)
      qed
    qed
  qed
qed

lemma full_scan_hands_over:
  assumes "table_ok snip" and "reads_hold read_block snip row (snippet_reads snip) ess"
    and "snippet_reads snip \<noteq> []" and "csd_block_count (result_info snip) = int (length (snippet_reads snip))"
    and "buffers_fit snip row ess"
  shows "\<exists>st ps. value_of (data_block_full_scan read_block snip (ScanState_init snip fq pq mon)) = Some st \<and>
    handed_over snip (ScanState_init snip fq pq mon) ps st \<and>
    concat (map fst ps) = table_rows snip row ess \<and>
    sum_list (map snd ps) = csd_block_count (result_info snip) \<and>
    (\<forall>p \<in> set ps. 0 < snd p \<and> snd p \<le> NUM_OF_BLOCKS)"
proof -
  have "(0 :: int) < NUM_OF_BLOCKS" "fits_from snip row (nat (NUM_OF_BLOCKS - 0)) [] ess"
    using buffers_fit_from [OF assms(5)] by (simp_all add: NUM_OF_BLOCKS_def)
  from full_scan_reads [OF assms(1-3) scan_inv_init order_refl this(1) _ this(2), of fq pq mon] assms(4)
  show ?thesis by (auto simp: data_block_full_scan_def Let_def ScanState_init_def scan_inv_def)
qed

text \<open>
  C4: when the rows of every 100 consecutive blocks fit into a result buffer, which the scan does
  not check, a full scan of a table hands over every row of the table exactly once, in the order of the
  blocks, and the block counts of its results add up to the number of blocks of the snippet, at
  most \<open>NUM_OF_BLOCKS\<close> each: the sum by which the projection layer recognises the end.
\<close>

theorem full_scan_delivers_table:
  assumes "table_ok snip" and "reads_hold read_block snip row (snippet_reads snip) ess"
    and "snippet_reads snip \<noteq> []" and "csd_block_count (result_info snip) = int (length (snippet_reads snip))"
    and "buffers_fit snip row ess"
  shows "\<exists>st ps. value_of (data_block_full_scan read_block snip (ScanState_init snip fq pq mon)) = Some st \<and>
    handed_over snip (ScanState_init snip fq pq mon) ps st \<and>
    concat (map fst ps) = table_rows snip row ess \<and>
    sum_list (map snd ps) = csd_block_count (result_info snip) \<and>
    (\<forall>p \<in> set ps. 0 < snd p \<and> snd p \<le> NUM_OF_BLOCKS)"
  using assms by (rule full_scan_hands_over)

section \<open>A scan of files\<close>

text \<open>
  While files are scanned every result so far stands for 100 blocks, all rows seen are in a
  result or in the buffer, no buffer overflows, and the monitor has counted the rows handed over.
  Every row has a byte, so a buffer that does not overflow has fewer than \<^verbatim>\<open>2^31\<close> rows.
\<close>

definition rows_total :: "(bytes list \<times> int) list \<Rightarrow> nat" where
  "rows_total ps = sum_list (map (\<lambda>p. length (fst p)) ps)"

definition sst_inv :: "Snippet \<Rightarrow> ScanState \<Rightarrow> bytes list \<Rightarrow> ScanState \<Rightarrow> bool" where
  "sst_inv snip st0 seen st \<longleftrightarrow>
     (\<exists>ps rows. scan_inv snip st0 ps rows 0 st \<and> concat (map fst ps) @ rows = seen \<and>
        (\<forall>p \<in> set ps. snd p = 100 \<and> rows_fit (fst p)) \<and> [] \<notin> set rows \<and>
        left_block_count st = left_block_count st0 - 100 * int (length ps) \<and>
        Scanned_Row_Count (scan_monitor st) =
          Scanned_Row_Count (scan_monitor st0) + of_nat (rows_total ps))"

lemma rows_fit_bytes:
  assumes "[] \<notin> set rows" and "int (length (concat rows)) \<le> BUFFER_SIZE"
  shows "rows_fit rows"
proof -
  have "length rows \<le> length (concat rows)"
    using assms(1)
  proof (induction rows)
    case Nil
    then show ?case by simp
  next
    case (Cons r rows)
    then have "0 < length r" "length rows \<le> length (concat rows)" by auto
    then show ?case by (simp del: length_greater_0_conv)
  qed
  moreover have "BUFFER_SIZE < 2 ^ 31" by (simp add: BUFFER_SIZE_def NUM_OF_BLOCKS_def)
  ultimately show ?thesis using assms(2) unfolding rows_fit_def by simp
qed

lemma count_flush_inv:
  assumes i: "scan_inv snip st0 ps rows 0 st" and k: "k = left_block_count st - n"
  defines "st' \<equiv> flush_scan snip (count_scanned (st\<lparr>scan_data := add_left n (scan_data st), left_block_count := k\<rparr>))"
  shows "scan_inv snip st0 (ps @ [(rows, n)]) [] 0 st'" "left_block_count st' = k"
    "Scanned_Row_Count (scan_monitor st') = Scanned_Row_Count (scan_monitor st) + of_nat (length rows)"
proof -
  have b: "current_block_count (scan_data st) = 0" "row_count (scan_data st) = int (length rows)"
    using i by (simp_all add: scan_inv_def filling_def holds_rows_def rows_fit_count)
  let ?st = "st\<lparr>scan_data := add_left n (scan_data st), left_block_count := k\<rparr>"
  have "scan_inv snip st0 ps rows n ?st"
    using scan_inv_blocks [OF i, of n k] by (simp add: add_left_def b)
  then have j: "scan_inv snip st0 ps rows n (count_scanned ?st)"
    unfolding count_scanned_def by (rule scan_inv_monitor)
  show "scan_inv snip st0 (ps @ [(rows, n)]) [] 0 st'" "left_block_count st' = k"
    "Scanned_Row_Count (scan_monitor st') = Scanned_Row_Count (scan_monitor st) + of_nat (length rows)"
    using flush_scan_inv [OF j] by (simp_all add: st'_def count_scanned_def addScannedRow_def add_left_def b)
qed

lemma sst_row_inv:
  assumes "sst_inv snip st0 seen st" and "value_of (scanned_row snip e) = Some row"
    and "int (length row) \<le> BUFFER_SIZE" and "row \<noteq> []"
  shows "\<exists>st'. value_of (sst_row snip e st) = Some st' \<and> sst_inv snip st0 (seen @ [row]) st'"
proof -
  obtain ps rows where i: "scan_inv snip st0 ps rows 0 st" and seen: "concat (map fst ps) @ rows = seen"
    and fit: "\<forall>p \<in> set ps. snd p = 100 \<and> rows_fit (fst p)" "[] \<notin> set rows"
    and left: "left_block_count st = left_block_count st0 - 100 * int (length ps)"
    and mon: "Scanned_Row_Count (scan_monitor st) = Scanned_Row_Count (scan_monitor st0) + of_nat (rows_total ps)"
    using assms(1) unfolding sst_inv_def by blast
  have len: "data_length (scan_data st) = int (length (concat rows))" "rows_fit rows"
    using i by (simp_all add: scan_inv_def filling_def holds_rows_def)
  show ?thesis
  proof (cases "data_length (scan_data st) + int (length row) > BUFFER_SIZE")
    case True
    define st1 where "st1 = flush_scan snip (count_scanned (st\<lparr>scan_data := add_left 100 (scan_data st),
        left_block_count := left_block_count st - 100\<rparr>))"
    note f = count_flush_inv [OF i refl, of 100, folded st1_def]
    obtain st2 where st2: "value_of (store_row row st1) = Some st2" "scan_inv snip st0 (ps @ [(rows, 100)]) [row] 0 st2"
      "left_block_count st2 = left_block_count st1" "scan_monitor st2 = scan_monitor st1"
      using store_row_inv [OF f(1), of row] rows_fit_bytes [of "[row]"] assms(3,4) by auto
    have "value_of (sst_row snip e st) = Some st2"
      using True st2(1) assms(2) by (simp add: sst_row_def value_of_bind st1_def)
    moreover have "sst_inv snip st0 (seen @ [row]) st2"
      unfolding sst_inv_def using st2 f seen fit left mon assms(4) len(2)
      by (intro exI [of _ "ps @ [(rows, 100)]"] exI [of _ "[row]"]) (auto simp: rows_total_def)
    ultimately show ?thesis by blast
  next
    case False
    then have "rows_fit (rows @ [row])" using fit(2) assms(4) len(1) by (intro rows_fit_bytes) auto
    then obtain st2 where st2: "value_of (store_row row st) = Some st2" "scan_inv snip st0 ps (rows @ [row]) 0 st2"
      "left_block_count st2 = left_block_count st" "scan_monitor st2 = scan_monitor st"
      using store_row_inv [OF i] by blast
    have "value_of (sst_row snip e st) = Some st2"
      using False st2(1) assms(2) by (simp add: sst_row_def value_of_bind)
    moreover have "sst_inv snip st0 (seen @ [row]) st2"
      unfolding sst_inv_def using st2 seen fit left mon assms(4)
      by (intro exI [of _ ps] exI [of _ "rows @ [row]"]) auto
    ultimately show ?thesis by blast
  qed
qed

lemma sst_rows_inv:
  assumes "sst_inv snip st0 seen st"
    and "\<forall>e \<in> set es. value_of (scanned_row snip e) = Some (row e) \<and> int (length (row e)) \<le> BUFFER_SIZE \<and> row e \<noteq> []"
  shows "\<exists>st'. value_of (fold_exec (sst_row snip) es st) = Some st' \<and> sst_inv snip st0 (seen @ map row es) st'"
  using assms
proof (induction es arbitrary: seen st)
  case Nil
  then show ?case by simp
next
  case (Cons e es)
  then obtain st1 where "value_of (sst_row snip e st) = Some st1" "sst_inv snip st0 (seen @ [row e]) st1"
    using sst_row_inv [of snip st0 seen st e "row e"] by auto
  then show ?case using Cons.IH [of "seen @ [row e]" st1] Cons.prems(2) by (simp add: value_of_bind)
qed

definition file_rows :: "sst_reader \<Rightarrow> Snippet \<Rightarrow> (entry \<Rightarrow> bytes) \<Rightarrow> string \<Rightarrow> bytes list" where
  "file_rows read_sst snip row name =
     (let n = table_index_number (schema_info snip) in
      map row (read_sst (sst_path name) (generate_seek_key n) (generate_seek_key (n + 1))))"

definition files_hold :: "sst_reader \<Rightarrow> Snippet \<Rightarrow> (entry \<Rightarrow> bytes) \<Rightarrow> bool" where
  "files_hold read_sst snip row \<longleftrightarrow>
     (let n = table_index_number (schema_info snip) in int32_ok (n + 1) \<and>
      (\<forall>name \<in> set (sst_list (block_info snip)).
        \<forall>e \<in> set (read_sst (sst_path name) (generate_seek_key n) (generate_seek_key (n + 1))).
          value_of (scanned_row snip e) = Some (row e) \<and> int (length (row e)) \<le> BUFFER_SIZE \<and> row e \<noteq> []))"

lemma sst_files_inv:
  assumes "sst_inv snip st0 seen st" and "files_hold read_sst snip row" and "set names \<subseteq> set (sst_list (block_info snip))"
  defines "n \<equiv> table_index_number (schema_info snip)"
  shows "\<exists>st'. value_of (fold_exec (sst_file read_sst snip (generate_seek_key n) (generate_seek_key (n + 1))) names st) = Some st' \<and>
    sst_inv snip st0 (seen @ concat (map (file_rows read_sst snip row) names)) st'"
  using assms(1,3)
proof (induction names arbitrary: seen st)
  case Nil
  then show ?case by simp
next
  case (Cons name names)
  let ?es = "read_sst (sst_path name) (generate_seek_key n) (generate_seek_key (n + 1))"
  have "\<forall>e \<in> set ?es. value_of (scanned_row snip e) = Some (row e) \<and> int (length (row e)) \<le> BUFFER_SIZE \<and> row e \<noteq> []"
    using assms(2) Cons.prems(2) by (auto simp: files_hold_def Let_def n_def)
  from sst_rows_inv [OF Cons.prems(1) this] obtain st1 where
    "value_of (fold_exec (sst_row snip) ?es st) = Some st1" "sst_inv snip st0 (seen @ map row ?es) st1" by blast
  then show ?case
    using Cons.IH [of "seen @ map row ?es" st1] Cons.prems(2)
    by (simp add: value_of_bind sst_file_def kv.remaining_first kv.content_new file_rows_def Let_def n_def)
qed

text \<open>
  C15: a scan of files, none of whose rows is empty or longer than a buffer, hands over every row
  it reads exactly once and in order, no buffer exceeds \<open>BUFFER_SIZE\<close>, every scanned row is counted by the monitor, and the block counts add up to the
  block count of the snippet: 100 for every full buffer, the remainder, which may be negative,
  for the last one.
\<close>

theorem file_scan_delivers_rows:
  assumes "files_hold read_sst snip row"
  shows "\<exists>st ps. value_of (sst_file_full_scan read_sst snip (ScanState_init snip fq pq mon)) = Some st \<and>
    handed_over snip (ScanState_init snip fq pq mon) ps st \<and>
    concat (map fst ps) = concat (map (file_rows read_sst snip row) (sst_list (block_info snip))) \<and>
    (\<forall>p \<in> set ps. rows_fit (fst p)) \<and> (\<forall>p \<in> set (butlast ps). snd p = 100) \<and>
    sum_list (map snd ps) = csd_block_count (result_info snip) \<and>
    Scanned_Row_Count (scan_monitor st) = Scanned_Row_Count mon + of_nat (rows_total ps)"
proof -
  let ?st0 = "ScanState_init snip fq pq mon" and ?n = "table_index_number (schema_info snip)"
  have "sst_inv snip ?st0 [] ?st0"
    unfolding sst_inv_def using scan_inv_init [of snip fq pq mon]
    by (intro exI [of _ "[]"]) (simp add: rows_total_def)
  from sst_files_inv [OF this assms subset_refl] obtain st where
    st: "value_of (fold_exec (sst_file read_sst snip (generate_seek_key ?n) (generate_seek_key (?n + 1))) (sst_list (block_info snip)) ?st0) = Some st"
    "sst_inv snip ?st0 (concat (map (file_rows read_sst snip row) (sst_list (block_info snip)))) st" by auto
  then obtain ps rows where i: "scan_inv snip ?st0 ps rows 0 st"
    and p: "concat (map fst ps) @ rows = concat (map (file_rows read_sst snip row) (sst_list (block_info snip)))"
      "\<forall>p \<in> set ps. snd p = 100 \<and> rows_fit (fst p)" "[] \<notin> set rows"
      "left_block_count st = left_block_count ?st0 - 100 * int (length ps)"
      "Scanned_Row_Count (scan_monitor st) = Scanned_Row_Count (scan_monitor ?st0) + of_nat (rows_total ps)"
    unfolding sst_inv_def by blast
  define st' where "st' = flush_scan snip (count_scanned (st\<lparr>scan_data := add_left (left_block_count st) (scan_data st), left_block_count := 0\<rparr>))"
  note f = count_flush_inv [OF i, of 0 "left_block_count st", folded st'_def, simplified]
  have "value_of (sst_file_full_scan read_sst snip ?st0) = Some st'"
    using st(1) assms by (simp add: sst_file_full_scan_def Let_def files_hold_def value_of_bind st'_def)
  moreover have "rows_fit rows" using i by (simp add: scan_inv_def filling_def)
  moreover have "sum_list (map snd ps) = 100 * int (length ps)"
    using p(2) by (induction ps) simp_all
  ultimately show ?thesis
    using f p by (intro exI [of _ st'] exI [of _ "ps @ [(rows, left_block_count st)]"])
      (auto simp: scan_inv_def rows_total_def ScanState_init_def)
qed

section \<open>Index scans\<close>

text \<open>\<open>found\<close>: seeking the target finds an entry of the table, and \<open>row\<close> is what is stored for it.\<close>

definition found :: "Snippet \<Rightarrow> KvIter \<Rightarrow> bytes \<Rightarrow> bytes \<Rightarrow> bool" where
  "found snip it target row \<longleftrightarrow> Valid (Seek target it) \<and>
     keti_get_table_index_number (fst (entry_of (Seek target it))) = ret (table_index_number (schema_info snip)) \<and>
     value_of (keyed_row snip (entry_of (Seek target it))) = Some row"

lemma Seek_Seek [simp]: "Seek t (Seek t it) = Seek t it"
  by (simp add: Seek_def)

lemma found_Seek [simp]: "found snip (Seek target it) target row \<longleftrightarrow> found snip it target row"
  by (simp add: found_def)

lemma found_entry:
  assumes "found snip it target row" and "scan_inv snip st0 ps rows blocks st" and "rows_fit (rows @ [row])"
  obtains st' where "value_of (scan_entry fin (keyed_row snip) snip (entry_of (Seek target it)) st) = Some (False, st')"
    "scan_inv snip st0 ps (rows @ [row]) blocks st'"
  using assms(1) store_row_inv [OF assms(2,3)]
  by (auto simp: found_def scan_entry_def value_of_bind)

lemma index_seeks_found:
  assumes "found snip it target row" and "scan_inv snip st0 ps rows blocks st" and "rows_fit (rows @ replicate k row)"
  shows "\<exists>st'. value_of (index_seeks snip it target k st) = Some (False, st') \<and>
    scan_inv snip st0 ps (rows @ replicate k row) blocks st'"
  using assms
proof (induction k arbitrary: it rows st)
  case 0
  then show ?case by simp
next
  case (Suc k)
  have "rows_fit (rows @ [row])"
    using rows_fit_append [of "rows @ [row]" "replicate k row"] Suc.prems(3) by simp
  with Suc.prems(1,2) obtain st1 where
    "value_of (scan_entry (\<lambda>_ d. d) (keyed_row snip) snip (entry_of (Seek target it)) st) = Some (False, st1)"
    "scan_inv snip st0 ps (rows @ [row]) blocks st1" by (rule found_entry)
  moreover have "Valid (Seek target it)" "found snip (Seek target it) target row"
    using Suc.prems(1) by (simp_all add: found_def)
  ultimately show ?case
    using Suc.IH [of "Seek target it" "rows @ [row]" st1] Suc.prems(3) by (simp add: value_of_bind Let_def)
qed

lemma index_turns_found:
  assumes "found snip it target row" and "scan_inv snip st0 ps rows blocks st"
    and "rows_fit (rows @ replicate (turns * k) row)"
  shows "\<exists>st'. value_of (index_turns snip it target k turns st) = Some st' \<and>
    scan_inv snip st0 ps (rows @ replicate (turns * k) row) blocks st'"
  using assms(2,3)
proof (induction turns arbitrary: rows st)
  case 0
  then show ?case by simp
next
  case (Suc turns)
  have "rows_fit (rows @ replicate k row)"
    using rows_fit_append [of "rows @ replicate k row" "replicate (turns * k) row"] Suc.prems(2)
    by (simp add: replicate_add)
  then obtain st1 where "value_of (index_seeks snip it target k st) = Some (False, st1)"
    "scan_inv snip st0 ps (rows @ replicate k row) blocks st1"
    using index_seeks_found [OF assms(1) Suc.prems(1)] by blast
  then show ?case
    using Suc.IH [of "rows @ replicate k row" st1] Suc.prems(2) by (simp add: value_of_bind replicate_add)
qed

text \<open>
  C38: an index scan seeks the same bytes in every turn and hands its buffer over only when it meets
  another table: if the seek finds an entry of the table, the scan ends with that one row in the
  buffer once for every pair of keys, as long as that many copies fit into it, and nothing goes to
  the next layer.
\<close>

theorem index_scan_hands_over_nothing:
  assumes "found snip (NewIterator test_file) literal row"
    and "rows_fit (replicate (length (seek_key (query_info snip)) ^ 2) row)"
  shows "\<exists>st. value_of (data_block_index_scan test_file literal snip (ScanState_init snip fq pq mon)) = Some st \<and>
    to_filter st = fq \<and> to_projection st = pq \<and>
    holds_rows (scan_data st) (replicate (length (seek_key (query_info snip)) ^ 2) row)"
  using index_turns_found [OF assms(1) scan_inv_init [of snip fq pq mon], of "length (seek_key (query_info snip))"
      "length (seek_key (query_info snip))"] assms(2)
  by (auto simp: data_block_index_scan_def Let_def scan_inv_def handed_over_def filling_def ScanState_init_def
      power2_eq_square)

section \<open>Concrete scans\<close>

definition scan_snippet_demo :: Snippet where
  "scan_snippet_demo = demo_snippet\<lparr>
     schema_info := (schema_info demo_snippet)\<lparr>pk_column := [], table_index_number := 7\<rparr>,
     block_info := \<lparr>partition_name = ''p'', sst_list = [''f''], block_list = [\<lparr>blk_offset = [0], blk_length = [10, 20]\<rparr>]\<rparr>,
     result_info := (result_info demo_snippet)\<lparr>csd_block_count := 2\<rparr>\<rparr>"

definition demo_entries :: "entry list list" where
  "demo_entries = [[([0, 0, 0, 6, 9], [6]), ([0, 0, 0, 7, 1], [10])], [([0, 0, 0, 7, 2], [20]), ([0, 0, 0, 8, 1], [30])]]"

definition demo_block_reader :: block_reader where
  "demo_block_reader part off len = (if off = [0] then demo_entries ! 0 else demo_entries ! 1)"

definition demo_sst_reader :: sst_reader where
  "demo_sst_reader path lower upper =
     filter (\<lambda>e. lower \<le> fst e \<and> fst e < upper) (concat demo_entries)"

theorem full_scan_delivers_table_witness:
  "\<exists>st ps. value_of (data_block_full_scan demo_block_reader scan_snippet_demo
        (ScanState_init scan_snippet_demo WorkQueue_init WorkQueue_init MonitoringManager_init)) = Some st \<and>
    handed_over scan_snippet_demo (ScanState_init scan_snippet_demo WorkQueue_init WorkQueue_init MonitoringManager_init) ps st \<and>
    concat (map fst ps) = [[10], [20]] \<and> sum_list (map snd ps) = 2"
proof -
  have reads: "snippet_reads scan_snippet_demo = [([0], [10]), ([10], [20])]"
    by (simp add: snippet_reads_def scan_snippet_demo_def block_reads_def)
  have e: "map (\<lambda>r. demo_block_reader (partition_name (block_info scan_snippet_demo)) (fst r) (snd r))
      (snippet_reads scan_snippet_demo) = demo_entries"
    by (simp add: reads demo_block_reader_def demo_entries_def)
  have conv: "converts scan_snippet_demo snd es" for es
    by (simp add: converts_def scanned_row_def scan_snippet_demo_def)
  have t: "table_ok scan_snippet_demo" by (simp add: table_ok_def scan_snippet_demo_def)
  have "\<forall>es \<in> set demo_entries. keys_ok es" by (simp add: demo_entries_def keys_ok_def table_of_def)
  moreover have "\<forall>es \<in> set (butlast demo_entries). \<not> foreign scan_snippet_demo es"
    by (simp add: demo_entries_def foreign_def table_of_def scan_snippet_demo_def)
  ultimately have "reads_hold demo_block_reader scan_snippet_demo snd (snippet_reads scan_snippet_demo) demo_entries"
    unfolding reads_hold_def using e conv by simp
  moreover have o: "table_rows scan_snippet_demo snd demo_entries = [[10], [20]]"
    by (simp add: table_rows_def demo_entries_def own_def table_of_def scan_snippet_demo_def)
  moreover have "buffers_fit scan_snippet_demo snd demo_entries"
    by (rule buffers_fit_small) (simp add: demo_entries_def, simp add: o rows_fit_def BUFFER_SIZE_def NUM_OF_BLOCKS_def)
  moreover have "csd_block_count (result_info scan_snippet_demo) = 2" by (simp add: scan_snippet_demo_def)
  ultimately show ?thesis
    using full_scan_delivers_table [OF t, of demo_block_reader snd demo_entries WorkQueue_init WorkQueue_init MonitoringManager_init] reads
    by (simp, blast)
qed

theorem file_scan_delivers_rows_witness:
  "\<exists>st ps. value_of (sst_file_full_scan demo_sst_reader scan_snippet_demo
        (ScanState_init scan_snippet_demo WorkQueue_init WorkQueue_init MonitoringManager_init)) = Some st \<and>
    concat (map fst ps) = [[10], [20]] \<and> sum_list (map snd ps) = 2 \<and>
    Scanned_Row_Count (scan_monitor st) = of_nat (rows_total ps)"
proof -
  have es: "demo_sst_reader path (generate_seek_key 7) (generate_seek_key 8) = [([0, 0, 0, 7, 1], [10]), ([0, 0, 0, 7, 2], [20])]" for path
    unfolding demo_sst_reader_def by code_simp
  have n: "table_index_number (schema_info scan_snippet_demo) = 7" "sst_list (block_info scan_snippet_demo) = [''f'']"
    "csd_block_count (result_info scan_snippet_demo) = 2"
    by (simp_all add: scan_snippet_demo_def)
  have "files_hold demo_sst_reader scan_snippet_demo snd"
    by (simp add: files_hold_def n es int32_ok_def scanned_row_def)
      (simp add: scan_snippet_demo_def BUFFER_SIZE_def NUM_OF_BLOCKS_def)
  from file_scan_delivers_rows [OF this, of WorkQueue_init WorkQueue_init MonitoringManager_init] show ?thesis
    by (auto simp: file_rows_def n es MonitoringManager_init_def)
qed

theorem index_scan_hands_over_nothing_witness:
  "\<exists>st. value_of (data_block_index_scan (concat demo_entries) [0, 0, 0, 7] (scan_snippet_demo\<lparr>query_info :=
        (query_info scan_snippet_demo)\<lparr>seek_key := [''5'', ''6'']\<rparr>\<rparr>)
        (ScanState_init (scan_snippet_demo\<lparr>query_info := (query_info scan_snippet_demo)\<lparr>seek_key := [''5'', ''6'']\<rparr>\<rparr>)
          WorkQueue_init WorkQueue_init MonitoringManager_init)) = Some st \<and>
    to_filter st = WorkQueue_init \<and> to_projection st = WorkQueue_init \<and>
    holds_rows (scan_data st) [[10], [10], [10], [10]]"
proof -
  let ?snip = "scan_snippet_demo\<lparr>query_info := (query_info scan_snippet_demo)\<lparr>seek_key := [''5'', ''6'']\<rparr>\<rparr>"
  have s: "pk_column (schema_info scan_snippet_demo) = []" "table_index_number (schema_info scan_snippet_demo) = 7"
    "length (seek_key (query_info ?snip)) = 2"
    by (simp_all add: scan_snippet_demo_def)
  have it: "ahead (Seek [0, 0, 0, 7] (NewIterator (concat demo_entries))) =
      [([0, 0, 0, 7, 1], [10]), ([0, 0, 0, 7, 2], [20]), ([0, 0, 0, 8, 1], [30])]"
    by code_simp
  have "found ?snip (NewIterator (concat demo_entries)) [0, 0, 0, 7] [10]"
    using table_index_number_of [of "[0, 0, 0, 7, 1]"]
    by (simp add: found_def Valid_def entry_of_def it keyed_row_def convert_key_to_value_def s table_of_def del: length_Suc_conv)
  moreover have "replicate (2 ^ 2) [10 :: byte] = [[10], [10], [10], [10]]" by (simp add: numeral_eq_Suc)
  moreover have "rows_fit [[10], [10], [10], [10 :: byte]]" by (simp add: rows_fit_def BUFFER_SIZE_def NUM_OF_BLOCKS_def)
  ultimately show ?thesis
    using index_scan_hands_over_nothing [of ?snip "concat demo_entries" "[0, 0, 0, 7]" "[10]" WorkQueue_init WorkQueue_init
        MonitoringManager_init] s(3) by (simp only:)
qed

end
