(* ===== verification/Ketilog.thy ===== *)
theory Ketilog
  imports Cstd
begin

text \<open>
  The logger of \<^verbatim>\<open>include/keti_log.h\<close>: the level and the running mode of the one instance, what
  each logging function prints, and the handler that sets the level. A function that prints
  returns the lines it prints. The two overloads of a level (\<^verbatim>\<open>const char*\<close> and \<^verbatim>\<open>string\<close>) are
  told apart by the suffixes \<open>_c\<close> and \<open>_s\<close>.
\<close>

datatype DEBUGG_LEVEL = TRACE | DEBUG | METRIC | INFO | WARN | ERROR | FATAL

fun level_num :: "DEBUGG_LEVEL \<Rightarrow> int" where
  "level_num TRACE = 0"
| "level_num DEBUG = 1"
| "level_num METRIC = 2"
| "level_num INFO = 3"
| "level_num WARN = 4"
| "level_num ERROR = 5"
| "level_num FATAL = 6"

record KETILOG =
  LOG_LEVEL :: int
  RUNNING_MODE :: int

text \<open>The instance is a function-local static, its members start at zero.\<close>

definition KETILOG_init :: KETILOG where
  "KETILOG_init = \<lparr>LOG_LEVEL = 0, RUNNING_MODE = 0\<rparr>"

definition SetRunningMode :: "int \<Rightarrow> KETILOG \<Rightarrow> KETILOG" where
  "SetRunningMode mode s = s\<lparr>RUNNING_MODE := mode\<rparr>"

definition SetDefaultLogLevel :: "KETILOG \<Rightarrow> KETILOG" where
  "SetDefaultLogLevel s = s\<lparr>LOG_LEVEL := level_num INFO\<rparr>"

definition SetLogLevel :: "int \<Rightarrow> KETILOG \<Rightarrow> KETILOG" where
  "SetLogLevel level s = s\<lparr>LOG_LEVEL := level\<rparr>"

definition GetLogLevel :: "KETILOG \<Rightarrow> int" where
  "GetLogLevel s = LOG_LEVEL s"

definition log_line :: "string \<Rightarrow> string \<Rightarrow> string" where
  "log_line tag msg = ''['' @ tag @ ''] '' @ msg"

definition print_under :: "DEBUGG_LEVEL \<Rightarrow> KETILOG \<Rightarrow> string \<Rightarrow> string \<Rightarrow> string list" where
  "print_under l s tag msg = (if LOG_LEVEL s \<le> level_num l then [log_line tag msg] else [])"

definition TRACELOG :: "KETILOG \<Rightarrow> string \<Rightarrow> string \<Rightarrow> string list" where
  "TRACELOG = print_under TRACE"

definition DEBUGLOG_c :: "KETILOG \<Rightarrow> string \<Rightarrow> string \<Rightarrow> string list" where
  "DEBUGLOG_c = print_under DEBUG"

definition DEBUGLOG_s :: "KETILOG \<Rightarrow> string \<Rightarrow> string \<Rightarrow> string list" where
  "DEBUGLOG_s = print_under INFO"

definition INFOLOG_c :: "KETILOG \<Rightarrow> string \<Rightarrow> string \<Rightarrow> string list" where
  "INFOLOG_c = print_under INFO"

definition INFOLOG_s :: "KETILOG \<Rightarrow> string \<Rightarrow> string \<Rightarrow> string list" where
  "INFOLOG_s = print_under INFO"

definition WARNLOG_c :: "KETILOG \<Rightarrow> string \<Rightarrow> string \<Rightarrow> string list" where
  "WARNLOG_c = print_under WARN"

definition WARNLOG_s :: "KETILOG \<Rightarrow> string \<Rightarrow> string \<Rightarrow> string list" where
  "WARNLOG_s = print_under ERROR"

definition ERRORLOG_c :: "KETILOG \<Rightarrow> string \<Rightarrow> string \<Rightarrow> string list" where
  "ERRORLOG_c = print_under ERROR"

definition ERRORLOG_s :: "KETILOG \<Rightarrow> string \<Rightarrow> string \<Rightarrow> string list" where
  "ERRORLOG_s = print_under FATAL"

definition FATALLOG_c :: "KETILOG \<Rightarrow> string \<Rightarrow> string \<Rightarrow> string list" where
  "FATALLOG_c = print_under FATAL"

definition FATALLOG_s :: "KETILOG \<Rightarrow> string \<Rightarrow> string \<Rightarrow> string list" where
  "FATALLOG_s = print_under FATAL"

definition IsLogLevelUnder :: "int \<Rightarrow> KETILOG \<Rightarrow> bool" where
  "IsLogLevelUnder level s \<longleftrightarrow> LOG_LEVEL s \<le> level"

definition IsRunningMode :: "int \<Rightarrow> KETILOG \<Rightarrow> bool" where
  "IsRunningMode mode s \<longleftrightarrow> RUNNING_MODE s = mode"

text \<open>
  \<^verbatim>\<open>HandleSetLogLevel\<close>: the status of the response, the logger afterwards and what is printed. A
  missing parameter is the empty string. The conversion throws on text that is not a number or
  out of range, and the handler answers 501.
\<close>

definition exception_text :: "err \<Rightarrow> string" where
  "exception_text e = (case e of InvalidArgument \<Rightarrow> ''stoi'' | OutOfRange \<Rightarrow> ''stoi'' | _ \<Rightarrow> [])"

definition HandleSetLogLevel :: "string \<Rightarrow> KETILOG \<Rightarrow> int \<times> KETILOG \<times> string list" where
  "HandleSetLogLevel log_level s =
     (case stoi log_level of
        Done level _ \<Rightarrow>
          (let s' = SetLogLevel level s
           in (200, s', INFOLOG_s s' ''Handle Set Log Level'' (''log level changed to '' @ log_level)))
      | Abort e \<Rightarrow> (501, s, INFOLOG_c s ''Handle Set Log Level'' (exception_text e)))"

section \<open>Levels\<close>

text \<open>
  The two overloads of a logging function print alike exactly when the level is not the one
  at which they differ: debug texts as strings are printed up to level \<^verbatim>\<open>INFO\<close>, warnings up to
  \<^verbatim>\<open>ERROR\<close> and errors up to \<^verbatim>\<open>FATAL\<close>, one step or two above the level of their name.
\<close>

theorem overloads_disagree:
  "(DEBUGLOG_c s tag msg = DEBUGLOG_s s tag msg \<longleftrightarrow> LOG_LEVEL s \<notin> {2, 3}) \<and>
   (WARNLOG_c s tag msg = WARNLOG_s s tag msg \<longleftrightarrow> LOG_LEVEL s \<noteq> 5) \<and>
   (ERRORLOG_c s tag msg = ERRORLOG_s s tag msg \<longleftrightarrow> LOG_LEVEL s \<noteq> 6) \<and>
   INFOLOG_c s tag msg = INFOLOG_s s tag msg \<and> FATALLOG_c s tag msg = FATALLOG_s s tag msg"
  by (auto simp: DEBUGLOG_c_def DEBUGLOG_s_def WARNLOG_c_def WARNLOG_s_def ERRORLOG_c_def
      ERRORLOG_s_def INFOLOG_c_def INFOLOG_s_def FATALLOG_c_def FATALLOG_s_def print_under_def)

end
