(* ===== verification/Pipeline.thy ===== *)
theory Pipeline
  imports Scan_Laws Projection_Laws Ketilog
begin

text \<open>
  The layers of the worker connected as \<^verbatim>\<open>main.cc\<close> connects them: a snippet goes from the scan
  through the filter to the projection workers and into the queue of the return layer. The
  theorem composes the contracts of the layers: for a snippet with a full scan the return
  layer receives exactly the projected passing rows of the table, once, whichever projection
  workers take the buffers.
\<close>

section \<open>Start\<close>

text \<open>
  The arguments of \<^verbatim>\<open>main\<close>: the first sets the log level; a second makes the first the running
  mode as well, otherwise the mode is \<^verbatim>\<open>LOCAL\<close> (\<open>mode\<close> is its number).
\<close>

definition main_settings :: "int \<Rightarrow> string list \<Rightarrow> KETILOG \<Rightarrow> KETILOG exec" where
  "main_settings mode argv lg =
     bind_exec (if 2 \<le> length argv then bind_exec (stoi (argv ! 1)) (\<lambda>n. ret (SetLogLevel n lg))
                else ret (SetDefaultLogLevel lg)) (\<lambda>lg.
     if 3 \<le> length argv then bind_exec (stoi (argv ! 1)) (\<lambda>n. ret (SetRunningMode n lg))
     else ret (SetRunningMode mode lg))"

section \<open>From the scan to the filter and the projection\<close>

definition bypasses :: "CsdResult \<Rightarrow> bool" where
  "bypasses r \<longleftrightarrow> row_count (data r) = 0 \<or> filtering (query_info (snippet r)) = []"

definition unfiltered :: "CsdResult \<Rightarrow> CsdResult" where
  "unfiltered r = r\<lparr>data := (data r)\<lparr>filtered_row_count := scanned_row_count (data r)\<rparr>\<rparr>"

lemma enqueued_results:
  "work (to_projection (fold enqueue_scan_result rs st)) = work (to_projection st) @ map unfiltered (filter bypasses rs) \<and>
   work (to_filter (fold enqueue_scan_result rs st)) = work (to_filter st) @ filter (\<lambda>r. \<not> bypasses r) rs"
  by (induction rs arbitrary: st)
    (simp_all add: enqueue_scan_result_def bypasses_def unfiltered_def enqueue_projection_def enqueue_filter_def push_work_def Let_def)

text \<open>A buffer that has reached the projection: the passing rows of a scanned buffer, its blocks and counts.\<close>

definition arrived :: "Snippet \<Rightarrow> (bytes \<Rightarrow> bool) \<Rightarrow> bytes list \<times> int \<Rightarrow> CsdResult \<Rightarrow> bool" where
  "arrived snip keep p r \<longleftrightarrow>
     snippet r = snip \<and> holds_closed (data r) (filter keep (fst p)) \<and> current_block_count (data r) = snd p \<and>
     scanned_row_count (data r) = int (length (fst p)) \<and> filtered_row_count (data r) = int (length (filter keep (fst p)))"

definition decided :: "Snippet \<Rightarrow> (bytes \<Rightarrow> bool) \<Rightarrow> bytes list \<Rightarrow> bool" where
  "decided snip keep rows \<longleftrightarrow> (\<forall>row \<in> set rows. value_of (row_passes snip row) = Some (keep row))"

lemma no_filter_keeps:
  assumes "filtering (query_info snip) = []" and "decided snip keep rows"
  shows "filter keep rows = rows"
  using assms by (auto simp: decided_def row_passes_def value_of_bind filter_id_conv bind_eq_Some_conv split: option.splits)

lemma bypassing_arrives:
  assumes "result_of snip p r" and "bypasses r" and "decided snip keep (fst p)"
  shows "arrived snip keep p (unfiltered r)"
proof -
  have "filter keep (fst p) = fst p"
    using assms no_filter_keeps [of snip keep "fst p"] by (auto simp: bypasses_def result_of_def holds_closed_def)
  then show ?thesis using assms(1) by (simp add: arrived_def result_of_def unfiltered_def holds_closed_def)
qed

lemma filtered_arrive:
  assumes "list_all2 (result_of snip) ps rs" and "\<forall>p \<in> set ps. decided snip keep (fst p)"
  shows "\<exists>mon' q' rs'. value_of (fold_exec filtering_handler rs (mon, q)) = Some (mon', q') \<and>
    work q' = work q @ rs' \<and> list_all2 (arrived snip keep) ps rs'"
  using assms
proof (induction arbitrary: mon q rule: list_all2_induct)
  case Nil
  then show ?case by simp
next
  case (Cons p ps r rs)
  have "holds_closed (data r) (fst p)" "\<forall>row \<in> set (fst p). value_of (row_passes (snippet r) row) = Some (keep row)"
    using Cons.hyps(1) Cons.prems by (auto simp: result_of_def decided_def)
  from filtering_handler_rows [OF this, of mon q] obtain r' mon1 where r':
    "value_of (filtering_handler r (mon, q)) = Some (mon1, enqueue_projection r' q)" "arrived snip keep p r'"
    using Cons.hyps(1) by (auto simp: arrived_def result_of_def)
  obtain mon' q' rs' where rest: "value_of (fold_exec filtering_handler rs (mon1, enqueue_projection r' q)) = Some (mon', q')"
    "work q' = work (enqueue_projection r' q) @ rs'" "list_all2 (arrived snip keep) ps rs'"
    using Cons.IH Cons.prems by (meson list.set_intros(2))
  have "work (enqueue_projection r' q) = work q @ [r']" by (simp add: enqueue_projection_def push_work_def Let_def)
  then show ?case using r' rest
    by (intro exI [of _ mon'] exI [of _ q'] exI [of _ "r' # rs'"]) (simp add: value_of_bind)
qed

lemma split_results:
  assumes "list_all2 R ps rs"
  shows "\<exists>ps1 ps2. list_all2 R ps1 (filter Q rs) \<and> list_all2 R ps2 (filter (\<lambda>r. \<not> Q r) rs) \<and> mset ps = mset (ps1 @ ps2)"
  using assms
proof (induction rule: list_all2_induct)
  case Nil
  then show ?case by simp
next
  case (Cons p ps r rs)
  then obtain ps1 ps2 where ih: "list_all2 R ps1 (filter Q rs)" "list_all2 R ps2 (filter (\<lambda>r. \<not> Q r) rs)" "mset ps = mset (ps1 @ ps2)"
    by blast
  show ?case
  proof (cases "Q r")
    case True
    then show ?thesis using ih Cons.hyps(1) by (intro exI [of _ "p # ps1"] exI [of _ ps2]) simp
  next
    case False
    then show ?thesis using ih Cons.hyps(1) by (intro exI [of _ ps1] exI [of _ "p # ps2"]) simp
  qed
qed

lemma scan_and_filter:
  assumes "handed_over snip (ScanState_init snip WorkQueue_init WorkQueue_init monitor) ps st"
    and "\<forall>p \<in> set ps. decided snip keep (fst p)"
  shows "\<exists>mon q qs. value_of (fold_exec filtering_handler (work (to_filter st)) (scan_monitor st, to_projection st)) = Some (mon, q) \<and>
    mset qs = mset ps \<and> list_all2 (arrived snip keep) qs (work q)"
proof -
  from assms(1) obtain outs where outs: "list_all2 (result_of snip) ps outs"
    "work (to_projection st) = map unfiltered (filter bypasses outs)" "work (to_filter st) = filter (\<lambda>r. \<not> bypasses r) outs"
    unfolding handed_over_def using enqueued_results by (auto simp: ScanState_init_def WorkQueue_init_def)
  obtain ps1 ps2 where s: "list_all2 (result_of snip) ps1 (filter bypasses outs)"
    "list_all2 (result_of snip) ps2 (filter (\<lambda>r. \<not> bypasses r) outs)" "mset ps = mset (ps1 @ ps2)"
    using split_results [OF outs(1), of bypasses] by blast
  have set: "set ps = set (ps1 @ ps2)" using s(3) mset_eq_setD by blast
  have d: "\<forall>p \<in> set ps1. decided snip keep (fst p)" "\<forall>p \<in> set ps2. decided snip keep (fst p)"
    using assms(2) by (auto simp: set)
  have "list_all2 (arrived snip keep) ps1 (map unfiltered (filter bypasses outs))"
    using s(1) d(1) by (auto simp: list_all2_conv_all_nth intro!: bypassing_arrives dest: nth_mem)
  moreover obtain mon q rs where "value_of (fold_exec filtering_handler (work (to_filter st)) (scan_monitor st, to_projection st)) = Some (mon, q)"
    "work q = work (to_projection st) @ rs" "list_all2 (arrived snip keep) ps2 rs"
    using filtered_arrive [OF s(2) d(2), of "scan_monitor st" "to_projection st"] outs(3) by auto
  ultimately show ?thesis
    using s(3) outs(2) by (intro exI [of _ mon] exI [of _ q] exI [of _ "ps1 @ ps2"]) (simp add: list_all2_appendI)
qed

section \<open>The projection workers\<close>

text \<open>The rows of a closed buffer.\<close>

definition closed_rows :: "Data \<Rightarrow> bytes list" where
  "closed_rows d = butlast (buf_rows d)"

lemma closed_rows_of: "holds_closed d rs \<Longrightarrow> closed_rows d = rs"
  using slices_offsets [of "[]" "rs @ [[]]"]
  by (simp add: holds_closed_def closed_rows_def buf_rows_def offsets_from_append)

definition projected :: "Snippet \<Rightarrow> (bytes \<Rightarrow> bytes) \<Rightarrow> bytes list \<Rightarrow> bool" where
  "projected snip prow rows \<longleftrightarrow>
     (\<forall>row \<in> set rows. value_of (project_row snip row) = Some (prow row) \<and> int (length (prow row)) \<le> BUFFER_SIZE)"

lemma arrived_projects:
  assumes "arrived snip keep p r" and "projected snip prow (filter keep (fst p))"
  shows "projects r (closed_rows (data r)) (map prow (closed_rows (data r)))"
proof -
  have r: "snippet r = snip" "holds_closed (data r) (filter keep (fst p))" using assms(1) by (simp_all add: arrived_def)
  have "\<forall>i < length (filter keep (fst p)). filter keep (fst p) ! i \<in> set (filter keep (fst p))" using nth_mem by blast
  then show ?thesis
    using assms(2) r unfolding projects_def projected_def closed_rows_of [OF r(2)] by simp
qed

lemma mset_sums: "mset xs = mset ys \<Longrightarrow> sum_list (map f xs) = sum_list (map f ys)"
  for f :: "'a \<Rightarrow> 'b :: comm_monoid_add"
  by (metis mset_map sum_mset_sum_list)

lemma arrived_sums:
  assumes "list_all2 (arrived snip keep) qs rs"
  shows "sum_list (map (\<lambda>r. mset (map prow (closed_rows (data r)))) rs) = sum_list (map (\<lambda>p. mset (map prow (filter keep (fst p)))) qs)"
    and "sum_list (map (\<lambda>r. current_block_count (data r)) rs) = sum_list (map snd qs)"
    and "sum_list (map (\<lambda>r. scanned_row_count (data r)) rs) = sum_list (map (\<lambda>p. int (length (fst p))) qs)"
    and "sum_list (map (\<lambda>r. filtered_row_count (data r)) rs) = sum_list (map (\<lambda>p. int (length (filter keep (fst p)))) qs)"
  using assms by (induction rule: list_all2_induct) (auto simp: arrived_def dest!: closed_rows_of)

lemma row_sums:
  "sum_list (map (\<lambda>p. mset (map prow (filter keep (fst p)))) ps) = mset (map prow (filter keep (concat (map fst ps))))"
  "sum_list (map (\<lambda>p. int (length (fst p))) ps) = int (length (concat (map fst ps)))"
  "sum_list (map (\<lambda>p. int (length (filter keep (fst p)))) ps) = int (length (filter keep (concat (map fst ps))))"
  by (induction ps) simp_all

lemma workers_deliver:
  assumes arrived: "list_all2 (arrived snip keep) qs rs" and "qs \<noteq> []" and pos: "\<forall>p \<in> set qs. 0 < snd p"
    and proj: "\<forall>p \<in> set qs. projected snip prow (filter keep (fst p))"
    and blocks: "sum_list (map snd qs) = csd_block_count (result_info snip)"
    and range: "csd_block_count (result_info snip) < 2 ^ 31" "sum_list (map (\<lambda>p. int (length (fst p))) qs) < 2 ^ 31"
    and workers: "length workers = length rs" "\<forall>w \<in> set workers. w < n"
  defines "k \<equiv> make_map_key (query_id snip) (work_id snip)"
  shows "\<exists>pst. value_of (project_all (zip workers rs) (ProjectionState_init n)) = Some pst \<and>
    delivered (\<lambda>d. mset (buf_rows d)) k (work (return_queue pst)) = sum_list (map (\<lambda>p. mset (map prow (filter keep (fst p)))) qs) \<and>
    delivered current_block_count k (work (return_queue pst)) = csd_block_count (result_info snip) \<and>
    delivered scanned_row_count k (work (return_queue pst)) = sum_list (map (\<lambda>p. int (length (fst p))) qs) \<and>
    delivered filtered_row_count k (work (return_queue pst)) = sum_list (map (\<lambda>p. int (length (filter keep (fst p)))) qs) \<and>
    id_block_count_map pst k = None \<and> (\<forall>mb \<in> set (merge_buffer_list pst). id_buffer_map mb k = None)"
proof -
  let ?calls = "zip workers rs" and ?rows = "\<lambda>r. closed_rows (data r)" and ?prows = "\<lambda>r. map prow (closed_rows (data r))"
  have each: "\<exists>p \<in> set qs. arrived snip keep p r" if "r \<in> set rs" for r
  proof -
    obtain i where "i < length rs" "rs ! i = r" using \<open>r \<in> set rs\<close> by (auto simp: in_set_conv_nth)
    then show ?thesis using arrived nth_mem [of i qs] by (intro bexI [of _ "qs ! i"]) (auto simp: list_all2_conv_all_nth)
  qed
  have good: "\<forall>c \<in> set ?calls. good_call n ?rows ?prows c"
  proof
    fix c assume c: "c \<in> set ?calls"
    then have "fst c \<in> set workers" "snd c \<in> set rs" by (metis prod.collapse set_zip_leftD set_zip_rightD)+
    then have "fst c < n" "snd c \<in> set rs" using workers(2) by simp_all
    with each [of "snd c"] proj show "good_call n ?rows ?prows c" by (auto simp: good_call_def arrived_projects)
  qed
  have "key_of r = k" if "r \<in> set rs" for r using each [OF that] by (auto simp: arrived_def key_of_def k_def)
  then have "filter (\<lambda>c. key_of (snd c) = k) ?calls = ?calls" by (auto simp: filter_id_conv dest: set_zip_rightD)
  then have mine: "mine k ?calls = rs" using workers(1) by (simp add: mine_def)
  have rs: "rs \<noteq> []" using arrived assms(2) by auto
  have res: "0 < current_block_count (data r) \<and> csd_block_count (result_info (snippet r)) = csd_block_count (result_info snip) \<and>
      0 \<le> scanned_row_count (data r) \<and> 0 \<le> filtered_row_count (data r)"
    if "r \<in> set rs" for r using each [OF that] pos by (auto simp: arrived_def)
  have sums: "sum_list (map (\<lambda>r. current_block_count (data r)) rs) = csd_block_count (result_info snip)"
    using arrived_sums(2) [OF arrived] blocks by simp
  have "sum_list (map (\<lambda>p. int (length (filter keep (fst p)))) qs) \<le> sum_list (map (\<lambda>p. int (length (fst p))) qs)"
    by (rule sum_list_mono) simp
  then have counts: "sum_list (map (\<lambda>r. scanned_row_count (data r)) rs) < 2 ^ 31"
    "sum_list (map (\<lambda>r. filtered_row_count (data r)) rs) < 2 ^ 31"
    using range(2) arrived_sums(3,4) [OF arrived] by simp_all
  show ?thesis
    using snippet_delivered [OF good, of k "csd_block_count (result_info snip)", unfolded mine] rs res sums counts range(1)
      arrived_sums(1,3,4) [OF arrived]
    by (auto simp: less_imp_le)
qed

text \<open>
  What the return layer receives of a snippet with a full scan, whichever of the \<open>n\<close> projection workers
  takes each buffer: the rows \<open>passing\<close> once each, the blocks and the rows counted completely (\<open>scanned\<close> and
  \<open>passing\<close>), and nothing of the snippet left in the projection layer.
\<close>

definition delivers_rows ::
  "block_reader \<Rightarrow> Snippet \<Rightarrow> MonitoringManager \<Rightarrow> nat \<Rightarrow> bytes list \<Rightarrow> bytes list \<Rightarrow> bool" where
  "delivers_rows read_block snip monitor n scanned passing \<longleftrightarrow> (\<exists>st mon q.
    value_of (data_block_full_scan read_block snip (ScanState_init snip WorkQueue_init WorkQueue_init monitor)) = Some st \<and>
    value_of (fold_exec filtering_handler (work (to_filter st)) (scan_monitor st, to_projection st)) = Some (mon, q) \<and>
    (\<forall>workers. length workers = length (work q) \<and> (\<forall>w \<in> set workers. w < n) \<longrightarrow>
      (\<exists>pst. value_of (project_all (zip workers (work q)) (ProjectionState_init n)) = Some pst \<and>
        delivered (\<lambda>d. mset (buf_rows d)) (make_map_key (query_id snip) (work_id snip)) (work (return_queue pst)) = mset passing \<and>
        delivered current_block_count (make_map_key (query_id snip) (work_id snip)) (work (return_queue pst)) =
          csd_block_count (result_info snip) \<and>
        delivered scanned_row_count (make_map_key (query_id snip) (work_id snip)) (work (return_queue pst)) = int (length scanned) \<and>
        delivered filtered_row_count (make_map_key (query_id snip) (work_id snip)) (work (return_queue pst)) = int (length passing) \<and>
        id_block_count_map pst (make_map_key (query_id snip) (work_id snip)) = None \<and>
        (\<forall>mb \<in> set (merge_buffer_list pst). id_buffer_map mb (make_map_key (query_id snip) (work_id snip)) = None))))"

lemma snippet_delivers:
  assumes "table_ok snip" and "reads_hold read_block snip row (snippet_reads snip) ess" and "snippet_reads snip \<noteq> []"
    and "csd_block_count (result_info snip) = int (length (snippet_reads snip))"
    and "buffers_fit snip row ess" and "csd_block_count (result_info snip) < 2 ^ 31" and "int (length (table_rows snip row ess)) < 2 ^ 31"
    and "decided snip keep (table_rows snip row ess)" and "projected snip prow (filter keep (table_rows snip row ess))"
  shows "delivers_rows read_block snip monitor n (table_rows snip row ess) (map prow (filter keep (table_rows snip row ess)))"
proof -
  obtain st ps where st: "value_of (data_block_full_scan read_block snip (ScanState_init snip WorkQueue_init WorkQueue_init monitor)) = Some st"
    "handed_over snip (ScanState_init snip WorkQueue_init WorkQueue_init monitor) ps st"
    "concat (map fst ps) = table_rows snip row ess" "sum_list (map snd ps) = csd_block_count (result_info snip)"
    "\<forall>p \<in> set ps. 0 < snd p"
    using full_scan_hands_over [OF assms(1-5), of WorkQueue_init WorkQueue_init monitor] by blast
  have sub: "set (fst p) \<subseteq> set (table_rows snip row ess)" if "p \<in> set ps" for p
    using that by (auto simp: st(3) [symmetric])
  then have "\<forall>p \<in> set ps. decided snip keep (fst p)" using assms(8) by (auto simp: decided_def)
  from scan_and_filter [OF st(2) this] obtain mon q qs where
    q: "value_of (fold_exec filtering_handler (work (to_filter st)) (scan_monitor st, to_projection st)) = Some (mon, q)"
    "mset qs = mset ps" "list_all2 (arrived snip keep) qs (work q)" by blast
  have set: "set qs = set ps" using q(2) mset_eq_setD by blast
  have "ps \<noteq> []" using st(4) assms(3,4) by auto
  then have "qs \<noteq> []" using q(2) by auto
  have proj: "\<forall>p \<in> set qs. projected snip prow (filter keep (fst p))"
    using sub assms(9) by (auto simp: set projected_def)
  have blocks: "sum_list (map snd qs) = csd_block_count (result_info snip)" using mset_sums [OF q(2), of snd] st(4) by simp
  have pos: "\<forall>p \<in> set qs. 0 < snd p" using st(5) by (simp add: set)
  have sums: "sum_list (map (\<lambda>p. mset (map prow (filter keep (fst p)))) qs) = mset (map prow (filter keep (table_rows snip row ess)))"
    "sum_list (map (\<lambda>p. int (length (fst p))) qs) = int (length (table_rows snip row ess))"
    "sum_list (map (\<lambda>p. int (length (filter keep (fst p)))) qs) = int (length (filter keep (table_rows snip row ess)))"
    unfolding mset_sums [OF q(2)] by (simp_all only: row_sums st(3))
  note deliver = workers_deliver [OF q(3) \<open>qs \<noteq> []\<close> pos proj blocks assms(6) assms(7) [folded sums(2)]]
  show ?thesis
    unfolding delivers_rows_def
    using st(1) q(1) deliver [unfolded sums] by (intro exI [of _ st] exI [of _ mon] exI [of _ q]) simp
qed

text \<open>
  C2: a full scan from end to end, when the rows of every 100 consecutive blocks fit into a buffer and
  the table has fewer than \<^verbatim>\<open>2^31\<close> rows and blocks, as many as the counters can count: the return layer receives exactly the projections of the rows of
  the table that pass the filter, the blocks and row counts of the snippet add up, and nothing of
  it stays behind in the projection layer.
\<close>

theorem snippet_end_to_end:
  assumes "table_ok snip" and "reads_hold read_block snip row (snippet_reads snip) ess" and "snippet_reads snip \<noteq> []"
    and "csd_block_count (result_info snip) = int (length (snippet_reads snip))"
    and "buffers_fit snip row ess" and "csd_block_count (result_info snip) < 2 ^ 31" and "int (length (table_rows snip row ess)) < 2 ^ 31"
    and "decided snip keep (table_rows snip row ess)" and "projected snip prow (filter keep (table_rows snip row ess))"
  shows "delivers_rows read_block snip monitor n (table_rows snip row ess) (map prow (filter keep (table_rows snip row ess)))"
  using assms by (rule snippet_delivers)

section \<open>A concrete snippet\<close>

definition one_block :: Snippet where
  "one_block = demo_snippet\<lparr>block_info := \<lparr>partition_name = ''p'', sst_list = [],
     block_list = [\<lparr>blk_offset = [60, 3], blk_length = [50, 56]\<rparr>]\<rparr>\<rparr>"

definition stored_entries :: "entry list" where
  "stored_entries =
     [([0, 0, 1, 4, 0x80, 0, 0, 7], concat (map cell_bytes [DecimalCell (- 12345), VarcharCell ''ok''])),
      ([0, 0, 1, 4, 0x80, 0, 0, 12], concat (map cell_bytes [DecimalCell 5, VarcharCell ''no''])),
      ([0, 0, 1, 5, 0x80, 0, 0, 1], [1, 2, 3])]"

definition stored_row :: "entry \<Rightarrow> bytes" where
  "stored_row e = (case value_of (scanned_row one_block e) of Some r \<Rightarrow> r | None \<Rightarrow> [])"

definition shown_row :: "bytes \<Rightarrow> bytes" where
  "shown_row r = (case value_of (project_row one_block r) of Some p \<Rightarrow> p | None \<Rightarrow> [])"

lemma one_block_rows: "table_rows one_block stored_row [stored_entries] = demo_rows"
  by code_simp

lemma one_block_reads: "snippet_reads one_block = [([60, 3], [50, 56])]"
  by (simp add: snippet_reads_def one_block_def block_reads_def)

lemma one_block_hold:
  "reads_hold (\<lambda>_ _ _. stored_entries) one_block stored_row (snippet_reads one_block) [stored_entries]"
proof -
  have "keys_ok stored_entries" unfolding keys_ok_def by code_simp
  moreover have "list_all (\<lambda>e. table_of (fst e) = 260 \<longrightarrow> value_of (scanned_row one_block e) = Some (stored_row e)) stored_entries"
    by code_simp
  ultimately show ?thesis
    by (simp add: reads_hold_def one_block_reads converts_def list_all_iff) (simp add: one_block_def demo_snippet_def demo_schema_def)
qed

definition kept_row :: "bytes \<Rightarrow> bool" where
  "kept_row r \<longleftrightarrow> r = concat demo_cells"

lemma one_block_kept: "filter kept_row demo_rows = [concat demo_cells]"
  by code_simp

lemma one_block_projects:
  "value_of (project_row one_block (concat demo_cells)) = Some (cell_bytes (DecimalCell (- 12345)))"
  "shown_row (concat demo_cells) = cell_bytes (DecimalCell (- 12345))" "length (cell_bytes (DecimalCell (- 12345))) = 7"
  by code_simp+

lemma one_block_decided: "decided one_block kept_row demo_rows"
proof -
  have "row_passes one_block = row_passes demo_snippet" by (rule ext) (simp add: row_passes_def one_block_def)
  then show ?thesis using demo_row_passes by (simp add: decided_def demo_result_def kept_row_def)
qed

lemma one_block_projected: "projected one_block shown_row (filter kept_row demo_rows)"
  by (simp only: one_block_kept) (simp add: projected_def one_block_projects BUFFER_SIZE_def NUM_OF_BLOCKS_def)

lemma one_block_ok:
  "table_ok one_block" "snippet_reads one_block \<noteq> []" "csd_block_count (result_info one_block) = int (length (snippet_reads one_block))"
  by (simp_all add: one_block_reads) (simp_all add: table_ok_def one_block_def demo_snippet_def demo_schema_def)

lemma one_block_fits:
  "buffers_fit one_block stored_row [stored_entries]" "csd_block_count (result_info one_block) < 2 ^ 31"
  "int (length (table_rows one_block stored_row [stored_entries])) < 2 ^ 31"
proof -
  have "rows_fit demo_rows" using demo_result_holds by (simp add: holds_closed_def)
  then show "buffers_fit one_block stored_row [stored_entries]"
    by (intro buffers_fit_small) (simp_all add: one_block_rows)
  show "csd_block_count (result_info one_block) < 2 ^ 31" by (simp add: one_block_ok one_block_reads)
  show "int (length (table_rows one_block stored_row [stored_entries])) < 2 ^ 31"
    by (simp only: one_block_rows) (simp add: demo_rows_def)
qed

lemma one_block_delivered:
  assumes "delivers_rows read_block one_block MonitoringManager_init 2 demo_rows (map shown_row (filter kept_row demo_rows))"
  shows "\<exists>st mon q pst.
    value_of (data_block_full_scan read_block one_block
      (ScanState_init one_block WorkQueue_init WorkQueue_init MonitoringManager_init)) = Some st \<and>
    value_of (fold_exec filtering_handler (work (to_filter st)) (scan_monitor st, to_projection st)) = Some (mon, q) \<and>
    value_of (project_all (zip (replicate (length (work q)) 1) (work q)) (ProjectionState_init 2)) = Some pst \<and>
    delivered (\<lambda>d. mset (buf_rows d)) (make_map_key 3 1) (work (return_queue pst)) = {# cell_bytes (DecimalCell (- 12345)) #} \<and>
    delivered scanned_row_count (make_map_key 3 1) (work (return_queue pst)) = 2"
proof -
  have ids: "query_id one_block = 3" "work_id one_block = 1" "length demo_rows = 2"
    by (simp_all add: one_block_def demo_snippet_def demo_rows_def)
  show ?thesis
    using assms unfolding delivers_rows_def
  proof (elim exE conjE, goal_cases)
    case (1 st mon q)
    have "length (replicate (length (work q)) 1) = length (work q) \<and> (\<forall>w \<in> set (replicate (length (work q)) (1 :: nat)). w < 2)" by simp
    from 1(3) [rule_format, OF this] 1(1,2) show ?case unfolding one_block_kept ids by (auto simp: one_block_projects)
  qed
qed

theorem snippet_end_to_end_witness:
  "\<exists>st mon q pst.
    value_of (data_block_full_scan (\<lambda>_ _ _. stored_entries) one_block
      (ScanState_init one_block WorkQueue_init WorkQueue_init MonitoringManager_init)) = Some st \<and>
    value_of (fold_exec filtering_handler (work (to_filter st)) (scan_monitor st, to_projection st)) = Some (mon, q) \<and>
    value_of (project_all (zip (replicate (length (work q)) 1) (work q)) (ProjectionState_init 2)) = Some pst \<and>
    delivered (\<lambda>d. mset (buf_rows d)) (make_map_key 3 1) (work (return_queue pst)) = {# cell_bytes (DecimalCell (- 12345)) #} \<and>
    delivered scanned_row_count (make_map_key 3 1) (work (return_queue pst)) = 2"
  by (rule one_block_delivered [OF snippet_end_to_end [OF one_block_ok(1) one_block_hold one_block_ok(2,3) one_block_fits,
        unfolded one_block_rows, OF one_block_decided one_block_projected]])

end
