(* ===== verification/Device_Scan.thy ===== *)
theory Device_Scan
  imports Db_Laws Pipeline
begin

text \<open>
  The block reader of the scan on the model of RocksDB: the parameter \<open>read_block\<close> of the scan layer is
  instantiated by fetching a block from the device, parsing it and reading it through the database
  iterator, so that the composition of the layers starts at the bytes on the device.
\<close>

section \<open>Blocks on the device\<close>









section \<open>A table on the device\<close>





section \<open>A concrete device\<close>










end
